(* ===== verification/Go_Base.thy ===== *)
theory Go_Base
  imports Main "HOL-Library.Word" "HOL-Library.AList" "HOL-Library.Sublist"
    "HOL-Library.Char_ord" "HOL-Library.List_Lexorder" "HOL-Library.Multiset"
begin

text \<open>
  Prelude of the development: the part of the Go language and of its standard library that
  the program under src/ uses, and the lemmas the component theories share.

  \<^item> run-time panics: a Go function that may panic returns a value of type \<open>go\<close>, which is
    \<open>Ret\<close> of its result or \<open>Panic\<close> with the reason; \<open>go_bind\<close>, \<open>go_fold\<close> and
    \<open>go_nth\<close> are sequencing, a \<open>for .. range\<close> loop and an indexed read;
  \<^item> maps: a Go map is an association list with distinct keys, or nil (\<open>None\<close>); reading and
    deleting in a nil map is harmless, writing to one panics;
  \<^item> strings: byte strings as \<open>string\<close>, with \<open>strings.Split\<close>, \<open>SplitN\<close>, \<open>Join\<close>,
    \<open>Replace\<close>, \<open>Trim\<close>, \<open>TrimSuffix\<close>, \<open>TrimSpace\<close>, \<open>ToLower\<close> (on ASCII letters);
  \<^item> numbers: \<open>uint\<close> is a 64-bit word, \<open>int\<close> an integer in the 64-bit range; decimal
    printing (the verb \<open>%v\<close> of \<open>fmt\<close>) and \<open>strconv.Atoi\<close>;
  \<^item> paths: \<open>filepath.Clean\<close> and \<open>filepath.Join\<close> on Unix.
\<close>

named_theorems go_run \<open>evaluation and inversion rules of the panic monad\<close>
named_theorems go_map \<open>lookup rules of Go maps\<close>
named_theorems go_str \<open>rules of the string operations\<close>
named_theorems go_eval \<open>equations that evaluate the library on concrete arguments\<close>

section \<open>Panics\<close>

datatype panic_kind = IndexOutOfRange | SliceBounds | NilDereference | NilMapWrite
  | LogPanic | LogFatal

datatype 'a go = Ret 'a | Panic panic_kind

type_synonym go_error = string
type_synonym uint = "64 word"

fun go_bind :: "'a go \<Rightarrow> ('a \<Rightarrow> 'b go) \<Rightarrow> 'b go" where
  "go_bind (Ret x) f = f x"
| "go_bind (Panic p) f = Panic p"

fun returns :: "'a go \<Rightarrow> bool" where
  "returns (Ret x) = True"
| "returns (Panic p) = False"

lemma go_bind_eq_Ret [go_run]: "go_bind m f = Ret y \<longleftrightarrow> (\<exists>x. m = Ret x \<and> f x = Ret y)"
  by (cases m) auto

lemma go_bind_eq_Panic [go_run]:
  "go_bind m f = Panic p \<longleftrightarrow> m = Panic p \<or> (\<exists>x. m = Ret x \<and> f x = Panic p)"
  by (cases m) auto

lemma go_bind_assoc: "go_bind (go_bind m f) g = go_bind m (\<lambda>x. go_bind (f x) g)"
  by (cases m) auto

lemma go_bind_Ret [simp]: "go_bind m Ret = m"
  by (cases m) auto

lemma returns_iff [go_run]: "returns m \<longleftrightarrow> (\<exists>x. m = Ret x)"
  by (cases m) auto

lemma go_bind_cong [fundef_cong]:
  "m = m' \<Longrightarrow> (\<And>x. m' = Ret x \<Longrightarrow> f x = g x) \<Longrightarrow> go_bind m f = go_bind m' g"
  by (cases m') auto

text \<open>A \<open>for _, x := range xs\<close> loop whose body updates a state and may panic.\<close>

fun go_fold :: "('s \<Rightarrow> 'x \<Rightarrow> 's go) \<Rightarrow> 's \<Rightarrow> 'x list \<Rightarrow> 's go" where
  "go_fold f s [] = Ret s"
| "go_fold f s (x # xs) = go_bind (f s x) (\<lambda>s'. go_fold f s' xs)"

lemma go_fold_append [go_run]:
  "go_fold f s (xs @ ys) = go_bind (go_fold f s xs) (\<lambda>s'. go_fold f s' ys)"
  by (induction xs arbitrary: s) (auto simp: go_bind_assoc)

lemma go_fold_invariant:
  assumes "go_fold f s xs = Ret s'" and "P s"
    and "\<And>s x s'. x \<in> set xs \<Longrightarrow> P s \<Longrightarrow> f s x = Ret s' \<Longrightarrow> P s'"
  shows "P s'"
  using assms
proof (induction xs arbitrary: s)
  case (Cons x xs)
  from Cons.prems(1) obtain t where t: "f s x = Ret t" "go_fold f t xs = Ret s'"
    by (auto simp: go_run)
  from Cons.prems t(1) have "P t" by auto
  with t(2) Cons.prems(3) show ?case by (intro Cons.IH [of t]) auto
qed simp

lemma go_fold_Ret:
  assumes "\<And>s x. x \<in> set xs \<Longrightarrow> f s x = Ret (g s x)"
  shows "go_fold f s xs = Ret (foldl g s xs)"
  using assms by (induction xs arbitrary: s) auto

lemma go_fold_returns:
  assumes "P s" and "\<And>s x. x \<in> set xs \<Longrightarrow> P s \<Longrightarrow> \<exists>s'. f s x = Ret s' \<and> P s'"
  shows "\<exists>s'. go_fold f s xs = Ret s' \<and> P s'"
  using assms
proof (induction xs arbitrary: s)
  case (Cons x xs)
  then obtain t where t: "f s x = Ret t" "P t" by (meson list.set_intros(1))
  with Cons.IH [of t] Cons.prems show ?case by auto
qed simp

lemma go_fold_cong [fundef_cong]:
  assumes "s = s'" and "xs = ys" and "\<And>s x. x \<in> set ys \<Longrightarrow> f s x = g s x"
  shows "go_fold f s xs = go_fold g s' ys"
proof -
  have "go_fold f s ys = go_fold g s ys" for s
    using assms(3) by (induction ys arbitrary: s) (auto intro: go_bind_cong)
  then show ?thesis using assms(1,2) by simp
qed

text \<open>
  The contract of a refinement: a step \<open>f\<close> of the state, seen through \<open>view\<close>, is the step \<open>g\<close> of the
  specification, panics included. A loop over such steps is one.
\<close>

locale simulation =
  fixes inv :: "'s \<Rightarrow> bool" and view :: "'s \<Rightarrow> 'v"
    and f :: "'s \<Rightarrow> 'x \<Rightarrow> 's go" and g :: "'v \<Rightarrow> 'x \<Rightarrow> 'v go"
  assumes step_view: "inv s \<Longrightarrow> go_bind (f s x) (\<lambda>s'. Ret (view s')) = g (view s) x"
    and step_inv: "inv s \<Longrightarrow> f s x = Ret s' \<Longrightarrow> inv s'"
begin

lemma fold_inv: "inv s \<Longrightarrow> go_fold f s xs = Ret s' \<Longrightarrow> inv s'"
  by (erule go_fold_invariant) (auto intro: step_inv)

lemma fold_view: "inv s \<Longrightarrow> go_bind (go_fold f s xs) (\<lambda>s'. Ret (view s')) = go_fold g (view s) xs"
proof (induction xs arbitrary: s)
  case (Cons x xs)
  from step_view [OF Cons.prems, of x, symmetric] step_inv [OF Cons.prems, of x] Cons.IH show ?case
    by (cases "f s x") auto
qed simp

end

text \<open>An indexed read \<open>xs[i]\<close>.\<close>

definition go_nth :: "'a list \<Rightarrow> nat \<Rightarrow> 'a go" where
  "go_nth xs i = (if i < length xs then Ret (xs ! i) else Panic IndexOutOfRange)"

definition go_nth_int :: "'a list \<Rightarrow> int \<Rightarrow> 'a go" where
  "go_nth_int xs i =
     (if 0 \<le> i \<and> i < int (length xs) then Ret (xs ! nat i) else Panic IndexOutOfRange)"

lemma go_nth_eq_Ret [go_run]: "go_nth xs i = Ret x \<longleftrightarrow> i < length xs \<and> xs ! i = x"
  by (auto simp: go_nth_def)

lemma go_nth_eq_Panic [go_run]: "go_nth xs i = Panic p \<longleftrightarrow> length xs \<le> i \<and> p = IndexOutOfRange"
  by (auto simp: go_nth_def)

lemma go_nth_int_eq_Ret [go_run]:
  "go_nth_int xs i = Ret x \<longleftrightarrow> 0 \<le> i \<and> i < int (length xs) \<and> xs ! nat i = x"
  by (auto simp: go_nth_int_def)

lemma go_nth_int_nat: "go_nth_int xs (int i) = go_nth xs i"
  by (simp add: go_nth_def go_nth_int_def)

section \<open>Maps\<close>

type_synonym ('k, 'v) gomap = "('k \<times> 'v) list option"

definition gm_make :: "('k, 'v) gomap" where
  "gm_make = Some []"

definition gm_get :: "('k, 'v) gomap \<Rightarrow> 'k \<Rightarrow> 'v option" where
  "gm_get m k = (case m of None \<Rightarrow> None | Some al \<Rightarrow> map_of al k)"

definition gm_put :: "('k, 'v) gomap \<Rightarrow> 'k \<Rightarrow> 'v \<Rightarrow> ('k, 'v) gomap go" where
  "gm_put m k v =
     (case m of None \<Rightarrow> Panic NilMapWrite | Some al \<Rightarrow> Ret (Some (AList.update k v al)))"

definition gm_delete :: "('k, 'v) gomap \<Rightarrow> 'k \<Rightarrow> ('k, 'v) gomap" where
  "gm_delete m k = map_option (AList.delete k) m"

definition gm_keys :: "('k, 'v) gomap \<Rightarrow> 'k list" where
  "gm_keys m = (case m of None \<Rightarrow> [] | Some al \<Rightarrow> map fst al)"

definition gm_ok :: "('k, 'v) gomap \<Rightarrow> bool" where
  "gm_ok m = distinct (gm_keys m)"

lemma gm_get_make [simp, go_map]: "gm_get gm_make k = None"
  by (simp add: gm_get_def gm_make_def)

lemma gm_get_nil [simp, go_map]: "gm_get None k = None"
  by (simp add: gm_get_def)

lemma gm_put_nil [simp]: "gm_put None k v = Panic NilMapWrite"
  by (simp add: gm_put_def)

lemma gm_put_make [simp]: "gm_put gm_make k v = Ret (Some [(k, v)])"
  by (simp add: gm_put_def gm_make_def)

lemma gm_make_not_nil [simp]: "gm_make \<noteq> None"
  by (simp add: gm_make_def)

lemma gm_get_put [go_map]: "gm_put m k v = Ret m' \<Longrightarrow> gm_get m' = (gm_get m)(k \<mapsto> v)"
  by (auto simp: gm_put_def gm_get_def update_conv' fun_eq_iff split: option.splits)

lemma gm_put_not_nil: "gm_put m k v = Ret m' \<Longrightarrow> m' \<noteq> None"
  by (auto simp: gm_put_def split: option.splits)

lemma gm_put_returns: "m \<noteq> None \<Longrightarrow> \<exists>m'. gm_put m k v = Ret m' \<and> m' \<noteq> None"
  by (auto simp: gm_put_def)

lemma gm_get_delete [go_map]: "gm_get (gm_delete m k) = (gm_get m)(k := None)"
  by (cases m) (auto simp: gm_delete_def gm_get_def delete_conv' fun_eq_iff)

lemma gm_delete_eq_None [simp]: "gm_delete m k = None \<longleftrightarrow> m = None"
  by (simp add: gm_delete_def)

lemma gm_get_Some: "gm_get (Some al) = map_of al"
  by (simp add: gm_get_def fun_eq_iff)

lemma set_gm_keys: "set (gm_keys m) = dom (gm_get m)"
proof (cases m)
  case None
  then show ?thesis by (simp add: gm_keys_def gm_get_def dom_def)
next
  case (Some al)
  then show ?thesis by (simp add: gm_keys_def gm_get_Some dom_map_of_conv_image_fst)
qed

lemma gm_ok_make [simp]: "gm_ok gm_make"
  by (simp add: gm_ok_def gm_keys_def gm_make_def)

lemma gm_ok_nil [simp]: "gm_ok None"
  by (simp add: gm_ok_def gm_keys_def)

lemma gm_ok_put: "gm_ok m \<Longrightarrow> gm_put m k v = Ret m' \<Longrightarrow> gm_ok m'"
  by (auto simp: gm_put_def gm_ok_def gm_keys_def split: option.splits
      intro: AList.distinct_update)

lemma gm_ok_delete: "gm_ok m \<Longrightarrow> gm_ok (gm_delete m k)"
  by (cases m) (auto simp: gm_delete_def gm_ok_def gm_keys_def intro: AList.distinct_delete)

section \<open>Strings\<close>

abbreviation nl :: string where "nl \<equiv> [CHR 0x0A]"
abbreviation cr :: string where "cr \<equiv> [CHR 0x0D]"
abbreviation backslash :: string where "backslash \<equiv> [CHR 0x5C]"

text \<open>\<open>strings.Split(s, c)\<close> for a separator of one byte.\<close>

fun split_str :: "char \<Rightarrow> string \<Rightarrow> string list" where
  "split_str c [] = [[]]"
| "split_str c (x # xs) =
     (if x = c then [] # split_str c xs
      else (case split_str c xs of [] \<Rightarrow> [[x]] | p # ps \<Rightarrow> (x # p) # ps))"

fun join_str :: "string \<Rightarrow> string list \<Rightarrow> string" where
  "join_str sep [] = []"
| "join_str sep [x] = x"
| "join_str sep (x # y # ys) = x @ sep @ join_str sep (y # ys)"

lemma split_str_not_Nil [simp]: "split_str c s \<noteq> []"
  by (induction s) (auto split: list.splits)

lemma split_str_free: "c \<notin> set s \<Longrightarrow> split_str c s = [s]"
  by (induction s) auto

lemma split_str_parts_free: "p \<in> set (split_str c s) \<Longrightarrow> c \<notin> set p"
  by (induction s arbitrary: p) (force split: list.splits if_splits)+

lemma split_str_Cons_sep: "c \<notin> set p \<Longrightarrow> split_str c (p @ c # s) = p # split_str c s"
  by (induction p) auto

lemma join_str_Cons: "xs \<noteq> [] \<Longrightarrow> join_str sep (x # xs) = x @ sep @ join_str sep xs"
  by (cases xs) auto

lemma join_split_str [go_str]: "join_str [c] (split_str c s) = s"
proof (induction s)
  case (Cons x xs)
  obtain p ps where "split_str c xs = p # ps" by (cases "split_str c xs") auto
  with Cons.IH show ?case by (cases ps) auto
qed simp

lemma split_join_str [go_str]:
  "xs \<noteq> [] \<Longrightarrow> (\<forall>x\<in>set xs. c \<notin> set x) \<Longrightarrow> split_str c (join_str [c] xs) = xs"
proof (induction xs)
  case (Cons x xs)
  then show ?case
    by (cases xs) (auto simp: split_str_free split_str_Cons_sep)
qed simp

lemma set_join_str: "set (join_str sep xs) \<subseteq> \<Union> (set ` set xs) \<union> set sep"
  by (induction sep xs rule: join_str.induct) auto

text \<open>
  \<open>cut sep s\<close> is the text before and after the first occurrence of \<open>sep\<close>, if there is
  one; \<open>strings.SplitN(s, sep, n)\<close> cuts at most \<open>n - 1\<close> times.
\<close>

fun cut :: "string \<Rightarrow> string \<Rightarrow> (string \<times> string) option" where
  "cut sep [] = (if sep = [] then Some ([], []) else None)"
| "cut sep (x # xs) =
     (if prefix sep (x # xs) then Some ([], drop (length sep) (x # xs))
      else (case cut sep xs of None \<Rightarrow> None | Some (a, b) \<Rightarrow> Some (x # a, b)))"

fun splitN_str :: "string \<Rightarrow> nat \<Rightarrow> string \<Rightarrow> string list" where
  "splitN_str sep 0 s = []"
| "splitN_str sep (Suc 0) s = [s]"
| "splitN_str sep (Suc (Suc n)) s =
     (case cut sep s of None \<Rightarrow> [s] | Some (a, b) \<Rightarrow> a # splitN_str sep (Suc n) b)"

lemma cut_append: "cut sep s = Some (a, b) \<Longrightarrow> s = a @ sep @ b"
proof (induction s arbitrary: a)
  case (Cons x xs)
  show ?case
  proof (cases "prefix sep (x # xs)")
    case True
    with Cons.prems have "a = []" "b = drop (length sep) (x # xs)" by auto
    with True show ?thesis by (auto elim!: prefixE simp del: drop.simps)
  next
    case False
    with Cons show ?thesis by (auto split: option.splits)
  qed
qed (auto split: if_splits)

lemma cut_first:
  assumes "sep = d # ds" and "d \<notin> set a"
  shows "cut sep (a @ sep @ b) = Some (a, b)"
  using assms(2) by (induction a) (auto simp: assms(1))

lemma cut_None_iff: "sep \<noteq> [] \<Longrightarrow> cut sep s = None \<longleftrightarrow> (\<forall>a b. s \<noteq> a @ sep @ b)"
proof (induction s)
  case (Cons x xs)
  show ?case
  proof (cases "prefix sep (x # xs)")
    case True
    then obtain b where "x # xs = sep @ b" by (auto elim!: prefixE)
    with True show ?thesis by (metis append_Nil cut.simps(2) option.distinct(1))
  next
    case False
    have "(\<exists>a b. x # xs = a @ sep @ b) \<longleftrightarrow> (\<exists>a b. xs = a @ sep @ b)"
    proof
      assume "\<exists>a b. x # xs = a @ sep @ b"
      then obtain a b where ab: "x # xs = a @ sep @ b" by blast
      with False have "a \<noteq> []" by (auto simp: prefix_def)
      with ab show "\<exists>a b. xs = a @ sep @ b" by (cases a) auto
    qed (metis append_Cons)
    with False Cons show ?thesis by (auto split: option.splits)
  qed
qed auto

definition contains_ch :: "char \<Rightarrow> string \<Rightarrow> bool" where
  "contains_ch c s \<longleftrightarrow> c \<in> set s"

definition replace_ch :: "char \<Rightarrow> string \<Rightarrow> string \<Rightarrow> string" where
  "replace_ch c new s = concat (map (\<lambda>x. if x = c then new else [x]) s)"

lemma replace_ch_free [go_str]: "c \<notin> set s \<Longrightarrow> replace_ch c new s = s"
  unfolding replace_ch_def by (induction s) auto

lemma replace_ch_removes [go_str]: "c \<notin> set new \<Longrightarrow> c \<notin> set (replace_ch c new s)"
  by (auto simp: replace_ch_def split: if_splits)

lemma replace_ch_one: "replace_ch c [d] s = map (\<lambda>x. if x = c then d else x) s"
  unfolding replace_ch_def by (induction s) auto

lemma set_replace_ch: "set (replace_ch c new s) \<subseteq> set s \<union> set new"
  by (auto simp: replace_ch_def split: if_splits)

definition lower_ch :: "char \<Rightarrow> char" where
  "lower_ch c = (let n = of_char c :: nat in if 65 \<le> n \<and> n \<le> 90 then char_of (n + 32) else c)"

definition to_lower :: "string \<Rightarrow> string" where
  "to_lower s = map lower_ch s"

lemma to_lower_eq_Nil [simp]: "to_lower s = [] \<longleftrightarrow> s = []"
  by (simp add: to_lower_def)

definition trim_left :: "char list \<Rightarrow> string \<Rightarrow> string" where
  "trim_left cs s = dropWhile (\<lambda>c. c \<in> set cs) s"

definition trim_str :: "char list \<Rightarrow> string \<Rightarrow> string" where
  "trim_str cs s = rev (trim_left cs (rev (trim_left cs s)))"

definition trim_space :: "string \<Rightarrow> string" where
  "trim_space s =
     trim_str [CHR 0x09, CHR 0x0A, CHR 0x0B, CHR 0x0C, CHR 0x0D, CHR 0x20] s"

definition trim_suffix :: "string \<Rightarrow> string \<Rightarrow> string" where
  "trim_suffix s suf = (if suffix suf s then take (length s - length suf) s else s)"

lemma trim_suffix_append [simp, go_str]: "trim_suffix (s @ suf) suf = s"
  by (simp add: trim_suffix_def suffix_def)

lemma trim_left_id: "s = [] \<or> hd s \<notin> set cs \<Longrightarrow> trim_left cs s = s"
  by (cases s) (auto simp: trim_left_def)

lemma trim_left_append: "set t \<subseteq> set cs \<Longrightarrow> trim_left cs (t @ s) = trim_left cs s"
  by (auto simp: trim_left_def intro!: dropWhile_append2)

lemma trim_str_id:
  "s = [] \<or> hd s \<notin> set cs \<and> last s \<notin> set cs \<Longrightarrow> trim_str cs s = s"
  by (auto simp: trim_str_def trim_left_id hd_rev)

lemma trim_str_append:
  assumes "s = [] \<or> hd s \<notin> set cs \<and> last s \<notin> set cs" and "set t \<subseteq> set cs"
  shows "trim_str cs (s @ t) = s"
proof (cases "s = []")
  case True
  then show ?thesis
    using trim_left_append [OF assms(2), of "[]"] by (simp add: trim_str_def trim_left_id)
next
  case False
  with assms(1) have "trim_left cs (s @ t) = s @ t"
    by (intro trim_left_id) (auto simp: hd_append)
  moreover have "trim_left cs (rev t @ rev s) = rev s"
    using False assms by (subst trim_left_append) (auto simp: trim_left_id hd_rev)
  ultimately show ?thesis by (simp add: trim_str_def)
qed

section \<open>Numbers\<close>

definition digit_ch :: "nat \<Rightarrow> char" where
  "digit_ch d = ''0123456789'' ! d"

definition digit_val :: "char \<Rightarrow> nat option" where
  "digit_val c =
     (let n = of_char c :: nat in if 48 \<le> n \<and> n \<le> 57 then Some (n - 48) else None)"

fun nat_str :: "nat \<Rightarrow> string" where
  "nat_str n =
     (if n < 10 then [digit_ch n] else nat_str (n div 10) @ [digit_ch (n mod 10)])"

declare nat_str.simps [simp del]

definition int_str :: "int \<Rightarrow> string" where
  "int_str i = (if i < 0 then CHR ''-'' # nat_str (nat (- i)) else nat_str (nat i))"

definition uint_str :: "uint \<Rightarrow> string" where
  "uint_str w = nat_str (unat w)"

lemma less_10_cases:
  "(d::nat) < 10 \<Longrightarrow> d = 0 \<or> d = 1 \<or> d = 2 \<or> d = 3 \<or> d = 4 \<or> d = 5 \<or> d = 6 \<or> d = 7 \<or> d = 8 \<or> d = 9"
  by arith

lemma digit_val_ch [simp]: "d < 10 \<Longrightarrow> digit_val (digit_ch d) = Some d"
  by (drule less_10_cases) (auto simp: digit_val_def digit_ch_def)

lemma digit_ch_in: "d < 10 \<Longrightarrow> digit_ch d \<in> set ''0123456789''"
  by (drule less_10_cases) (auto simp: digit_ch_def)

lemma nat_str_eval [go_eval]:
  "nat_str (numeral k) =
     (if (numeral k :: nat) < 10 then [digit_ch (numeral k)]
      else nat_str (numeral k div 10) @ [digit_ch (numeral k mod 10)])"
  "nat_str 0 = ''0''" "nat_str 1 = ''1''" "nat_str (Suc 0) = ''1''"
  by (subst nat_str.simps; simp add: digit_ch_def)+

lemmas digit_eval [go_eval] = digit_ch_def uint_str_def int_str_def

lemma nat_str_not_Nil [simp]: "nat_str n \<noteq> []"
  by (subst nat_str.simps) simp

lemma set_nat_str_in:
  assumes "\<And>d. d < 10 \<Longrightarrow> digit_ch d \<in> D"
  shows "set (nat_str n) \<subseteq> D"
proof (induction n rule: nat_str.induct)
  case (1 n)
  then show ?case using assms [of n] assms [of "n mod 10"] by (subst nat_str.simps) auto
qed

lemma set_nat_str: "set (nat_str n) \<subseteq> set ''0123456789''"
  by (rule set_nat_str_in) (rule digit_ch_in)

lemma nat_str_free: "c \<notin> set ''0123456789'' \<Longrightarrow> c \<notin> set (nat_str n)"
  using set_nat_str by blast

text \<open>\<open>strconv.Atoi\<close>: the value is returned beside the error (clamped on overflow).\<close>

datatype atoi_error = ErrSyntax | ErrRange

fun parse_digits :: "nat \<Rightarrow> string \<Rightarrow> atoi_error + nat" where
  "parse_digits a [] = Inr a"
| "parse_digits a (c # cs) =
     (case digit_val c of
        None \<Rightarrow> Inl ErrSyntax
      | Some d \<Rightarrow> if 2 ^ 64 \<le> a * 10 + d then Inl ErrRange else parse_digits (a * 10 + d) cs)"

definition sign_of :: "string \<Rightarrow> bool \<times> string" where
  "sign_of s =
     (case s of
        [] \<Rightarrow> (False, [])
      | c # r \<Rightarrow> if c = CHR ''-'' then (True, r) else if c = CHR ''+'' then (False, r)
               else (False, s))"

definition atoi :: "string \<Rightarrow> int \<times> atoi_error option" where
  "atoi s =
     (let (neg, ds) = sign_of s in
      if ds = [] then (0, Some ErrSyntax)
      else case parse_digits 0 ds of
        Inl ErrSyntax \<Rightarrow> (0, Some ErrSyntax)
      | Inl ErrRange \<Rightarrow> (if neg then - (2 ^ 63) else 2 ^ 63 - 1, Some ErrRange)
      | Inr n \<Rightarrow>
          if \<not> neg \<and> 2 ^ 63 \<le> n then (2 ^ 63 - 1, Some ErrRange)
          else if neg \<and> 2 ^ 63 < n then (- (2 ^ 63), Some ErrRange)
          else (if neg then - int n else int n, None))"

definition in_int64 :: "int \<Rightarrow> bool" where
  "in_int64 i \<longleftrightarrow> - (2 ^ 63) \<le> i \<and> i < 2 ^ 63"

definition wrap64 :: "int \<Rightarrow> int" where
  "wrap64 i = sint (word_of_int i :: 64 word)"

lemma parse_digits_append:
  "parse_digits a (s @ t) =
     (case parse_digits a s of Inl e \<Rightarrow> Inl e | Inr n \<Rightarrow> parse_digits n t)"
  by (induction s arbitrary: a) (auto split: option.splits sum.splits)

lemma parse_digits_nat_str: "n < 2 ^ 64 \<Longrightarrow> parse_digits 0 (nat_str n) = Inr n"
proof (induction n rule: nat_str.induct)
  case (1 n)
  show ?case
  proof (cases "n < 10")
    case True
    then show ?thesis by (subst nat_str.simps) simp
  next
    case False
    with 1 have "parse_digits 0 (nat_str (n div 10)) = Inr (n div 10)" by simp
    then have "parse_digits 0 (nat_str (n div 10) @ [digit_ch (n mod 10)]) = Inr n"
      using 1(2) by (simp add: parse_digits_append)
    with False show ?thesis by (subst nat_str.simps) simp
  qed
qed

lemma digit_ch_inj: "digit_ch d = digit_ch e \<Longrightarrow> d < 10 \<Longrightarrow> e < 10 \<Longrightarrow> d = e"
  by (metis digit_val_ch option.inject)

lemma nat_str_snoc:
  "nat_str k = (if k < 10 then [] else nat_str (k div 10)) @ [digit_ch (k mod 10)]"
  by (subst nat_str.simps) simp

lemma nat_str_injD: "nat_str m = nat_str n \<Longrightarrow> m = n"
proof (induction m arbitrary: n rule: nat_str.induct)
  case (1 m)
  let ?p = "\<lambda>k. if k < 10 then [] else nat_str (k div 10)"
  have "?p m @ [digit_ch (m mod 10)] = ?p n @ [digit_ch (n mod 10)]"
    using "1.prems" by (simp only: nat_str_snoc [of m, symmetric] nat_str_snoc [of n, symmetric])
  then have eq: "?p m = ?p n" and "digit_ch (m mod 10) = digit_ch (n mod 10)"
    by (simp_all only: append1_eq_conv)
  then have mod: "m mod 10 = n mod 10" by (intro digit_ch_inj) auto
  show ?case
  proof (cases "m < 10")
    case True
    with eq have "n < 10" by (metis nat_str_not_Nil)
    with True mod show ?thesis by simp
  next
    case False
    with eq have n: "\<not> n < 10" by (metis nat_str_not_Nil)
    with False eq have "m div 10 = n div 10" by (intro "1.IH") auto
    with mod show ?thesis by (metis div_mult_mod_eq)
  qed
qed

lemma nat_str_inj: "nat_str m = nat_str n \<longleftrightarrow> m = n"
  using nat_str_injD by blast

lemma uint_str_inj: "uint_str a = uint_str b \<longleftrightarrow> a = b"
  by (simp add: uint_str_def nat_str_inj word_unat_eq_iff)

lemma sign_of_nat_str: "sign_of (nat_str n) = (False, nat_str n)"
proof -
  obtain c r where cr: "nat_str n = c # r" by (cases "nat_str n") auto
  then have "c \<in> set ''0123456789''" using set_nat_str [of n] by auto
  then show ?thesis by (auto simp: sign_of_def cr)
qed

lemma atoi_int_str: "in_int64 i \<Longrightarrow> atoi (int_str i) = (i, None)"
  by (auto simp: in_int64_def atoi_def int_str_def sign_of_nat_str parse_digits_nat_str
      sign_of_def [of "_ # _"] nat_less_iff)

lemma atoi_in_int64: "in_int64 (fst (atoi s))"
  by (auto simp: in_int64_def atoi_def Let_def split: prod.splits sum.splits atoi_error.splits)

lemma wrap64_id: "in_int64 i \<Longrightarrow> wrap64 i = i"
  by (simp add: in_int64_def wrap64_def int_word_sint)

section \<open>Paths\<close>

text \<open>
  \<open>filepath.Clean\<close> resolves empty, dot and dot-dot components lexically; the stack holds
  the components kept so far, last first.
\<close>

fun clean_parts :: "bool \<Rightarrow> string list \<Rightarrow> string list \<Rightarrow> string list" where
  "clean_parts rooted st [] = rev st"
| "clean_parts rooted st (p # ps) =
     (if p = '''' \<or> p = ''.'' then clean_parts rooted st ps
      else if p = ''..'' then
        (case st of
           [] \<Rightarrow> clean_parts rooted (if rooted then [] else [''..'']) ps
         | t # ts \<Rightarrow> clean_parts rooted (if t = ''..'' then ''..'' # st else ts) ps)
      else clean_parts rooted (p # st) ps)"

definition path_rooted :: "string \<Rightarrow> bool" where
  "path_rooted s \<longleftrightarrow> (case s of [] \<Rightarrow> False | c # _ \<Rightarrow> c = CHR ''/'')"

definition path_clean :: "string \<Rightarrow> string" where
  "path_clean s =
     (let r = join_str ''/'' (clean_parts (path_rooted s) [] (split_str CHR ''/'' s)) in
      if path_rooted s then CHR ''/'' # r else if r = [] then ''.'' else r)"

definition path_join :: "string \<Rightarrow> string \<Rightarrow> string" where
  "path_join a b =
     (if a = [] then (if b = [] then [] else path_clean b) else path_clean (a @ ''/'' @ b))"

text \<open>A file name: one path component that \<open>Clean\<close> keeps.\<close>

definition simple_name :: "string \<Rightarrow> bool" where
  "simple_name n \<longleftrightarrow> CHR ''/'' \<notin> set n \<and> n \<notin> {'''', ''.'', ''..''}"

lemma clean_parts_append:
  "clean_parts rooted st (xs @ ys) = clean_parts rooted (rev (clean_parts rooted st xs)) ys"
  by (induction rooted st xs rule: clean_parts.induct) (auto split: list.splits)

lemma clean_parts_sub: "set (clean_parts rooted st ps) \<subseteq> set st \<union> set ps"
  by (induction rooted st ps rule: clean_parts.induct) (auto split: list.splits if_splits)

lemma split_str_append_sep:
  "split_str c (a @ c # b) = split_str c a @ split_str c b"
  by (induction a) (auto split: list.splits)

text \<open>Joining a directory and a file name is injective in the name.\<close>

lemma path_join_last:
  assumes "simple_name n" and "d \<noteq> []"
  shows "last (split_str CHR ''/'' (path_join d n)) = n"
proof -
  let ?s = "d @ ''/'' @ n" and ?r = "path_rooted (d @ ''/'' @ n)"
  let ?C = "clean_parts ?r [] (split_str CHR ''/'' d)"
  have parts: "clean_parts ?r [] (split_str CHR ''/'' ?s) = ?C @ [n]"
    using assms by (auto simp: split_str_append_sep split_str_free clean_parts_append simple_name_def)
  have free: "\<forall>x\<in>set (?C @ [n]). CHR ''/'' \<notin> set x"
    using assms clean_parts_sub [of ?r "[]" "split_str CHR ''/'' d"]
    by (auto simp: simple_name_def dest: split_str_parts_free)
  let ?j = "join_str ''/'' (?C @ [n])"
  have sp: "split_str CHR ''/'' ?j = ?C @ [n]"
    by (rule split_join_str [OF _ free]) simp
  have "?j \<noteq> []"
  proof
    assume "?j = []"
    with sp have "?C @ [n] = [[]]" by (simp only: split_str.simps)
    then have "last (?C @ [n]) = last [[]]" by (rule arg_cong)
    then show False using assms(1) by (simp add: simple_name_def)
  qed
  with sp parts show ?thesis using assms(2)
    by (auto simp: path_join_def path_clean_def Let_def)
qed

lemma path_join_inj:
  assumes "simple_name n" and "simple_name m" and "d \<noteq> []"
    and eq: "path_join d n = path_join d m"
  shows "n = m"
proof -
  have "last (split_str CHR ''/'' (path_join d n)) = last (split_str CHR ''/'' (path_join d m))"
    by (simp only: eq)
  then show ?thesis by (simp only: path_join_last [OF assms(1,3)] path_join_last [OF assms(2,3)])
qed

end
