(* ===== verification/Marathon.thy ===== *)
theory Marathon
  imports Go_Base
begin

text \<open>
  The part of Marathon's data model that the program reads, and the functions it calls from
  code that is not under src/. The package \<open>go-mesos/marathon\<close> is a dependency: the records
  hold exactly the fields the program uses, under the names it uses, and the methods
  \<open>Task.IsAlive\<close> and \<open>App.GetTaskById\<close> are parameters, fields of \<open>host_env\<close>. So are the
  name resolver of package net and the sorting algorithm behind \<open>sort.Sort\<close>, whose result
  is not determined by its documentation when the order passed to it is no ordering.

  The predicates \<open>getTask_ok\<close> and \<open>sort_ok\<close> state the documented behaviour of two of these
  parameters; \<open>example_env\<close> is an instance that satisfies both.
\<close>

section \<open>Applications and tasks\<close>

type_synonym labels = "(string \<times> string) list"

text \<open>Reading a missing key of a \<open>map[string]string\<close> gives the empty string.\<close>

definition label :: "labels \<Rightarrow> string \<Rightarrow> string" where
  "label m k = (case map_of m k of None \<Rightarrow> [] | Some v \<Rightarrow> v)"

datatype task_status = TaskRunning | TaskFinished | TaskFailed | TaskKilling | TaskKilled
  | TaskLost | TaskOther string

record health_check_result =
  hcr_lastFailure :: "string option"

record marathon_task =
  t_id :: string
  t_appId :: string
  t_host :: string
  t_ports :: "uint list"
  t_slaveId :: string
  t_state :: "task_status option"
  t_healthResults :: "health_check_result list"

record health_check =
  hc_path :: string
  hc_protocol :: string
  hc_portIndex :: int
  hc_interval :: int

record port_definition =
  pd_port :: uint
  pd_protocol :: string
  pd_labels :: labels

record port_mapping =
  pm_protocol :: string

record marathon_app =
  a_id :: string
  a_ports :: "uint list"
  a_portDefs :: "port_definition list"
  a_labels :: labels
  a_tasks :: "marathon_task list"
  a_healthChecks :: "health_check list"
  a_docker :: "port_mapping list option"

lemma label_Nil [simp]: "label [] k = []"
  by (simp add: label_def)

lemma label_Cons [simp]: "label ((k', v) # m) k = (if k = k' then v else label m k)"
  by (simp add: label_def)

section \<open>Code outside the repository\<close>

record ip_addr =
  ip_text :: string
  ip_bytes :: "8 word list"

record host_env =
  env_resolveIP :: "string \<Rightarrow> ip_addr option"
  env_isAlive :: "marathon_task \<Rightarrow> bool"
  env_getTask :: "marathon_app \<Rightarrow> string \<Rightarrow> marathon_task option"
  env_sortTasks :: "(marathon_task \<Rightarrow> marathon_task \<Rightarrow> bool) \<Rightarrow> marathon_task list
    \<Rightarrow> marathon_task list"

definition getTask_ok :: "host_env \<Rightarrow> bool" where
  "getTask_ok env \<longleftrightarrow>
     (\<forall>app tid. case env_getTask env app tid of
        None \<Rightarrow> \<forall>t\<in>set (a_tasks app). t_id t \<noteq> tid
      | Some t \<Rightarrow> t \<in> set (a_tasks app) \<and> t_id t = tid)"

text \<open>
  \<open>sort.Sort\<close> permutes, and orders when the given relation is a strict weak order on the
  elements: irreflexive, transitive, with a transitive incomparability.
\<close>

definition strict_weak :: "('a \<Rightarrow> 'a \<Rightarrow> bool) \<Rightarrow> 'a set \<Rightarrow> bool" where
  "strict_weak lt A \<longleftrightarrow>
     (\<forall>x\<in>A. \<not> lt x x) \<and>
     (\<forall>x\<in>A. \<forall>y\<in>A. \<forall>z\<in>A. lt x y \<longrightarrow> lt y z \<longrightarrow> lt x z) \<and>
     (\<forall>x\<in>A. \<forall>y\<in>A. \<forall>z\<in>A. \<not> lt y x \<longrightarrow> \<not> lt z y \<longrightarrow> \<not> lt z x)"

definition sort_ok :: "(('a \<Rightarrow> 'a \<Rightarrow> bool) \<Rightarrow> 'a list \<Rightarrow> 'a list) \<Rightarrow> bool" where
  "sort_ok srt \<longleftrightarrow>
     (\<forall>lt xs. mset (srt lt xs) = mset xs \<and>
        (strict_weak lt (set xs) \<longrightarrow> sorted_wrt (\<lambda>x y. \<not> lt y x) (srt lt xs)))"

lemma strict_weak_asym:
  "strict_weak lt A \<Longrightarrow> x \<in> A \<Longrightarrow> y \<in> A \<Longrightarrow> lt x y \<Longrightarrow> \<not> lt y x"
  unfolding strict_weak_def by blast

lemma strict_weak_neg_trans:
  "strict_weak lt A \<Longrightarrow> x \<in> A \<Longrightarrow> y \<in> A \<Longrightarrow> z \<in> A \<Longrightarrow> \<not> lt x y \<Longrightarrow> \<not> lt y z \<Longrightarrow> \<not> lt x z"
  unfolding strict_weak_def by blast

lemma sort_ok_mset: "sort_ok srt \<Longrightarrow> mset (srt lt xs) = mset xs"
  by (simp add: sort_ok_def)

lemma sort_ok_set: "sort_ok srt \<Longrightarrow> set (srt lt xs) = set xs"
  by (metis sort_ok_mset set_mset_mset)

lemma sort_ok_length: "sort_ok srt \<Longrightarrow> length (srt lt xs) = length xs"
  by (metis sort_ok_mset size_mset)

lemma sort_ok_Nil: "sort_ok srt \<Longrightarrow> srt lt [] = []"
  by (metis sort_ok_mset mset_zero_iff)

lemma sort_ok_sorted:
  "sort_ok srt \<Longrightarrow> strict_weak lt (set xs) \<Longrightarrow> sorted_wrt (\<lambda>x y. \<not> lt y x) (srt lt xs)"
  by (simp add: sort_ok_def)

lemma getTask_ok_Some:
  "getTask_ok env \<Longrightarrow> env_getTask env app tid = Some t \<Longrightarrow> t \<in> set (a_tasks app) \<and> t_id t = tid"
  by (auto simp: getTask_ok_def split: option.splits)

lemma getTask_ok_None:
  assumes "getTask_ok env" and "env_getTask env app tid = None" and "t \<in> set (a_tasks app)"
  shows "t_id t \<noteq> tid"
  using assms(1) [unfolded getTask_ok_def, THEN spec, THEN spec, of app tid] assms(2,3) by simp

section \<open>An instance of the parameters\<close>

text \<open>
  Insertion from the right, moving an element left as long as it is less than its left
  neighbour, as \<open>sort.Sort\<close> does on short slices. The prefix sorted so far is kept reversed.
\<close>

fun sift_left :: "('a \<Rightarrow> 'a \<Rightarrow> bool) \<Rightarrow> 'a \<Rightarrow> 'a list \<Rightarrow> 'a list" where
  "sift_left lt x [] = [x]"
| "sift_left lt x (y # ys) = (if lt x y then y # sift_left lt x ys else x # y # ys)"

definition insertion_sort :: "('a \<Rightarrow> 'a \<Rightarrow> bool) \<Rightarrow> 'a list \<Rightarrow> 'a list" where
  "insertion_sort lt xs = rev (foldl (\<lambda>acc x. sift_left lt x acc) [] xs)"

lemma mset_sift_left [simp]: "mset (sift_left lt x ys) = add_mset x (mset ys)"
  by (induction ys) auto

lemma set_sift_left [simp]: "set (sift_left lt x ys) = insert x (set ys)"
  by (induction ys) auto

lemma mset_sift_fold:
  "mset (foldl (\<lambda>acc x. sift_left lt x acc) acc xs) = mset acc + mset xs"
  by (induction xs arbitrary: acc) auto

lemma sorted_sift_left:
  assumes "strict_weak lt A" and "x \<in> A" and "set ys \<subseteq> A"
    and "sorted_wrt (\<lambda>a b. \<not> lt a b) ys"
  shows "sorted_wrt (\<lambda>a b. \<not> lt a b) (sift_left lt x ys)"
  using assms(3,4)
proof (induction ys)
  case (Cons y ys)
  show ?case
  proof (cases "lt x y")
    case True
    have "\<not> lt y x"
      using strict_weak_asym [OF assms(1,2) _ True] Cons.prems(1) by simp
    with True Cons show ?thesis by auto
  next
    case False
    have "\<not> lt x z" if "z \<in> set ys" for z
      using strict_weak_neg_trans [OF assms(1,2) _ _ False, of z] Cons.prems that by auto
    with False Cons show ?thesis by auto
  qed
qed simp

lemma sorted_sift_fold:
  assumes "strict_weak lt A" and "set acc \<subseteq> A" and "set xs \<subseteq> A"
    and "sorted_wrt (\<lambda>a b. \<not> lt a b) acc"
  shows "sorted_wrt (\<lambda>a b. \<not> lt a b) (foldl (\<lambda>acc x. sift_left lt x acc) acc xs)"
  using assms(2-4)
proof (induction xs arbitrary: acc)
  case (Cons x xs)
  then show ?case using sorted_sift_left [OF assms(1), of x acc] by auto
qed simp

lemma insertion_sort_ok: "sort_ok insertion_sort"
  unfolding sort_ok_def insertion_sort_def
  using sorted_sift_fold [OF _ _ subset_refl, of _ _ "[]"]
  by (auto simp: mset_sift_fold sorted_wrt_rev)

definition example_env :: host_env where
  "example_env =
     \<lparr>env_resolveIP = (\<lambda>h. if h = ''localhost'' then Some \<lparr>ip_text = ''127.0.0.1'', ip_bytes = [127, 0, 0, 1]\<rparr>
                        else if h = ''slave1'' then Some \<lparr>ip_text = ''10.0.0.1'', ip_bytes = [10, 0, 0, 1]\<rparr>
                        else if h = ''slave2'' then Some \<lparr>ip_text = ''10.0.0.2'', ip_bytes = [10, 0, 0, 2]\<rparr>
                        else None),
      env_isAlive = (\<lambda>t. list_all (\<lambda>r. hcr_lastFailure r = None) (t_healthResults t)),
      env_getTask = (\<lambda>app tid. find (\<lambda>t. t_id t = tid) (a_tasks app)),
      env_sortTasks = insertion_sort\<rparr>"

lemma example_env_getTask_ok: "getTask_ok example_env"
  by (auto simp: getTask_ok_def example_env_def find_None_iff find_Some_iff split: option.splits)

lemma example_env_sort_ok: "sort_ok (env_sortTasks example_env)"
  by (simp add: example_env_def insertion_sort_ok)


section \<open>The client\<close>

text \<open>
  \<open>marathon.NewService\<close> makes a client for an address and port. What the server answers may change
  from one request to the next, so the requests of a client are numbered. \<open>GetApp\<close> of an unknown
  application returns a nil pointer without an error, a case the source handles.
\<close>

record marathon_service =
  mc_getApps :: "nat \<Rightarrow> go_error + marathon_app list"
  mc_getApp :: "nat \<Rightarrow> string \<Rightarrow> go_error + marathon_app option"

type_synonym marathon_client = "string \<Rightarrow> uint \<Rightarrow> go_error + marathon_service"

end
