(* ===== verification/File_System.thy ===== *)
theory File_System
  imports Go_Base
begin

text \<open>
  The files the program reads and writes: the paths that name a regular file with their
  contents, the directories that exist and the paths at which the operating system refuses
  to create a file (no permission, no space, no such directory). The operations are those of
  packages os and io/ioutil that the source calls: \<open>Stat\<close>, \<open>ReadFile\<close>, \<open>WriteFile\<close>,
  \<open>Rename\<close>, \<open>Remove\<close>, \<open>MkdirAll\<close> and \<open>ReadDir\<close>; a \<open>False\<close> is an error of the call.

  The locale \<open>file_store\<close> is the contract the config writers rely on; its lemma
  \<open>replace_atomic\<close> is the pattern they use, a write to a temporary file that is then renamed.
\<close>

record file_system =
  fs_files :: "(string \<times> string) list"
  fs_dirs :: "string list"
  fs_deny :: "string list"

definition fs_read :: "file_system \<Rightarrow> string \<Rightarrow> string option" where
  "fs_read fs p = map_of (fs_files fs) p"

definition fs_exists :: "file_system \<Rightarrow> string \<Rightarrow> bool" where
  "fs_exists fs p \<longleftrightarrow> fs_read fs p \<noteq> None"

definition fs_write :: "file_system \<Rightarrow> string \<Rightarrow> string \<Rightarrow> bool \<times> file_system" where
  "fs_write fs p c =
     (if p \<in> set (fs_deny fs) then (False, fs)
      else (True, fs\<lparr>fs_files := AList.update p c (fs_files fs)\<rparr>))"

definition fs_rename :: "file_system \<Rightarrow> string \<Rightarrow> string \<Rightarrow> bool \<times> file_system" where
  "fs_rename fs a b =
     (case fs_read fs a of
        None \<Rightarrow> (False, fs)
      | Some c \<Rightarrow>
          if b \<in> set (fs_deny fs) then (False, fs)
          else (True, fs\<lparr>fs_files := AList.update b c (AList.delete a (fs_files fs))\<rparr>))"

definition fs_remove :: "file_system \<Rightarrow> string \<Rightarrow> bool \<times> file_system" where
  "fs_remove fs p =
     (if fs_exists fs p then (True, fs\<lparr>fs_files := AList.delete p (fs_files fs)\<rparr>)
      else (False, fs))"

definition fs_mkdir :: "file_system \<Rightarrow> string \<Rightarrow> bool \<times> file_system" where
  "fs_mkdir fs d =
     (if d \<in> set (fs_deny fs) then (False, fs) else (True, fs\<lparr>fs_dirs := d # fs_dirs fs\<rparr>))"

text \<open>
  \<open>ReadDir\<close> lists the names of the entries of a directory, sorted; the model has no nested
  directories, so the entries of \<open>d\<close> are the files whose path is \<open>d\<close> joined with a name.
\<close>

definition base_name :: "string \<Rightarrow> string" where
  "base_name p = last (split_str CHR ''/'' p)"

definition in_dir :: "string \<Rightarrow> string \<Rightarrow> bool" where
  "in_dir d p \<longleftrightarrow> simple_name (base_name p) \<and> path_join d (base_name p) = p"

definition fs_readdir :: "file_system \<Rightarrow> string \<Rightarrow> string list option" where
  "fs_readdir fs d =
     (if d \<in> set (fs_dirs fs)
      then Some (sort (map base_name (filter (in_dir d) (map fst (fs_files fs)))))
      else None)"

definition fs_ok :: "file_system \<Rightarrow> bool" where
  "fs_ok fs \<longleftrightarrow> distinct (map fst (fs_files fs))"

section \<open>The contract\<close>

locale file_store =
  fixes rd :: "'s \<Rightarrow> string \<Rightarrow> string option"
    and wr :: "'s \<Rightarrow> string \<Rightarrow> string \<Rightarrow> bool \<times> 's"
    and mv :: "'s \<Rightarrow> string \<Rightarrow> string \<Rightarrow> bool \<times> 's"
    and rm :: "'s \<Rightarrow> string \<Rightarrow> bool \<times> 's"
    and refused :: "'s \<Rightarrow> string \<Rightarrow> bool"
  assumes wr_ok: "\<not> refused s p \<Longrightarrow> wr s p c = (b, s') \<Longrightarrow> b \<and> rd s' = (rd s)(p \<mapsto> c)"
    and wr_fail: "refused s p \<Longrightarrow> wr s p c = (False, s)"
    and mv_ok: "rd s a = Some c \<Longrightarrow> \<not> refused s d \<Longrightarrow> mv s a d = (b, s') \<Longrightarrow>
      b \<and> rd s' = (rd s)(a := None, d \<mapsto> c)"
    and mv_fail: "rd s a = None \<or> refused s d \<Longrightarrow> mv s a d = (False, s)"
    and rm_read: "rm s p = (b, s') \<Longrightarrow> rd s' = (rd s)(p := None)"
    and wr_refused: "wr s p c = (b, s') \<Longrightarrow> refused s' = refused s"
    and mv_refused: "mv s a d = (b, s') \<Longrightarrow> refused s' = refused s"
    and rm_refused: "rm s p = (b, s') \<Longrightarrow> refused s' = refused s"
begin

text \<open>Writing a temporary file and renaming it replaces one file and nothing else.\<close>

lemma replace_atomic:
  assumes "\<not> refused s tmp" and "\<not> refused s p" and "tmp \<noteq> p"
    and w: "wr s tmp c = (b1, s1)" and m: "mv s1 tmp p = (b2, s2)"
  shows "b1 \<and> b2 \<and> rd s2 = (rd s)(tmp := None, p \<mapsto> c)"
proof -
  from wr_ok [OF assms(1) w] have b1: "b1" and r1: "rd s1 = (rd s)(tmp \<mapsto> c)" by auto
  have "\<not> refused s1 p" using wr_refused [OF w] assms(2) by simp
  moreover have "rd s1 tmp = Some c" by (simp add: r1)
  ultimately have "b2 \<and> rd s2 = (rd s1)(tmp := None, p \<mapsto> c)" using mv_ok m by blast
  with b1 r1 show ?thesis by (auto simp: fun_upd_twist)
qed

lemma write_discard:
  assumes "\<not> refused s tmp" and w: "wr s tmp c = (b1, s1)" and r: "rm s1 tmp = (b2, s2)"
  shows "rd s2 = (rd s)(tmp := None)"
  using wr_ok [OF assms(1) w] rm_read [OF r] by auto

end

lemma fs_read_simps [simp]: "fs_read (fs\<lparr>fs_files := al\<rparr>) = map_of al"
  by (simp add: fs_read_def fun_eq_iff)

lemma fs_read_dirs [simp]: "fs_read (fs\<lparr>fs_dirs := ds\<rparr>) = fs_read fs"
  by (simp add: fs_read_def fun_eq_iff)

lemma fs_read_map_of: "fs_read fs = map_of (fs_files fs)"
  by (simp add: fs_read_def fun_eq_iff)

interpretation fs: file_store fs_read fs_write fs_rename fs_remove "\<lambda>s p. p \<in> set (fs_deny s)"
  by unfold_locales
    (auto simp: fs_write_def fs_rename_def fs_remove_def fs_exists_def update_conv' delete_conv'
      fs_read_map_of fun_eq_iff split: option.splits if_splits)

text \<open>What every operation leaves alone.\<close>

lemma fs_write_dirs: "fs_write s p c = (b, s') \<Longrightarrow> fs_dirs s' = fs_dirs s"
  by (auto simp: fs_write_def split: if_splits)

lemma fs_rename_dirs: "fs_rename s a d = (b, s') \<Longrightarrow> fs_dirs s' = fs_dirs s"
  by (auto simp: fs_rename_def split: if_splits option.splits)

lemma fs_remove_dirs: "fs_remove s p = (b, s') \<Longrightarrow> fs_dirs s' = fs_dirs s"
  by (auto simp: fs_remove_def split: if_splits)

lemma fs_write_deny: "fs_write s p c = (b, s') \<Longrightarrow> fs_deny s' = fs_deny s"
  by (auto simp: fs_write_def split: if_splits)

lemma fs_rename_deny: "fs_rename s a d = (b, s') \<Longrightarrow> fs_deny s' = fs_deny s"
  by (auto simp: fs_rename_def split: if_splits option.splits)

lemma fs_remove_deny: "fs_remove s p = (b, s') \<Longrightarrow> fs_deny s' = fs_deny s"
  by (auto simp: fs_remove_def split: if_splits)

lemma fs_ok_write: "fs_ok s \<Longrightarrow> fs_write s p c = (b, s') \<Longrightarrow> fs_ok s'"
  by (auto simp: fs_ok_def fs_write_def distinct_update split: if_splits)

lemma fs_ok_rename: "fs_ok s \<Longrightarrow> fs_rename s a d = (b, s') \<Longrightarrow> fs_ok s'"
  by (auto simp: fs_ok_def fs_rename_def distinct_update distinct_delete
      split: if_splits option.splits)

lemma fs_ok_remove: "fs_ok s \<Longrightarrow> fs_remove s p = (b, s') \<Longrightarrow> fs_ok s'"
  by (auto simp: fs_ok_def fs_remove_def distinct_delete split: if_splits)

lemma base_name_join: "simple_name n \<Longrightarrow> d \<noteq> [] \<Longrightarrow> base_name (path_join d n) = n"
  by (simp add: base_name_def path_join_last)

lemma in_dir_join: "simple_name n \<Longrightarrow> d \<noteq> [] \<Longrightarrow> in_dir d (path_join d n)"
  by (simp add: in_dir_def base_name_join)

lemma fs_readdir_paths:
  "fs_readdir fs d = Some ns \<Longrightarrow> path_join d ` set ns = {p. in_dir d p \<and> fs_read fs p \<noteq> None}"
  by (force simp: fs_readdir_def in_dir_def fs_read_def map_of_eq_None_iff image_iff split: if_splits)

end
