(* ===== verification/Helper.thy ===== *)
theory Helper
  imports Marathon File_System
begin

text \<open>
  The helper functions of src/helper.go: names of services (\<open>PrettifyAppId\<close>), protocols of an
  application's ports, comparison of two files in chunks, list helpers, the FNV-1a hash, label
  lists, port ranges and the search for an executable. Port indexes are positions in a slice
  (\<open>nat\<close>), ports are \<open>uint\<close>.
\<close>

section \<open>Names\<close>

definition PrettifyAppId :: "string \<Rightarrow> nat \<Rightarrow> uint \<Rightarrow> string go" where
  "PrettifyAppId name portIndex servicePort =
     (if name = [] then Panic SliceBounds
      else Ret (replace_ch CHR ''/'' ''.'' (tl name) @ ''-'' @ nat_str portIndex @ ''-'' @
                uint_str servicePort))"

definition PrettifyDnsName :: "string \<Rightarrow> string go" where
  "PrettifyDnsName dns = go_nth (splitN_str ''.'' 1 dns) 0"

definition SoftResolveIPAddr :: "host_env \<Rightarrow> string \<Rightarrow> string" where
  "SoftResolveIPAddr env dns =
     (case env_resolveIP env dns of Some ip \<Rightarrow> ip_text ip | None \<Rightarrow> dns)"

definition resolveIPAddr :: "host_env \<Rightarrow> string \<Rightarrow> bool \<Rightarrow> string" where
  "resolveIPAddr env dns skip = (if skip then dns else SoftResolveIPAddr env dns)"

text \<open>The last separator of a text splits it in one way only.\<close>

lemma last_sep_eq:
  assumes "a @ c # p = b @ c # q" and "c \<notin> set p" and "c \<notin> set q"
  shows "a = b \<and> p = q"
proof -
  have "rev p @ c # rev a = rev q @ c # rev b"
    using arg_cong [OF assms(1), of rev] by simp
  then have "takeWhile (\<lambda>x. x \<noteq> c) (rev p @ c # rev a) = takeWhile (\<lambda>x. x \<noteq> c) (rev q @ c # rev b)"
    by simp
  moreover have "takeWhile (\<lambda>x. x \<noteq> c) (rev p @ c # r) = rev p" for r
    using assms(2) by (subst takeWhile_append2) auto
  moreover have "takeWhile (\<lambda>x. x \<noteq> c) (rev q @ c # r) = rev q" for r
    using assms(3) by (subst takeWhile_append2) auto
  ultimately have "p = q" by simp
  with assms(1) show ?thesis by simp
qed

lemma PrettifyAppId_eq_Ret [go_run]:
  "PrettifyAppId name i p = Ret s \<longleftrightarrow>
     name \<noteq> [] \<and>
     s = replace_ch CHR ''/'' ''.'' (tl name) @ ''-'' @ nat_str i @ ''-'' @ uint_str p"
  by (auto simp: PrettifyAppId_def)

lemma PrettifyAppId_no_slash:
  "PrettifyAppId name i p = Ret s \<Longrightarrow> CHR ''/'' \<notin> set s"
  by (auto simp: PrettifyAppId_def uint_str_def nat_str_free replace_ch_removes split: if_splits)

lemma replace_ch_inj:
  assumes "d \<notin> set s" and "d \<notin> set t" and "replace_ch c [d] s = replace_ch c [d] t"
  shows "s = t"
proof -
  have "map (\<lambda>x. if x = c then d else x) s = map (\<lambda>x. if x = c then d else x) t"
    using assms(3) by (simp add: replace_ch_one)
  moreover have "inj_on (\<lambda>x. if x = c then d else x) (set s \<union> set t)"
    using assms(1,2) by (auto simp: inj_on_def)
  ultimately show ?thesis by (rule map_inj_on)
qed

lemma PrettifyAppId_index:
  assumes "PrettifyAppId a i p = Ret s" and "PrettifyAppId b j q = Ret s"
  shows "i = j \<and> p = q \<and> replace_ch CHR ''/'' ''.'' (tl a) = replace_ch CHR ''/'' ''.'' (tl b)"
proof -
  have free: "CHR ''-'' \<notin> set (nat_str n)" "CHR ''-'' \<notin> set (uint_str w)" for n w
    by (auto simp: uint_str_def nat_str_free)
  from assms have
    "(replace_ch CHR ''/'' ''.'' (tl a) @ CHR ''-'' # nat_str i) @ CHR ''-'' # uint_str p =
     (replace_ch CHR ''/'' ''.'' (tl b) @ CHR ''-'' # nat_str j) @ CHR ''-'' # uint_str q"
    by (simp add: go_run)
  from last_sep_eq [OF this free(2) free(2)]
  have eq: "replace_ch CHR ''/'' ''.'' (tl a) @ CHR ''-'' # nat_str i =
     replace_ch CHR ''/'' ''.'' (tl b) @ CHR ''-'' # nat_str j" and "uint_str p = uint_str q" by auto
  from last_sep_eq [OF eq free(1) free(1)] this(2) show ?thesis
    by (auto simp: nat_str_inj uint_str_inj)
qed

text \<open>
  Service names are unambiguous: for applications whose ids start with a slash (as all
  Marathon ids do) and have no dot, the name that identifies a service in the generated
  configuration, in the file names and in the table of UDP servers determines the application
  id, the port index and the service port.
\<close>

theorem PrettifyAppId_injective:
  assumes "PrettifyAppId (CHR ''/'' # a) i p = Ret s" and "PrettifyAppId (CHR ''/'' # b) j q = Ret s"
    and "CHR ''.'' \<notin> set a" and "CHR ''.'' \<notin> set b"
  shows "a = b \<and> i = j \<and> p = q"
  using PrettifyAppId_index [OF assms(1,2)] assms(3,4) by (auto dest: replace_ch_inj)

theorem PrettifyAppId_injective_witness:
  "{(j, q). PrettifyAppId ''/prod/web'' j q = Ret ''prod.web-0-8080''} = {(0, 8080)}"
proof -
  have ev: "PrettifyAppId ''/prod/web'' 0 8080 = Ret ''prod.web-0-8080''"
    by (simp add: PrettifyAppId_def replace_ch_def go_eval)
  have free: "CHR ''.'' \<notin> set ''prod/web''" by simp
  have "j = 0 \<and> q = 8080" if "PrettifyAppId ''/prod/web'' j q = Ret ''prod.web-0-8080''" for j q
    using PrettifyAppId_injective [OF ev that free free] by simp
  then show ?thesis using ev by (intro equalityI subsetI; clarify) blast+
qed

text \<open>The dots in the argument decide nothing: \<open>SplitN\<close> with a count of one does not split.\<close>

lemma PrettifyDnsName_id: "PrettifyDnsName dns = Ret dns"
  by (simp add: PrettifyDnsName_def go_nth_def)

section \<open>Comparing files\<close>

definition chunkSize :: nat where
  "chunkSize = 64000"

text \<open>A freshly made buffer after one \<open>Read\<close>: what was read, then zero bytes.\<close>

definition chunk_buf :: "string \<Rightarrow> string" where
  "chunk_buf c = take chunkSize c @ replicate (chunkSize - length c) (CHR 0x00)"

function same_chunks :: "string \<Rightarrow> string \<Rightarrow> bool" where
  "same_chunks c1 c2 =
     (if c1 = [] \<or> c2 = [] then c1 = [] \<and> c2 = []
      else if chunk_buf c1 \<noteq> chunk_buf c2 then False
      else same_chunks (drop chunkSize c1) (drop chunkSize c2))"
  by pat_completeness auto
termination
  by (relation "measure (\<lambda>(c1, c2). length c1)") (auto simp: chunkSize_def)

declare same_chunks.simps [simp del]

definition FileIsIdentical :: "file_system \<Rightarrow> string \<Rightarrow> string \<Rightarrow> bool" where
  "FileIsIdentical fs file1 file2 =
     (case fs_read fs file1 of
        None \<Rightarrow> False
      | Some c1 \<Rightarrow>
         (case fs_read fs file2 of
            None \<Rightarrow> False
          | Some c2 \<Rightarrow> if length c1 \<noteq> length c2 then False else same_chunks c1 c2))"

lemma same_chunks_eq: "length c1 = length c2 \<Longrightarrow> same_chunks c1 c2 \<longleftrightarrow> c1 = c2"
proof (induction c1 c2 rule: same_chunks.induct)
  case (1 c1 c2)
  show ?case
  proof (cases "c1 = [] \<or> c2 = []")
    case True
    then show ?thesis by (subst same_chunks.simps) auto
  next
    case False
    have buf: "chunk_buf c1 = chunk_buf c2 \<longleftrightarrow> take chunkSize c1 = take chunkSize c2"
      using "1.prems" by (auto simp: chunk_buf_def)
    have "same_chunks c1 c2 \<longleftrightarrow> take chunkSize c1 = take chunkSize c2 \<and>
        drop chunkSize c1 = drop chunkSize c2"
      using False "1.IH" "1.prems" by (subst same_chunks.simps) (auto simp: buf)
    then show ?thesis by (metis append_take_drop_id)
  qed
qed

lemma FileIsIdentical_eq:
  "FileIsIdentical fs f1 f2 \<longleftrightarrow> (\<exists>c. fs_read fs f1 = Some c \<and> fs_read fs f2 = Some c)"
  by (auto simp: FileIsIdentical_def same_chunks_eq split: option.splits)

text \<open>
  C39. The chunked comparison decides equality of contents: two files are reported identical
  exactly when both exist and hold the same bytes, although the loop compares whole buffers
  padded with zero bytes.
\<close>

theorem FileIsIdentical_correct:
  "FileIsIdentical fs f1 f2 \<longleftrightarrow> (\<exists>c. fs_read fs f1 = Some c \<and> fs_read fs f2 = Some c)"
  by (rule FileIsIdentical_eq)

text \<open>The size comparison is needed: without it trailing zero bytes are not seen.\<close>

lemma same_chunks_needs_size: "same_chunks ''a'' [CHR ''a'', CHR 0x00]"
proof -
  have "chunk_buf ''a'' = chunk_buf [CHR ''a'', CHR 0x00]"
    by (simp add: chunk_buf_def chunkSize_def replicate_Suc [of "63998", simplified, symmetric])
  then show ?thesis by (subst same_chunks.simps) (simp add: same_chunks.simps chunkSize_def)
qed

section \<open>Lists and numbers\<close>

fun Contains :: "string list \<Rightarrow> string \<Rightarrow> bool" where
  "Contains [] item = False"
| "Contains (value # rest) item = (if value = item then True else Contains rest item)"

definition Atoi :: "string \<Rightarrow> int \<Rightarrow> int" where
  "Atoi value defaultValue =
     (case atoi value of (result, None) \<Rightarrow> result | (_, Some _) \<Rightarrow> defaultValue)"

fun FindMissing :: "string list \<Rightarrow> string list \<Rightarrow> string list" where
  "FindMissing [] list2 = []"
| "FindMissing (item # list1) list2 =
     (if \<not> Contains list2 item then item # FindMissing list1 list2
      else FindMissing list1 list2)"

lemma Contains_iff [simp]: "Contains xs x \<longleftrightarrow> x \<in> set xs"
  by (induction xs) auto

lemma FindMissing_eq: "FindMissing xs ys = filter (\<lambda>x. x \<notin> set ys) xs"
  by (induction xs) auto

lemma Atoi_in_int64: "in_int64 d \<Longrightarrow> in_int64 (Atoi s d)"
  using atoi_in_int64 [of s] by (auto simp: Atoi_def split: prod.splits option.splits)

lemma Atoi_int_str: "in_int64 i \<Longrightarrow> Atoi (int_str i) d = i"
  by (simp add: Atoi_def atoi_int_str)

text \<open>
  \<open>FindMissing\<close> returns the items of its first argument that are not in the second, in
  their order and with their multiplicity.
\<close>

theorem FindMissing_correct:
  "set (FindMissing xs ys) = set xs - set ys \<and> subseq (FindMissing xs ys) xs \<and>
   (x \<in> set (FindMissing xs ys) \<longrightarrow> count_list (FindMissing xs ys) x = count_list xs x)"
  by (auto simp: FindMissing_eq count_list_eq_length_filter intro: arg_cong [where f = length]
      filter_cong)

theorem FindMissing_correct_witness:
  "FindMissing [''a'', ''b'', ''a''] [''b''] = [''a'', ''a''] \<and>
   count_list (FindMissing [''a'', ''b'', ''a''] [''b'']) ''a'' = 2"
  using FindMissing_correct [of "[''a'', ''b'', ''a'']" "[''b'']" "''a''"] by simp

section \<open>Protocols\<close>

definition GetTransportProtocol :: "marathon_app \<Rightarrow> nat \<Rightarrow> string" where
  "GetTransportProtocol app portIndex =
     (if portIndex < length (a_portDefs app) then pd_protocol (a_portDefs app ! portIndex)
      else case a_docker app of
        Some mappings \<Rightarrow>
          if portIndex < length mappings then to_lower (pm_protocol (mappings ! portIndex))
          else if 0 < length (a_portDefs app) then ''tcp'' else ''''
      | None \<Rightarrow> if 0 < length (a_portDefs app) then ''tcp'' else '''')"

fun find_health_check :: "health_check list \<Rightarrow> nat \<Rightarrow> health_check option" where
  "find_health_check [] portIndex = None"
| "find_health_check (hs # rest) portIndex =
     (if hc_portIndex hs = int portIndex then Some hs else find_health_check rest portIndex)"

definition GetHealthCheckProtocol :: "marathon_app \<Rightarrow> nat \<Rightarrow> string" where
  "GetHealthCheckProtocol app portIndex =
     (case find_health_check (a_healthChecks app) portIndex of
        Some hs \<Rightarrow> to_lower (hc_protocol hs)
      | None \<Rightarrow> '''')"

definition GetHealthCheckForPortIndex :: "health_check list \<Rightarrow> nat \<Rightarrow> health_check" where
  "GetHealthCheckForPortIndex healthChecks portIndex =
     (case find_health_check healthChecks portIndex of
        Some hs \<Rightarrow> hs
      | None \<Rightarrow> \<lparr>hc_path = '''', hc_protocol = '''', hc_portIndex = 0, hc_interval = 0\<rparr>)"

definition GetApplicationProtocol :: "marathon_app \<Rightarrow> nat \<Rightarrow> string" where
  "GetApplicationProtocol app portIndex =
     (let proto = to_lower (label (a_labels app) ''proto'') in
      if length proto \<noteq> 0 then proto
      else let proto = GetHealthCheckProtocol app portIndex in
        if length proto \<noteq> 0 then proto
        else let proto = GetTransportProtocol app portIndex in
          if length proto \<noteq> 0 then proto
          else ''tcp'')"

lemma find_health_check_Some:
  "find_health_check hcs i = Some hc \<Longrightarrow> hc \<in> set hcs \<and> hc_portIndex hc = int i"
  by (induction hcs) (auto split: if_splits)

lemma find_health_check_None:
  "find_health_check hcs i = None \<longleftrightarrow> (\<forall>hc\<in>set hcs. hc_portIndex hc \<noteq> int i)"
  by (induction hcs) auto

lemma GetApplicationProtocol_not_empty: "GetApplicationProtocol app i \<noteq> ''''"
  by (simp add: GetApplicationProtocol_def Let_def)

text \<open>
  The application protocol of a port is the lower-case \<open>proto\<close> label if there is one,
  else the protocol of the first health check on that port, else the transport protocol of the
  port, else TCP; it is never empty.
\<close>

theorem GetApplicationProtocol_priority:
  "GetApplicationProtocol app i =
     hd (filter (\<lambda>p. p \<noteq> '''')
       [to_lower (label (a_labels app) ''proto''), GetHealthCheckProtocol app i,
        GetTransportProtocol app i, ''tcp'']) \<and>
   GetApplicationProtocol app i \<noteq> ''''"
  using GetApplicationProtocol_not_empty by (simp add: GetApplicationProtocol_def Let_def)

section \<open>Hash\<close>

unbundle bit_operations_syntax

text \<open>\<open>hash/fnv.New32a\<close>: the FNV-1a hash of the bytes, in 32-bit arithmetic.\<close>

definition fnv_step :: "32 word \<Rightarrow> char \<Rightarrow> 32 word" where
  "fnv_step h c = (h XOR of_char c) * 16777619"

definition Hash :: "string \<Rightarrow> 32 word" where
  "Hash s = foldl fnv_step 2166136261 s"

lemma fnv_prime_inverse: "(16777619 :: 32 word) * 899433627 = 1"
  by simp

lemma fnv_mult_inj: "(x :: 32 word) * 16777619 = y * 16777619 \<Longrightarrow> x = y"
proof -
  assume "x * 16777619 = y * 16777619"
  then have "x * (16777619 * 899433627) = y * (16777619 * 899433627)"
    by (simp only: mult.assoc [symmetric])
  then show "x = y" by (simp only: fnv_prime_inverse mult_1_right)
qed

lemma xor_cancel_right: "(a :: 'a::len word) XOR c = b XOR c \<Longrightarrow> a = b"
  by (metis xor.assoc xor_self_eq xor.right_neutral)

lemma fnv_step_inj_state: "fnv_step h c = fnv_step h' c \<Longrightarrow> h = h'"
  unfolding fnv_step_def by (drule fnv_mult_inj) (rule xor_cancel_right)

lemma of_char_word_inj: "(of_char c :: 32 word) = of_char d \<Longrightarrow> c = d"
proof -
  assume eq: "(of_char c :: 32 word) = of_char d"
  have "unat (of_char x :: 32 word) = of_char x" for x
  proof -
    have "(of_char x :: 32 word) = word_of_nat (of_char x)" by (cases x) simp
    moreover have "(of_char x :: nat) mod 2 ^ 32 = of_char x"
      by (rule mod_less, rule less_trans [of _ 256]) simp_all
    ultimately show ?thesis by (simp add: unat_of_nat)
  qed
  then have "(of_char c :: nat) = of_char d" using eq by metis
  then show "c = d" by simp
qed

lemma fnv_step_inj_char: "fnv_step h c = fnv_step h d \<Longrightarrow> c = d"
  unfolding fnv_step_def
  by (drule fnv_mult_inj) (metis xor.commute xor_cancel_right of_char_word_inj)

lemma fnv_fold_inj: "foldl fnv_step h t = foldl fnv_step h' t \<Longrightarrow> h = h'"
  by (induction t arbitrary: h h') (auto dest: fnv_step_inj_state)

text \<open>
  The server id of a task is sensitive to every byte: two slave ids that differ in exactly
  one byte never have the same hash (each step of FNV-1a is a bijection of the 32-bit state,
  since the multiplier is odd).
\<close>

theorem Hash_single_byte:
  assumes "c \<noteq> d"
  shows "Hash (s @ c # t) \<noteq> Hash (s @ d # t)"
  using assms by (auto simp: Hash_def dest!: fnv_fold_inj fnv_step_inj_char)

theorem Hash_single_byte_witness: "Hash ''slave-1'' = 329292626 \<and> Hash ''slave-2'' \<noteq> Hash ''slave-1''"
  using Hash_single_byte [of "CHR ''2''" "CHR ''1''" "''slave-''" "[]"]
  by (simp add: Hash_def fnv_step_def)

section \<open>Labels with several values\<close>

definition makeStringArray :: "string \<Rightarrow> string list" where
  "makeStringArray s = (if length s = 0 then [] else split_str CHR '','' s)"

lemma makeStringArray_Nil_iff [simp]: "makeStringArray s = [] \<longleftrightarrow> s = []"
  by (simp add: makeStringArray_def)

lemma makeStringArray_join:
  "xs \<noteq> [] \<Longrightarrow> xs \<noteq> [[]] \<Longrightarrow> (\<forall>x\<in>set xs. CHR '','' \<notin> set x) \<Longrightarrow>
   makeStringArray (join_str '','' xs) = xs"
proof -
  assume xs: "xs \<noteq> []" "xs \<noteq> [[]]" and free: "\<forall>x\<in>set xs. CHR '','' \<notin> set x"
  from split_join_str [OF xs(1) free] have sp: "split_str CHR '','' (join_str '','' xs) = xs" .
  moreover have "join_str '','' xs \<noteq> []" using sp xs(2) by (metis split_str.simps(1))
  ultimately show ?thesis by (simp add: makeStringArray_def)
qed

section \<open>Port ranges\<close>

datatype range_error = RangeAtoi atoi_error | ErrInvalidPortRange

definition parseRange :: "string \<Rightarrow> int \<times> int \<times> range_error option" where
  "parseRange input =
     (if length input = 0 then (0, 0, None)
      else let vals = split_str CHR '':'' input in
        if length vals = 1 then
          (let (i, err) = atoi input in (i, i, map_option RangeAtoi err))
        else if length vals > 2 then (0, 0, Some ErrInvalidPortRange)
        else
          (let (begin1, err1) = (if vals ! 0 \<noteq> '''' then atoi (vals ! 0) else (0, None)) in
           if err1 \<noteq> None then (begin1, 0, map_option RangeAtoi err1)
           else if vals ! 1 \<noteq> '''' then
             (let (end1, err2) = atoi (vals ! 1) in
              if begin1 > end1 then (begin1, end1, Some ErrInvalidPortRange)
              else (begin1, end1, map_option RangeAtoi err2))
           else (begin1, - 1, None)))"

lemma int_str_not_Nil [simp]: "int_str i \<noteq> []"
  by (simp add: int_str_def)

lemma int_str_no_colon: "CHR '':'' \<notin> set (int_str i)"
  by (auto simp: int_str_def nat_str_free)

lemma parseRange_single: "in_int64 i \<Longrightarrow> parseRange (int_str i) = (i, i, None)"
  by (simp add: parseRange_def split_str_free [OF int_str_no_colon] atoi_int_str)

text \<open>
  Port ranges are read back as they are written: \<open>begin:end\<close> with \<open>begin \<le> end\<close>
  gives both bounds, an empty begin means 0, an empty end means \<open>-1\<close> (until the last port), a
  begin above the end is refused, and the empty text is the single port 0.
\<close>

theorem parseRange_roundtrip:
  assumes "in_int64 b" and "in_int64 e"
  shows "parseRange (int_str b @ '':'' @ int_str e) =
           (b, e, if b > e then Some ErrInvalidPortRange else None) \<and>
         parseRange (int_str b @ '':'') = (b, - 1, None) \<and>
         (0 \<le> e \<longrightarrow> parseRange ('':'' @ int_str e) = (0, e, None)) \<and>
         parseRange '''' = (0, 0, None)"
  using assms
  by (simp_all add: parseRange_def split_str_Cons_sep [OF int_str_no_colon]
      split_str_free [OF int_str_no_colon] atoi_int_str)

theorem parseRange_roundtrip_witness: "parseRange ''1:3'' = (1, 3, None)"
  using parseRange_roundtrip [of 1 3] by (simp add: in_int64_def go_eval)

text \<open>A range that is accepted is ordered or open-ended; it may still be negative.\<close>

lemma parseRange_ordered:
  "parseRange s = (b, e, None) \<Longrightarrow> b \<le> e \<or> e = - 1"
  by (auto simp: parseRange_def Let_def split: if_splits prod.splits)

lemma parseRange_negative: "parseRange ''-1'' = (- 1, - 1, None)"
  using parseRange_single [of "- 1"] by (simp add: in_int64_def go_eval)

section \<open>Search for an executable\<close>

fun locate_in :: "file_system \<Rightarrow> string list \<Rightarrow> string \<Rightarrow> string" where
  "locate_in fs [] name = name"
| "locate_in fs (dir # rest) name =
     (let path = path_join dir name in
      if fs_exists fs path then path else locate_in fs rest name)"

definition locateExe :: "file_system \<Rightarrow> string \<Rightarrow> string \<Rightarrow> string" where
  "locateExe fs PATH name = locate_in fs (split_str CHR '':'' PATH) name"

lemma locate_in_cases:
  "locate_in fs ps name = name \<or>
   (\<exists>p\<in>set ps. locate_in fs ps name = path_join p name \<and> fs_exists fs (path_join p name))"
  by (induction ps) (auto simp: Let_def)

end
