(* ===== verification/Sorted_Lists.thy ===== *)
theory Sorted_Lists
  imports Helper
begin

text \<open>
  The orders of the generated output: src/sorted_task_list.go (tasks of an application),
  src/sorted_str_str_keys.go and src/sorted_vhosts.go (keys of a map). Strings compare by
  bytes, which is the library's lexicographic order on \<open>char list\<close>.

  Keys are pairwise different and strings are totally ordered, so the result of \<open>sort.Sort\<close>
  on them is determined and is the library's \<open>sort\<close>. The relation \<open>task_less\<close> is not an
  ordering (\<open>task_less_cyclic\<close>), so \<open>sortTasks\<close> depends on the sorting algorithm, a
  parameter. The locale \<open>key_sorter\<close> states what the writers of the gateway configuration
  need of both key functions.
\<close>

section \<open>Tasks\<close>

definition task_less :: "nat \<Rightarrow> marathon_task \<Rightarrow> marathon_task \<Rightarrow> bool" where
  "task_less portIndex a b =
     (if length (t_ports a) > portIndex \<and> length (t_ports b) > portIndex
      then t_host a < t_host b \<or> t_ports a ! portIndex < t_ports b ! portIndex
      else t_host a < t_host b)"

definition sortTasks :: "host_env \<Rightarrow> marathon_task list \<Rightarrow> nat \<Rightarrow> marathon_task list" where
  "sortTasks env tasks portIndex = env_sortTasks env (task_less portIndex) tasks"

text \<open>The order the code has in mind where it is one: hosts first, then the port.\<close>

definition uniform_ports :: "nat \<Rightarrow> marathon_task list \<Rightarrow> bool" where
  "uniform_ports i ts \<longleftrightarrow>
     (\<forall>a\<in>set ts. \<forall>b\<in>set ts. length (t_ports a) \<le> i \<or> length (t_ports b) \<le> i
        \<or> t_ports a ! i = t_ports b ! i)"

lemma mset_sortTasks: "sort_ok (env_sortTasks env) \<Longrightarrow> mset (sortTasks env ts i) = mset ts"
  by (simp add: sortTasks_def sort_ok_mset)

lemma set_sortTasks: "sort_ok (env_sortTasks env) \<Longrightarrow> set (sortTasks env ts i) = set ts"
  by (simp add: sortTasks_def sort_ok_set)

lemma length_sortTasks: "sort_ok (env_sortTasks env) \<Longrightarrow> length (sortTasks env ts i) = length ts"
  by (simp add: sortTasks_def sort_ok_length)

lemma task_less_uniform:
  assumes "uniform_ports i ts" and "a \<in> set ts" and "b \<in> set ts"
  shows "task_less i a b \<longleftrightarrow> t_host a < t_host b"
proof (cases "i < length (t_ports a) \<and> i < length (t_ports b)")
  case True
  with assms have "t_ports a ! i = t_ports b ! i"
    unfolding uniform_ports_def by (meson not_le)
  with True show ?thesis by (simp add: task_less_def)
next
  case False
  then show ?thesis by (auto simp: task_less_def)
qed

lemma strict_weak_task_less: "uniform_ports i ts \<Longrightarrow> strict_weak (task_less i) (set ts)"
  unfolding strict_weak_def by (auto simp: task_less_uniform)

lemma sortTasks_hosts:
  assumes "sort_ok (env_sortTasks env)" and "uniform_ports i ts"
  shows "mset (sortTasks env ts i) = mset ts \<and> sorted (map t_host (sortTasks env ts i))"
proof -
  have "sorted_wrt (\<lambda>x y. \<not> task_less i y x) (sortTasks env ts i)"
    unfolding sortTasks_def
    by (rule sort_ok_sorted [OF assms(1)]) (rule strict_weak_task_less [OF assms(2)])
  moreover have "set (sortTasks env ts i) = set ts"
    by (rule set_sortTasks [OF assms(1)])
  ultimately have "sorted_wrt (\<lambda>x y. t_host x \<le> t_host y) (sortTasks env ts i)"
    using task_less_uniform [OF assms(2)] by (auto intro: sorted_wrt_mono_rel [rotated])
  then show ?thesis using mset_sortTasks [OF assms(1)] by (simp add: sorted_map)
qed

text \<open>
  C38. The tasks of an application come out as a permutation of the tasks that went in, and
  sorted by host whenever their ports at the index agree (or are missing); this covers the
  cases of the project's own test.
\<close>

theorem sortTasks_by_host:
  assumes "sort_ok (env_sortTasks env)" and "uniform_ports i ts"
  shows "mset (sortTasks env ts i) = mset ts \<and> sorted (map t_host (sortTasks env ts i))"
  by (rule sortTasks_hosts [OF assms])

definition mk_task :: "string \<Rightarrow> string \<Rightarrow> string \<Rightarrow> uint list \<Rightarrow> marathon_task" where
  "mk_task tid appid host ports =
     \<lparr>t_id = tid, t_appId = appid, t_host = host, t_ports = ports, t_slaveId = [],
      t_state = None, t_healthResults = []\<rparr>"

theorem sortTasks_by_host_witness:
  "map t_host (sortTasks example_env
      [mk_task ''t1'' ''/test/foo'' ''ccc'' [80], mk_task ''t2'' ''/test/foo'' ''aaa'' [80],
       mk_task ''t3'' ''/test/foo'' ''bbb'' [80, 443]] 1) = [''aaa'', ''bbb'', ''ccc''] \<and>
   sorted (map t_host (sortTasks example_env
      [mk_task ''t1'' ''/test/foo'' ''ccc'' [80], mk_task ''t2'' ''/test/foo'' ''aaa'' [80],
       mk_task ''t3'' ''/test/foo'' ''bbb'' [80, 443]] 1))"
  using sortTasks_by_host [OF example_env_sort_ok, of 1
      "[mk_task ''t1'' ''/test/foo'' ''ccc'' [80], mk_task ''t2'' ''/test/foo'' ''aaa'' [80],
        mk_task ''t3'' ''/test/foo'' ''bbb'' [80, 443]]"]
  by (simp add: uniform_ports_def mk_task_def sortTasks_def example_env_def insertion_sort_def
      task_less_def)

text \<open>
  The relation passed to the sort is not an ordering: two tasks whose hosts and ports are
  ordered the opposite way are each less than the other, so the order of the servers in the
  configuration then depends on the sorting algorithm and on the order of the input.
\<close>

theorem task_less_cyclic:
  assumes "i < length (t_ports a)" and "i < length (t_ports b)"
    and "t_host a < t_host b" and "t_ports b ! i < t_ports a ! i"
  shows "task_less i a b \<and> task_less i b a \<and> \<not> strict_weak (task_less i) {a, b}"
proof -
  have cyc: "task_less i a b \<and> task_less i b a"
    using assms by (simp add: task_less_def)
  then have "\<not> strict_weak (task_less i) {a, b}"
    using strict_weak_asym [of "task_less i" "{a, b}" a b] by auto
  with cyc show ?thesis by blast
qed

theorem task_less_cyclic_witness:
  "task_less 0 (mk_task ''x'' ''/a'' ''h1'' [9]) (mk_task ''y'' ''/a'' ''h2'' [8]) \<and>
   task_less 0 (mk_task ''y'' ''/a'' ''h2'' [8]) (mk_task ''x'' ''/a'' ''h1'' [9]) \<and>
   map t_id (insertion_sort (task_less 0)
     [mk_task ''x'' ''/a'' ''h1'' [9], mk_task ''y'' ''/a'' ''h2'' [8]]) = [''y'', ''x''] \<and>
   map t_id (insertion_sort (task_less 0)
     [mk_task ''y'' ''/a'' ''h2'' [8], mk_task ''x'' ''/a'' ''h1'' [9]]) = [''x'', ''y'']"
  using task_less_cyclic [of 0 "mk_task ''x'' ''/a'' ''h1'' [9]" "mk_task ''y'' ''/a'' ''h2'' [8]"]
  by (simp add: mk_task_def insertion_sort_def task_less_def)

section \<open>Keys of maps\<close>

definition SortedStrStrKeys :: "(string, string) gomap \<Rightarrow> string list" where
  "SortedStrStrKeys m = sort (gm_keys m)"

definition SortedVhostsKeys :: "(string, string list) gomap \<Rightarrow> string list" where
  "SortedVhostsKeys m = sort (gm_keys m)"

text \<open>Whatever the algorithm and the iteration order of the map, the result is the same.\<close>

lemma sort_determined:
  fixes ks :: "'a::linorder list"
  assumes "sort_ok srt" and "mset ks = mset ks'"
  shows "srt (<) ks = sort ks'"
proof -
  have "strict_weak (<) (set ks)" by (auto simp: strict_weak_def)
  then have "sorted_wrt (\<lambda>x y. \<not> y < x) (srt (<) ks)" by (rule sort_ok_sorted [OF assms(1)])
  then have "sorted (srt (<) ks)" by (simp add: not_less)
  moreover have "mset (srt (<) ks) = mset ks'" using sort_ok_mset [OF assms(1)] assms(2) by simp
  ultimately show ?thesis by (metis properties_for_sort)
qed

locale key_sorter =
  fixes keys_of :: "('k::linorder, 'v) gomap \<Rightarrow> 'k list"
  assumes keys_set: "set (keys_of m) = dom (gm_get m)"
    and keys_sorted: "sorted (keys_of m)"
    and keys_distinct: "gm_ok m \<Longrightarrow> distinct (keys_of m)"
begin

lemma keys_determined: "gm_ok m \<Longrightarrow> keys_of m = sorted_list_of_set (dom (gm_get m))"
  using keys_set keys_sorted keys_distinct sorted_list_of_set.idem_if_sorted_distinct by metis

lemma keys_cong: "gm_ok m \<Longrightarrow> gm_ok m' \<Longrightarrow> gm_get m = gm_get m' \<Longrightarrow> keys_of m = keys_of m'"
  by (simp add: keys_determined)

end

interpretation str_keys: key_sorter SortedStrStrKeys
  by unfold_locales (auto simp: SortedStrStrKeys_def set_gm_keys gm_ok_def)

interpretation vhost_keys: key_sorter SortedVhostsKeys
  by unfold_locales (auto simp: SortedVhostsKeys_def set_gm_keys gm_ok_def)

end
