(* ===== verification/Sse.thy ===== *)
theory Sse
  imports Go_Base
begin

text \<open>
  The event-stream client of src/sse.go: the object \<open>EventSource\<close> with its ready state, its
  table of handlers and its optional callbacks; the line parser inside \<open>Run\<close>
  (\<open>process_line\<close>); and one connection (\<open>Run\<close>). The reconnecting loop is in \<open>Sse_Forever\<close>.

  A callback is known by a name; a run returns the callbacks it called, in order. What the
  network does is an argument: a connection fails, is refused with a status, or delivers lines
  (each with its final newline, as \<open>ReadString\<close> returns them) until a read error. A call of
  \<open>Close\<close> by another goroutine is an event of that input, between two lines (\<open>Sse_Forever\<close> has it at
  every other point too). Setting up the HTTP client and its headers is not modelled.
\<close>

datatype ready_state = CONNECTING | OPEN | CLOSED

primrec ready_code :: "ready_state \<Rightarrow> nat" where
  "ready_code CONNECTING = 0"
| "ready_code OPEN = 1"
| "ready_code CLOSED = 2"

text \<open>The states are ordered as the source numbers them.\<close>

instantiation ready_state :: linorder
begin

definition less_eq_ready_state :: "ready_state \<Rightarrow> ready_state \<Rightarrow> bool" where
  "a \<le> b \<longleftrightarrow> ready_code a \<le> ready_code b"

definition less_ready_state :: "ready_state \<Rightarrow> ready_state \<Rightarrow> bool" where
  "a < b \<longleftrightarrow> ready_code a < ready_code b"

instance
proof
  fix x y :: ready_state
  show "x \<le> y \<Longrightarrow> y \<le> x \<Longrightarrow> x = y"
    by (cases x; cases y) (auto simp: less_eq_ready_state_def)
qed (auto simp: less_eq_ready_state_def less_ready_state_def)

end

type_synonym callback = string

datatype sse_call = CallHandler callback string | CallOnMessage callback string string
  | CallOnOpen callback string string | CallOnError callback string string | Sleep int

record event_source =
  es_url :: string
  es_readyState :: ready_state
  es_handlers :: "(string, callback) gomap"
  es_onOpen :: "callback option"
  es_onMessage :: "callback option"
  es_onError :: "callback option"
  es_reconnectDelay :: int
  es_lastEventID :: string

definition NewEventSource :: "string \<Rightarrow> int \<Rightarrow> event_source" where
  "NewEventSource url reconnectDelay =
     \<lparr>es_url = url, es_readyState = CONNECTING, es_handlers = gm_make, es_onOpen = None,
      es_onMessage = None, es_onError = None, es_reconnectDelay = reconnectDelay,
      es_lastEventID = ''''\<rparr>"

definition AddEventListener :: "event_source \<Rightarrow> string \<Rightarrow> callback \<Rightarrow> event_source go" where
  "AddEventListener sse eventType cb =
     go_bind (gm_put (es_handlers sse) eventType cb) (\<lambda>hs. Ret (sse\<lparr>es_handlers := hs\<rparr>))"

definition event_calls :: "event_source \<Rightarrow> string \<Rightarrow> string \<Rightarrow> sse_call list" where
  "event_calls sse event data =
     (case gm_get (es_handlers sse) event of
        Some cb \<Rightarrow> [CallHandler cb data]
      | None \<Rightarrow> (case es_onMessage sse of Some cb \<Rightarrow> [CallOnMessage cb event data] | None \<Rightarrow> []))"

definition dispatchEvent :: "event_source \<Rightarrow> string \<Rightarrow> string \<Rightarrow> event_source \<times> sse_call list" where
  "dispatchEvent sse event data =
     (case es_readyState sse of
        CLOSED \<Rightarrow> (sse, [])
      | OPEN \<Rightarrow> (sse, event_calls sse event data)
      | CONNECTING \<Rightarrow> (sse\<lparr>es_readyState := OPEN\<rparr>, event_calls sse event data))"

definition on_error :: "event_source \<Rightarrow> string \<Rightarrow> sse_call list" where
  "on_error sse msg =
     (case es_onError sse of Some cb \<Rightarrow> [CallOnError cb ''error'' msg] | None \<Rightarrow> [])"

section \<open>The line parser\<close>

record sse_run =
  sr_es :: event_source
  sr_eventType :: string
  sr_dataBuffer :: string

definition parse_field :: "string \<Rightarrow> (string \<times> string) go" where
  "parse_field line =
     (if contains_ch CHR '':'' line then
        (let args = splitN_str '': '' 2 line in
         go_bind (go_nth args 0) (\<lambda>name. go_bind (go_nth args 1) (\<lambda>value. Ret (name, value))))
      else Ret (line, ''''))"

definition set_field :: "sse_run \<Rightarrow> string \<Rightarrow> string \<Rightarrow> sse_run" where
  "set_field r name value =
     (if name = ''event'' then r\<lparr>sr_eventType := value\<rparr>
      else if name = ''data'' then r\<lparr>sr_dataBuffer := sr_dataBuffer r @ value @ cr\<rparr>
      else if name = ''id'' then r\<lparr>sr_es := (sr_es r)\<lparr>es_lastEventID := value\<rparr>\<rparr>
      else if name = ''retry'' then
        (case atoi value of
           (number, None) \<Rightarrow> r\<lparr>sr_es := (sr_es r)\<lparr>es_reconnectDelay := wrap64 (1000000 * number)\<rparr>\<rparr>
         | (_, Some _) \<Rightarrow> r)
      else r)"

definition process_line :: "sse_run \<Rightarrow> string \<Rightarrow> (sse_run \<times> sse_call list) go" where
  "process_line r rawline =
     (let line = trim_str [CHR 0x0A, CHR 0x0D] rawline in
      if line = [] then
        (if sr_eventType r \<noteq> [] \<or> sr_dataBuffer r \<noteq> [] then
           (let (es, calls) = dispatchEvent (sr_es r) (sr_eventType r) (sr_dataBuffer r) in
            Ret (r\<lparr>sr_es := es, sr_dataBuffer := [], sr_eventType := []\<rparr>, calls))
         else Ret (r, []))
      else if hd line \<noteq> CHR '':'' then
        go_bind (parse_field line) (\<lambda>(name, value). Ret (set_field r name value, []))
      else Ret (r, []))"

definition Close :: "event_source \<Rightarrow> event_source" where
  "Close sse = sse\<lparr>es_readyState := CLOSED\<rparr>"

datatype sse_input = Line string | CloseCall

fun run_lines :: "sse_run \<Rightarrow> sse_input list \<Rightarrow> (sse_run \<times> sse_call list) go" where
  "run_lines r [] = Ret (r, [])"
| "run_lines r (CloseCall # ins) = run_lines (r\<lparr>sr_es := Close (sr_es r)\<rparr>) ins"
| "run_lines r (Line line # ins) =
     go_bind (process_line r line) (\<lambda>(r1, calls1).
     go_bind (run_lines r1 ins) (\<lambda>(r2, calls2). Ret (r2, calls1 @ calls2)))"

section \<open>Connections\<close>

datatype connection = RequestError string | ConnectError string | Response int "sse_input list" string

definition Run :: "event_source \<Rightarrow> connection \<Rightarrow> (event_source \<times> sse_call list) go" where
  "Run sse conn =
     (case conn of
        RequestError err \<Rightarrow> Ret (sse, on_error sse err)
      | ConnectError err \<Rightarrow> Ret (sse, on_error sse err)
      | Response status ins err \<Rightarrow>
          if status \<noteq> 200 then
            Ret (sse, on_error sse
              (''SSE: unexpected response status code: '' @ int_str status @ nl))
          else
            go_bind (run_lines \<lparr>sr_es = sse, sr_eventType = [], sr_dataBuffer = []\<rparr> ins)
              (\<lambda>(r, calls).
                Ret (sr_es r,
                  (case es_onOpen sse of
                     Some cb \<Rightarrow> [CallOnOpen cb ''open'' ''Connected.''] | None \<Rightarrow> []) @
                  calls @ on_error (sr_es r) err)))"

text \<open>The pause before a new attempt; \<open>time.Sleep\<close> returns at once when it is negative.\<close>

definition reconnect_pause :: "event_source \<Rightarrow> sse_call list" where
  "reconnect_pause sse = (if es_reconnectDelay sse \<noteq> 0 then [Sleep (es_reconnectDelay sse)] else [])"

section \<open>Facts about one line\<close>

lemma go_bind_pair_Nil: "go_bind m (\<lambda>(r, calls). Ret (r, [] @ calls)) = m"
  by (cases m) auto

lemma splitN_two: "d \<notin> set a \<Longrightarrow> splitN_str (d # ds) 2 (a @ d # ds @ b) = [a, b]"
  using cut_first [of "d # ds" d ds a b] by (simp add: numeral_2_eq_2)

lemma parse_field_sep:
  "CHR '':'' \<notin> set name \<Longrightarrow> parse_field (name @ '': '' @ v) = Ret (name, v)"
  using splitN_two [of "CHR '':''" name "'' ''" v]
  by (simp add: parse_field_def contains_ch_def go_nth_def Let_def)

text \<open>The parser panics on a field line with a colon that no blank follows.\<close>

lemma parse_field_panics_iff:
  "parse_field line = Panic p \<longleftrightarrow>
     p = IndexOutOfRange \<and> CHR '':'' \<in> set line \<and> (\<forall>a b. line \<noteq> a @ '': '' @ b)"
proof (cases "cut '': '' line")
  case None
  then show ?thesis using cut_None_iff [of "'': ''" line]
    by (auto simp: parse_field_def contains_ch_def go_nth_def Let_def numeral_2_eq_2)
next
  case (Some ab)
  then obtain a b where "cut '': '' line = Some (a, b)" by (cases ab) auto
  with cut_append [OF this] show ?thesis
    by (auto simp: parse_field_def contains_ch_def go_nth_def Let_def numeral_2_eq_2)
qed

definition one_line :: "string \<Rightarrow> bool" where
  "one_line s \<longleftrightarrow> CHR 0x0A \<notin> set s \<and> CHR 0x0D \<notin> set s"

lemma trim_one_line:
  assumes "one_line s" and "set t \<subseteq> {CHR 0x0A, CHR 0x0D}"
  shows "trim_str [CHR 0x0A, CHR 0x0D] (s @ t) = s"
proof (rule trim_str_append)
  have ends: "s = [] \<or> hd s \<noteq> c \<and> last s \<noteq> c" if "c \<notin> set s" for c
    using that by (metis hd_in_set last_in_set)
  show "s = [] \<or> hd s \<notin> set [CHR 0x0A, CHR 0x0D] \<and> last s \<notin> set [CHR 0x0A, CHR 0x0D]"
    using assms(1) ends [of "CHR 0x0A"] ends [of "CHR 0x0D"] by (auto simp: one_line_def)
qed (use assms(2) in auto)

lemma one_line_append: "one_line (s @ t) \<longleftrightarrow> one_line s \<and> one_line t"
  by (auto simp: one_line_def)

lemma process_line_field:
  assumes "one_line name" and "name \<noteq> []" and "CHR '':'' \<notin> set name" and "one_line v"
  shows "process_line r (name @ '': '' @ v @ nl) = Ret (set_field r name v, [])"
proof -
  have "one_line (name @ '': '' @ v)"
    using assms(1,4) by (auto simp: one_line_append one_line_def)
  then have trim: "trim_str [CHR 0x0A, CHR 0x0D] ((name @ '': '' @ v) @ nl) = name @ '': '' @ v"
    by (rule trim_one_line) simp
  have "hd (name @ '': '' @ v) \<noteq> CHR '':''"
    using assms(2,3) by (cases name) auto
  with assms(2) show ?thesis
    using trim parse_field_sep [OF assms(3), of v] by (simp add: process_line_def)
qed

lemma trim_blank: "set t \<subseteq> {CHR 0x0A, CHR 0x0D} \<Longrightarrow> trim_str [CHR 0x0A, CHR 0x0D] t = []"
  using trim_one_line [of "[]" t] by (simp add: one_line_def)

lemma process_line_blank:
  "sr_eventType r \<noteq> [] \<or> sr_dataBuffer r \<noteq> [] \<Longrightarrow>
   process_line r nl =
     Ret (r\<lparr>sr_es := fst (dispatchEvent (sr_es r) (sr_eventType r) (sr_dataBuffer r)),
            sr_dataBuffer := [], sr_eventType := []\<rparr>,
          snd (dispatchEvent (sr_es r) (sr_eventType r) (sr_dataBuffer r)))"
  by (simp add: process_line_def trim_blank split: prod.splits)

lemma run_lines_append:
  "run_lines r (xs @ ys) =
     go_bind (run_lines r xs) (\<lambda>(r1, c1). go_bind (run_lines r1 ys) (\<lambda>(r2, c2). Ret (r2, c1 @ c2)))"
proof (induction r xs rule: run_lines.induct)
  case (1 r)
  show ?case by (cases "run_lines r ys") auto
next
  case (3 r line ins)
  show ?case
  proof (cases "process_line r line")
    case (Ret p)
    obtain r1 c1 where p: "p = (r1, c1)" by (cases p)
    have "run_lines r1 (ins @ ys) =
      go_bind (run_lines r1 ins) (\<lambda>(r1, c1). go_bind (run_lines r1 ys) (\<lambda>(r2, c2). Ret (r2, c1 @ c2)))"
      using "3.IH" Ret p by blast
    with Ret p show ?thesis
      by (cases "run_lines r1 ins") (auto simp: go_bind_assoc split_def intro!: go_bind_cong)
  qed simp
qed simp

section \<open>Events are delivered as they were sent\<close>

text \<open>How a server writes an event with a type and some lines of data.\<close>

fun event_lines :: "string \<times> string list \<Rightarrow> string list" where
  "event_lines (et, ds) = (''event'' @ '': '' @ et @ nl) # map (\<lambda>d. ''data'' @ '': '' @ d @ nl) ds @ [nl]"

fun event_ok :: "string \<times> string list \<Rightarrow> bool" where
  "event_ok (et, ds) \<longleftrightarrow> one_line et \<and> (\<forall>d\<in>set ds. one_line d) \<and> (et \<noteq> [] \<or> ds \<noteq> [])"

fun event_data :: "string list \<Rightarrow> string" where
  "event_data [] = []"
| "event_data (d # ds) = d @ cr @ event_data ds"

lemma one_line_names: "one_line ''event''" "one_line ''data''"
  by (simp_all add: one_line_def)

lemma run_data_lines:
  "(\<forall>d\<in>set ds. one_line d) \<Longrightarrow>
   run_lines r (map (\<lambda>d. Line (''data'' @ '': '' @ d @ nl)) ds @ ins) =
   run_lines (r\<lparr>sr_dataBuffer := sr_dataBuffer r @ event_data ds\<rparr>) ins"
proof (induction ds arbitrary: r)
  case (Cons d ds)
  have "process_line r (''data'' @ '': '' @ d @ nl) = Ret (set_field r ''data'' d, [])"
    using Cons.prems by (intro process_line_field) (auto simp: one_line_names)
  with Cons show ?case by (simp add: set_field_def go_bind_pair_Nil)
qed simp

lemma run_one_event:
  assumes "event_ok (et, ds)" and "sr_eventType r = []" and "sr_dataBuffer r = []"
    and open_: "es_readyState (sr_es r) \<noteq> CLOSED"
  shows "run_lines r (map Line (event_lines (et, ds)) @ ins) =
    go_bind (run_lines (r\<lparr>sr_es := (sr_es r)\<lparr>es_readyState := OPEN\<rparr>\<rparr>) ins)
      (\<lambda>(r', calls). Ret (r', event_calls (sr_es r) et (event_data ds) @ calls))"
proof -
  let ?r1 = "r\<lparr>sr_eventType := et, sr_dataBuffer := event_data ds\<rparr>"
  have ev: "process_line r (''event'' @ '': '' @ et @ nl) = Ret (set_field r ''event'' et, [])"
    using assms(1) by (intro process_line_field) (auto simp: one_line_names)
  have "run_lines r (map Line (event_lines (et, ds)) @ ins) =
      run_lines (set_field r ''event'' et) (map (\<lambda>d. Line (''data'' @ '': '' @ d @ nl)) ds @ Line nl # ins)"
    using ev by (simp add: comp_def go_bind_pair_Nil)
  also have "\<dots> = run_lines ?r1 (Line nl # ins)"
    using assms(1,3) by (subst run_data_lines) (auto simp: set_field_def)
  also have "\<dots> = go_bind (run_lines (r\<lparr>sr_es := (sr_es r)\<lparr>es_readyState := OPEN\<rparr>\<rparr>) ins)
      (\<lambda>(r', calls). Ret (r', event_calls (sr_es r) et (event_data ds) @ calls))"
  proof -
    have ne: "sr_eventType ?r1 \<noteq> [] \<or> sr_dataBuffer ?r1 \<noteq> []"
      using assms(1) by (cases ds) auto
    have "dispatchEvent (sr_es r) et (event_data ds) =
        ((sr_es r)\<lparr>es_readyState := OPEN\<rparr>, event_calls (sr_es r) et (event_data ds))"
      using open_ by (cases "es_readyState (sr_es r)") (auto simp: dispatchEvent_def)
    then have "process_line ?r1 nl = Ret (r\<lparr>sr_es := (sr_es r)\<lparr>es_readyState := OPEN\<rparr>\<rparr>,
        event_calls (sr_es r) et (event_data ds))"
      using process_line_blank [OF ne] assms(2,3) by simp
    then show ?thesis by simp
  qed
  finally show ?thesis .
qed

lemma event_calls_ready [simp]:
  "event_calls (es\<lparr>es_readyState := x\<rparr>) ev data = event_calls es ev data"
  by (simp add: event_calls_def split: option.split)

lemma run_events:
  assumes "\<forall>ev\<in>set evs. event_ok ev" and "es_readyState es \<noteq> CLOSED"
  shows "run_lines \<lparr>sr_es = es, sr_eventType = [], sr_dataBuffer = []\<rparr>
           (map Line (concat (map event_lines evs))) =
         Ret (\<lparr>sr_es = if evs = [] then es else es\<lparr>es_readyState := OPEN\<rparr>,
               sr_eventType = [], sr_dataBuffer = []\<rparr>,
              concat (map (\<lambda>(et, ds). event_calls es et (event_data ds)) evs))"
  using assms
proof (induction evs arbitrary: es)
  case (Cons ev evs)
  obtain et ds where ev: "ev = (et, ds)" by (cases ev)
  with Cons.prems have ok: "event_ok (et, ds)" by simp
  let ?r = "\<lparr>sr_es = es, sr_eventType = [], sr_dataBuffer = []\<rparr>"
  let ?open = "es\<lparr>es_readyState := OPEN\<rparr>"
  have "run_lines ?r (map Line (event_lines (et, ds)) @ map Line (concat (map event_lines evs))) =
      go_bind (run_lines \<lparr>sr_es = ?open, sr_eventType = [], sr_dataBuffer = []\<rparr>
                (map Line (concat (map event_lines evs))))
        (\<lambda>(r', calls). Ret (r', event_calls es et (event_data ds) @ calls))"
    using run_one_event [OF ok, of ?r] Cons.prems(2) by (simp del: event_lines.simps)
  then show ?case
    using Cons.IH [of ?open] Cons.prems(1)
    by (simp del: event_lines.simps add: ev split_def)
qed simp

text \<open>
  C12. Round trip of the event stream: whatever events a server writes, each with a type and
  data lines free of line breaks, the client calls for each of them, in order, the handler of
  its type (or the message callback) with its data lines, each followed by a carriage return;
  nothing of one event leaks into the next and the buffers are empty at the end.
\<close>

theorem stream_roundtrip:
  assumes "\<forall>ev\<in>set evs. event_ok ev" and "es_readyState es \<noteq> CLOSED"
  shows "run_lines \<lparr>sr_es = es, sr_eventType = [], sr_dataBuffer = []\<rparr>
           (map Line (concat (map event_lines evs))) =
         Ret (\<lparr>sr_es = if evs = [] then es else es\<lparr>es_readyState := OPEN\<rparr>,
               sr_eventType = [], sr_dataBuffer = []\<rparr>,
              concat (map (\<lambda>(et, ds). event_calls es et (event_data ds)) evs))"
  by (rule run_events [OF assms])

definition marathon_source :: event_source where
  "marathon_source =
     (NewEventSource ''http://127.0.0.1:8080/v2/events'' 4000000000)
       \<lparr>es_handlers := Some [(''status_update_event'', ''onStatus'')], es_onError := Some ''onError''\<rparr>"

theorem stream_roundtrip_witness:
  "run_lines \<lparr>sr_es = marathon_source, sr_eventType = [], sr_dataBuffer = []\<rparr>
     (map Line [''event: status_update_event\<newline>'', ''data: {}\<newline>'', ''\<newline>'']) =
   Ret (\<lparr>sr_es = marathon_source\<lparr>es_readyState := OPEN\<rparr>, sr_eventType = [], sr_dataBuffer = []\<rparr>,
        [CallHandler ''onStatus'' (''{}'' @ cr)])"
  using stream_roundtrip [of "[(''status_update_event'', [''{}''])]" marathon_source]
  by (simp add: marathon_source_def NewEventSource_def one_line_def event_calls_def gm_get_def)

section \<open>The ready state\<close>

lemma ready_le_CLOSED [simp]: "s \<le> CLOSED"
  by (cases s) (auto simp: less_eq_ready_state_def)

lemma CLOSED_le_iff [simp]: "CLOSED \<le> s \<longleftrightarrow> s = CLOSED"
  by (cases s) (auto simp: less_eq_ready_state_def)

lemma CONNECTING_le [simp]: "CONNECTING \<le> s"
  by (simp add: less_eq_ready_state_def)

lemma set_field_ready [simp]:
  "es_readyState (sr_es (set_field r n v)) = es_readyState (sr_es r)"
  by (simp add: set_field_def split: prod.splits option.splits)

lemma dispatchEvent_ready:
  "dispatchEvent es ev data = (es', calls) \<Longrightarrow>
     es_readyState es \<le> es_readyState es' \<and> (es_readyState es = CLOSED \<longrightarrow> es' = es \<and> calls = [])"
  by (auto simp: dispatchEvent_def split: ready_state.splits)

lemma process_line_ready:
  assumes "process_line r l = Ret (r', calls)"
  shows "es_readyState (sr_es r) \<le> es_readyState (sr_es r')"
    and "es_readyState (sr_es r) = CLOSED \<Longrightarrow> calls = []"
  using assms dispatchEvent_ready [of "sr_es r" "sr_eventType r" "sr_dataBuffer r"]
  by (auto simp: process_line_def Let_def go_run split: prod.splits if_splits)

lemma run_lines_ready:
  "run_lines r ins = Ret (r', calls) \<Longrightarrow>
     es_readyState (sr_es r) \<le> es_readyState (sr_es r') \<and>
     (es_readyState (sr_es r) = CLOSED \<longrightarrow> calls = [])"
proof (induction r ins arbitrary: r' calls rule: run_lines.induct)
  case (2 r ins)
  then show ?case by (fastforce simp: Close_def)
next
  case (3 r line ins)
  then obtain r1 c1 c2 where p: "process_line r line = Ret (r1, c1)"
    and l: "run_lines r1 ins = Ret (r', c2)" and c: "calls = c1 @ c2"
    by (auto simp: go_run)
  from "3.IH" [OF p refl l] process_line_ready [OF p] c show ?case
    by (auto intro: order_trans)
qed simp

text \<open>
  After \<open>Close\<close> no further callback of an event is made: the calls of a run with a
  \<open>Close\<close> in it are those of the lines before it, and the ready state stays closed whatever
  arrives later.
\<close>

theorem Close_silences:
  assumes "run_lines r (before @ CloseCall # after) = Ret (r', calls)"
  shows "(\<exists>r1. run_lines r before = Ret (r1, calls)) \<and> es_readyState (sr_es r') = CLOSED"
proof -
  from assms obtain r1 c1 c2 where 1: "run_lines r before = Ret (r1, c1)"
    and 2: "run_lines (r1\<lparr>sr_es := Close (sr_es r1)\<rparr>) after = Ret (r', c2)" and "calls = c1 @ c2"
    by (auto simp: run_lines_append go_run)
  moreover from run_lines_ready [OF 2] have "c2 = []" "es_readyState (sr_es r') = CLOSED"
    by (auto simp: Close_def)
  ultimately show ?thesis by simp
qed

theorem Close_silences_witness:
  "run_lines \<lparr>sr_es = marathon_source, sr_eventType = [], sr_dataBuffer = []\<rparr>
     ([Line ''event: status_update_event\<newline>''] @ CloseCall # [Line ''\<newline>'']) =
   Ret (\<lparr>sr_es = Close marathon_source, sr_eventType = [], sr_dataBuffer = []\<rparr>, []) \<and>
   (\<exists>r1. run_lines \<lparr>sr_es = marathon_source, sr_eventType = [], sr_dataBuffer = []\<rparr>
     [Line ''event: status_update_event\<newline>''] = Ret (r1, []))"
proof -
  have ev: "run_lines \<lparr>sr_es = marathon_source, sr_eventType = [], sr_dataBuffer = []\<rparr>
     ([Line ''event: status_update_event\<newline>''] @ CloseCall # [Line ''\<newline>'']) =
     Ret (\<lparr>sr_es = Close marathon_source, sr_eventType = [], sr_dataBuffer = []\<rparr>, [])"
    by (simp add: process_line_def trim_str_def trim_left_def parse_field_def contains_ch_def
        go_nth_def set_field_def dispatchEvent_def Close_def numeral_2_eq_2)
  show ?thesis using ev Close_silences [OF ev] by blast
qed

section \<open>The retry field\<close>

lemma wrap64_over:
  assumes "2 ^ 63 \<le> i" and "i < 2 ^ 64"
  shows "wrap64 i = i - 2 ^ 64"
proof -
  have "(i + 2 ^ 63) mod 2 ^ 64 = (i - 2 ^ 63 + 2 ^ 64) mod 2 ^ 64" by (rule arg_cong) simp
  also have "\<dots> = (i - 2 ^ 63) mod 2 ^ 64" by (rule mod_add_self2)
  also have "\<dots> = i - 2 ^ 63" using assms by (intro mod_pos_pos_trivial) simp_all
  finally show ?thesis by (simp add: wrap64_def int_word_sint)
qed

lemma in_int64_wrap: "in_int64 (wrap64 i)"
  using sint_range_size [of "word_of_int i :: 64 word"] by (simp add: in_int64_def wrap64_def word_size)

lemma one_line_int_str: "one_line (int_str n)"
  using set_nat_str [of "nat \<bar>n\<bar>"] set_nat_str [of "nat n"] by (auto simp: one_line_def int_str_def)

lemma process_retry:
  assumes "in_int64 n"
  shows "process_line r (''retry'' @ '': '' @ int_str n @ nl) =
    Ret (r\<lparr>sr_es := (sr_es r)\<lparr>es_reconnectDelay := wrap64 (1000000 * n)\<rparr>\<rparr>, [])"
proof -
  have "process_line r (''retry'' @ '': '' @ int_str n @ nl) = Ret (set_field r ''retry'' (int_str n), [])"
    by (rule process_line_field) (simp_all add: one_line_int_str, simp add: one_line_def)
  with assms show ?thesis by (simp add: set_field_def atoi_int_str)
qed

text \<open>
  C36. The server can set the delay between connections, in milliseconds, and the delay is a 64-bit
  number of nanoseconds: a value of at most 9223372036854 in size (292 years) is taken as it is, any
  other one wraps around, and those up to 18446744073709 wrap to a negative delay, so that the loop
  reconnects without any pause.
\<close>

theorem retry_delay:
  assumes "in_int64 n"
  shows "\<exists>r'. process_line r (''retry'' @ '': '' @ int_str n @ nl) = Ret (r', []) \<and>
    in_int64 (es_reconnectDelay (sr_es r')) \<and>
    (es_reconnectDelay (sr_es r') = 1000000 * n \<longleftrightarrow> \<bar>n\<bar> \<le> 9223372036854) \<and>
    (n \<noteq> 0 \<and> \<bar>n\<bar> \<le> 9223372036854 \<longrightarrow> reconnect_pause (sr_es r') = [Sleep (1000000 * n)]) \<and>
    (9223372036854 < n \<and> n \<le> 18446744073709 \<longrightarrow>
       (\<exists>d<0. reconnect_pause (sr_es r') = [Sleep d]))"
proof (intro exI conjI)
  let ?r = "r\<lparr>sr_es := (sr_es r)\<lparr>es_reconnectDelay := wrap64 (1000000 * n)\<rparr>\<rparr>"
  show "process_line r (''retry'' @ '': '' @ int_str n @ nl) = Ret (?r, [])" by (rule process_retry [OF assms])
  show "in_int64 (es_reconnectDelay (sr_es ?r))" by (simp add: in_int64_wrap)
  have same: "wrap64 (1000000 * n) = 1000000 * n" if "\<bar>n\<bar> \<le> 9223372036854"
    using that by (intro wrap64_id) (auto simp: in_int64_def abs_le_iff)
  then show "es_reconnectDelay (sr_es ?r) = 1000000 * n \<longleftrightarrow> \<bar>n\<bar> \<le> 9223372036854"
    using in_int64_wrap [of "1000000 * n"] by (auto simp: in_int64_def abs_le_iff)
  show "n \<noteq> 0 \<and> \<bar>n\<bar> \<le> 9223372036854 \<longrightarrow> reconnect_pause (sr_es ?r) = [Sleep (1000000 * n)]"
    using same by (simp add: reconnect_pause_def)
  show "9223372036854 < n \<and> n \<le> 18446744073709 \<longrightarrow> (\<exists>d<0. reconnect_pause (sr_es ?r) = [Sleep d])"
    by (auto simp: reconnect_pause_def wrap64_over)
qed

theorem retry_delay_witness:
  "in_int64 18446744073709 \<and>
   (\<exists>r' d. process_line \<lparr>sr_es = marathon_source, sr_eventType = [], sr_dataBuffer = []\<rparr>
      (''retry'' @ '': '' @ int_str 18446744073709 @ nl) = Ret (r', []) \<and>
    d < 0 \<and> reconnect_pause (sr_es r') = [Sleep d])"
proof -
  have "in_int64 18446744073709" by (simp add: in_int64_def)
  from retry_delay [OF this, of "\<lparr>sr_es = marathon_source, sr_eventType = [], sr_dataBuffer = []\<rparr>"] this
  show ?thesis by auto
qed

text \<open>
  The line parser does not accept every line of the grammar quoted in the source: a field
  whose colon is not followed by a blank, with no colon-blank elsewhere, crashes the program
  (the second element of a one-element slice is read). The grammar makes the blank optional.
\<close>

theorem field_without_blank_panics:
  assumes "one_line line" and "CHR '':'' \<in> set line" and "hd line \<noteq> CHR '':''"
    and "\<forall>a b. line \<noteq> a @ '': '' @ b"
  shows "process_line r (line @ nl) = Panic IndexOutOfRange"
proof -
  have "trim_str [CHR 0x0A, CHR 0x0D] (line @ nl) = line"
    using assms(1) by (rule trim_one_line) simp
  moreover have "parse_field line = Panic IndexOutOfRange"
    using assms(2,4) by (simp add: parse_field_panics_iff)
  ultimately show ?thesis using assms(2,3) by (auto simp: process_line_def)
qed

theorem field_without_blank_panics_witness:
  "process_line \<lparr>sr_es = marathon_source, sr_eventType = [], sr_dataBuffer = []\<rparr> (''data:{}'' @ nl) =
     Panic IndexOutOfRange"
proof (rule field_without_blank_panics)
  have "cut '': '' ''data:{}'' = None" by simp
  then show "\<forall>a b. ''data:{}'' \<noteq> a @ '': '' @ b" by (subst (asm) cut_None_iff) auto
qed (simp_all add: one_line_def)

end
