(* ===== verification/Sse_Forever.thy ===== *)
theory Sse_Forever
  imports Sse
begin

text \<open>
  The reconnecting loop of src/sse.go, \<open>RunForever\<close>, against a \<open>Close\<close> by another goroutine at any
  time. Nothing synchronises the two on \<open>ReadyState\<close>, so every access to that field is a step of its
  own (\<open>forever_do\<close>): the test and the assignment in \<open>dispatchEvent\<close>, and the test and the assignment
  in the loop. The steps of one connection do what \<open>Run\<close> does. A \<open>Close\<close> between a test and its
  assignment is lost; any other one ends the loop, but only after the pause and the connection that
  are under way, since nothing wakes the goroutine.
\<close>

section \<open>The goroutine\<close>

text \<open>
  Where the goroutine is: in \<open>client.Do\<close>; reading lines, with the type and the data of the event read
  so far; in \<open>dispatchEvent\<close> before the test of the state, before the assignment \<open>OPEN\<close>, or before the
  callback; at the test of the loop; before the assignment \<open>CONNECTING\<close>; asleep; returned; crashed.
\<close>

datatype phase = Fetching | Parsing string string | Switching string string | Opening string string
  | Calling string string | Testing | Resetting | Pausing | Ended | Crashed panic_kind

type_synonym forever = "phase \<times> event_source"

text \<open>The outcome of the request, and what can happen next: the goroutine's own step, what the
  network does, or a call of \<open>Close\<close>.\<close>

datatype fetch = NoRequest string | NoConnection string | Status int

datatype move = Go | Fetched fetch | Got string | Lost string | Closing

definition is_blank :: "string \<Rightarrow> bool" where
  "is_blank rawline \<longleftrightarrow> trim_str [CHR 0x0A, CHR 0x0D] rawline = []"

definition fetched :: "event_source \<Rightarrow> fetch \<Rightarrow> forever \<times> sse_call list" where
  "fetched es f =
     (case f of
        NoRequest err \<Rightarrow> ((Testing, es), on_error es err)
      | NoConnection err \<Rightarrow> ((Testing, es), on_error es err)
      | Status status \<Rightarrow>
          if status \<noteq> 200 then
            ((Testing, es), on_error es (''SSE: unexpected response status code: '' @ int_str status @ nl))
          else ((Parsing [] [], es),
            case es_onOpen es of Some cb \<Rightarrow> [CallOnOpen cb ''open'' ''Connected.''] | None \<Rightarrow> []))"

definition got_line :: "event_source \<Rightarrow> string \<Rightarrow> string \<Rightarrow> string \<Rightarrow> forever" where
  "got_line es et data rawline =
     (if is_blank rawline then (if et \<noteq> [] \<or> data \<noteq> [] then Switching et data else Parsing et data, es)
      else
        (case process_line \<lparr>sr_es = es, sr_eventType = et, sr_dataBuffer = data\<rparr> rawline of
           Panic p \<Rightarrow> (Crashed p, es)
         | Ret (r, _) \<Rightarrow> (Parsing (sr_eventType r) (sr_dataBuffer r), sr_es r)))"

fun forever_do :: "forever \<Rightarrow> move \<Rightarrow> (forever \<times> sse_call list) option" where
  "forever_do (pc, es) Closing = Some ((pc, Close es), [])"
| "forever_do (Fetching, es) (Fetched f) = Some (fetched es f)"
| "forever_do (Parsing et data, es) (Got rawline) = Some (got_line es et data rawline, [])"
| "forever_do (Parsing et data, es) (Lost err) = Some ((Testing, es), on_error es err)"
| "forever_do (Switching et data, es) Go =
     Some ((case es_readyState es of
        CLOSED \<Rightarrow> Parsing [] [] | OPEN \<Rightarrow> Calling et data | CONNECTING \<Rightarrow> Opening et data, es), [])"
| "forever_do (Opening et data, es) Go = Some ((Calling et data, es\<lparr>es_readyState := OPEN\<rparr>), [])"
| "forever_do (Calling et data, es) Go = Some ((Parsing [] [], es), event_calls es et data)"
| "forever_do (Testing, es) Go =
     Some ((if es_readyState es \<noteq> CLOSED then Resetting else Ended, es), [])"
| "forever_do (Resetting, es) Go =
     Some ((Pausing, es\<lparr>es_readyState := CONNECTING\<rparr>), on_error es ''Reconnecting'' @ reconnect_pause es)"
| "forever_do (Pausing, es) Go = Some ((Fetching, es), [])"
| "forever_do s m = None"

text \<open>\<open>RunForever\<close> starts with a connection; the calls of all moves, in order.\<close>

definition RunForever :: "event_source \<Rightarrow> forever" where
  "RunForever es = (Fetching, es)"

fun forever_run :: "forever \<Rightarrow> move list \<Rightarrow> (forever \<times> sse_call list) option" where
  "forever_run s [] = Some (s, [])"
| "forever_run s (m # ms) =
     (case forever_do s m of
        None \<Rightarrow> None
      | Some (s1, calls1) \<Rightarrow>
          map_option (\<lambda>(s2, calls2). (s2, calls1 @ calls2)) (forever_run s1 ms))"

lemma forever_run_append:
  "forever_run s (ms @ ns) =
     (case forever_run s ms of
        None \<Rightarrow> None
      | Some (s1, calls1) \<Rightarrow> map_option (\<lambda>(s2, calls2). (s2, calls1 @ calls2)) (forever_run s1 ns))"
proof (induction ms arbitrary: s)
  case Nil
  show ?case by (cases "forever_run s ns") auto
next
  case (Cons m ms)
  then show ?case by (auto simp: option.map_comp comp_def split_def split: option.split)
qed

section \<open>The steps of a connection are those of Run\<close>

text \<open>The moves of the network and of \<open>Close\<close> in a run.\<close>

definition outer :: "move list \<Rightarrow> move list" where
  "outer ms = filter (\<lambda>m. m \<noteq> Go) ms"

fun input_move :: "sse_input \<Rightarrow> move" where
  "input_move (Line l) = Got l"
| "input_move CloseCall = Closing"

lemma process_line_blank_nothing:
  "is_blank l \<Longrightarrow> sr_eventType r = [] \<Longrightarrow> sr_dataBuffer r = [] \<Longrightarrow> process_line r l = Ret (r, [])"
  by (simp add: process_line_def is_blank_def)

lemma process_line_text:
  assumes "\<not> is_blank l" and "process_line r l = Ret (r1, c)"
  shows "c = []"
  using assms by (auto simp: process_line_def is_blank_def Let_def go_run split: if_splits)

lemma line_steps:
  assumes "process_line \<lparr>sr_es = es, sr_eventType = et, sr_dataBuffer = data\<rparr> l = Ret (r, calls)"
  shows "\<exists>n. forever_run (Parsing et data, es) (Got l # replicate n Go) =
    Some ((Parsing (sr_eventType r) (sr_dataBuffer r), sr_es r), calls)"
proof (cases "is_blank l")
  case False
  with assms process_line_text [OF False assms] show ?thesis
    by (intro exI [of _ 0]) (simp add: got_line_def)
next
  case blank: True
  show ?thesis
  proof (cases "et = [] \<and> data = []")
    case True
    with assms blank show ?thesis
      by (intro exI [of _ 0]) (auto simp: got_line_def process_line_blank_nothing)
  next
    case False
    from assms blank False have r: "r = \<lparr>sr_es = fst (dispatchEvent es et data), sr_eventType = [], sr_dataBuffer = []\<rparr>"
      "calls = snd (dispatchEvent es et data)"
      by (auto simp: process_line_def is_blank_def split: prod.splits)
    show ?thesis
    proof (cases "es_readyState es")
      case CONNECTING
      with r blank False show ?thesis
        by (intro exI [of _ 3]) (simp add: got_line_def dispatchEvent_def numeral_3_eq_3)
    next
      case OPEN
      with r blank False show ?thesis
        by (intro exI [of _ 2]) (simp add: got_line_def dispatchEvent_def numeral_2_eq_2)
    next
      case CLOSED
      with r blank False show ?thesis
        by (intro exI [of _ 1]) (simp add: got_line_def dispatchEvent_def)
    qed
  qed
qed

lemma outer_simps [simp]:
  "outer [] = []" "outer (Got l # ms) = Got l # outer ms" "outer (Lost e # ms) = Lost e # outer ms"
  "outer (Closing # ms) = Closing # outer ms" "outer (Fetched f # ms) = Fetched f # outer ms"
  "outer (replicate n Go) = []" "outer (ms @ ns) = outer ms @ outer ns"
  by (simp_all add: outer_def)

lemma lines_steps:
  "run_lines r ins = Ret (r', calls) \<Longrightarrow>
   \<exists>ms. outer ms = map input_move ins \<and>
     forever_run (Parsing (sr_eventType r) (sr_dataBuffer r), sr_es r) ms =
       Some ((Parsing (sr_eventType r') (sr_dataBuffer r'), sr_es r'), calls)"
proof (induction r ins arbitrary: r' calls rule: run_lines.induct)
  case (1 r)
  then show ?case by (intro exI [of _ "[]"]) simp
next
  case (2 r ins)
  from "2.IH" [of r' calls] "2.prems" obtain ms where "outer ms = map input_move ins"
    "forever_run (Parsing (sr_eventType r) (sr_dataBuffer r), Close (sr_es r)) ms =
      Some ((Parsing (sr_eventType r') (sr_dataBuffer r'), sr_es r'), calls)" by auto
  then show ?case by (intro exI [of _ "Closing # ms"]) simp
next
  case (3 r l ins)
  from "3.prems" obtain r1 c1 c2 where p: "process_line r l = Ret (r1, c1)"
    and l: "run_lines r1 ins = Ret (r', c2)" and c: "calls = c1 @ c2" by (auto simp: go_run)
  from "3.IH" [OF p refl l] obtain ms where ms: "outer ms = map input_move ins"
    "forever_run (Parsing (sr_eventType r1) (sr_dataBuffer r1), sr_es r1) ms =
      Some ((Parsing (sr_eventType r') (sr_dataBuffer r'), sr_es r'), c2)" by blast
  have "process_line \<lparr>sr_es = sr_es r, sr_eventType = sr_eventType r, sr_dataBuffer = sr_dataBuffer r\<rparr> l = Ret (r1, c1)"
    using p by (cases r) simp
  from line_steps [OF this] obtain n where
    "forever_run (Parsing (sr_eventType r) (sr_dataBuffer r), sr_es r) (Got l # replicate n Go) =
      Some ((Parsing (sr_eventType r1) (sr_dataBuffer r1), sr_es r1), c1)" by blast
  with ms c show ?case
    by (intro exI [of _ "(Got l # replicate n Go) @ ms"])
      (simp only: forever_run_append option.case prod.case option.map, simp)
qed

text \<open>What the network does in a connection.\<close>

fun connection_moves :: "connection \<Rightarrow> move list" where
  "connection_moves (RequestError err) = [Fetched (NoRequest err)]"
| "connection_moves (ConnectError err) = [Fetched (NoConnection err)]"
| "connection_moves (Response status ins err) =
     Fetched (Status status) # (if status = 200 then map input_move ins @ [Lost err] else [])"

text \<open>Every connection of \<open>Run\<close> that returns is one of the steps, with the same result and calls.\<close>

theorem Run_steps:
  assumes "Run es conn = Ret (es', calls)"
  shows "\<exists>ms. outer ms = connection_moves conn \<and> forever_run (Fetching, es) ms = Some ((Testing, es'), calls)"
proof (cases "\<exists>ins err. conn = Response 200 ins err")
  case True
  then obtain ins err where conn: "conn = Response 200 ins err" by blast
  let ?open = "case es_onOpen es of Some cb \<Rightarrow> [CallOnOpen cb ''open'' ''Connected.''] | None \<Rightarrow> []"
  from assms conn obtain r c where r: "run_lines \<lparr>sr_es = es, sr_eventType = [], sr_dataBuffer = []\<rparr> ins = Ret (r, c)"
    and es': "es' = sr_es r" "calls = ?open @ c @ on_error (sr_es r) err" by (auto simp: Run_def go_run)
  from lines_steps [OF r] obtain ms where ms: "outer ms = map input_move ins"
    "forever_run (Parsing [] [], es) ms = Some ((Parsing (sr_eventType r) (sr_dataBuffer r), sr_es r), c)" by auto
  have "forever_run (Fetching, es) (Fetched (Status 200) # ms @ [Lost err]) = Some ((Testing, es'), calls)"
    using ms(2) es' by (simp add: fetched_def forever_run_append)
  with ms(1) conn show ?thesis by (intro exI [of _ "Fetched (Status 200) # ms @ [Lost err]"]) simp
next
  case False
  then have "outer (connection_moves conn) = connection_moves conn \<and>
      forever_run (Fetching, es) (connection_moves conn) = Some ((Testing, es'), calls)"
    using assms by (cases conn) (auto simp: Run_def fetched_def)
  then show ?thesis by blast
qed

theorem Run_steps_witness:
  "\<exists>ms. outer ms = [Fetched (NoConnection ''refused'')] \<and>
     forever_run (Fetching, marathon_source) ms =
       Some ((Testing, marathon_source), [CallOnError ''onError'' ''error'' ''refused''])"
  using Run_steps [of marathon_source "ConnectError ''refused''" marathon_source]
  by (simp add: Run_def on_error_def marathon_source_def)

section \<open>After a Close\<close>

text \<open>The two windows in which a \<open>Close\<close> is lost: the state has been tested but not yet assigned.\<close>

fun in_window :: "phase \<Rightarrow> bool" where
  "in_window (Opening et data) = True"
| "in_window Resetting = True"
| "in_window pc = False"

text \<open>The steps that are left to a closed goroutine, apart from further lines of its connection.\<close>

fun steps_left :: "phase \<Rightarrow> nat" where
  "steps_left Pausing = 4"
| "steps_left Fetching = 3"
| "steps_left (Switching et data) = 3"
| "steps_left (Calling et data) = 3"
| "steps_left (Parsing et data) = 2"
| "steps_left Testing = 1"
| "steps_left pc = 0"

definition ended :: "phase \<Rightarrow> bool" where
  "ended pc \<longleftrightarrow> pc = Ended \<or> (\<exists>p. pc = Crashed p)"

fun is_line :: "move \<Rightarrow> bool" where
  "is_line (Got l) = True"
| "is_line m = False"

fun is_fetch :: "move \<Rightarrow> bool" where
  "is_fetch (Fetched f) = True"
| "is_fetch m = False"

definition acts :: "move \<Rightarrow> bool" where
  "acts m \<longleftrightarrow> m \<noteq> Closing \<and> \<not> is_line m"

text \<open>Calls that report an event, and those that announce a reconnection.\<close>

fun event_call :: "sse_call \<Rightarrow> bool" where
  "event_call (CallHandler cb data) = True"
| "event_call (CallOnMessage cb et data) = True"
| "event_call c = False"

fun reconnects :: "sse_call \<Rightarrow> bool" where
  "reconnects (Sleep d) = True"
| "reconnects c = False"

text \<open>The connections that a closed goroutine can still make.\<close>

fun fetches_left :: "phase \<Rightarrow> nat" where
  "fetches_left Pausing = 1"
| "fetches_left Fetching = 1"
| "fetches_left pc = 0"

fun is_calling :: "phase \<Rightarrow> bool" where
  "is_calling (Calling et data) = True"
| "is_calling pc = False"

lemma Close_state [simp]: "es_readyState (Close es) = CLOSED"
  by (simp add: Close_def)

lemma process_line_closed:
  assumes "process_line r l = Ret (r', c)" and "es_readyState (sr_es r) = CLOSED"
  shows "es_readyState (sr_es r') = CLOSED"
  using process_line_ready(1) [OF assms(1)] assms(2) by simp

lemma on_error_quiet: "c \<in> set (on_error es msg) \<Longrightarrow> \<not> event_call c \<and> \<not> reconnects c"
  by (auto simp: on_error_def split: option.splits)

text \<open>One move of a closed goroutine.\<close>

lemma closed_step:
  assumes "forever_do (pc, es) m = Some ((pc', es'), calls)" and "es_readyState es = CLOSED" and "\<not> in_window pc"
  shows "es_readyState es' = CLOSED \<and> \<not> in_window pc' \<and>
    (if acts m then 1 else 0) + steps_left pc' \<le> steps_left pc + (if is_line m then 1 else 0) \<and>
    (if is_fetch m then 1 else 0) + fetches_left pc' \<le> fetches_left pc \<and>
    (is_calling pc' \<longrightarrow> is_calling pc) \<and>
    (\<forall>c\<in>set calls. \<not> reconnects c \<and> (event_call c \<longrightarrow> is_calling pc \<and> \<not> is_calling pc'))"
  using assms
proof (cases "((pc, es), m)" rule: forever_do.cases)
  case (2 e f)
  with assms show ?thesis
    by (auto simp: fetched_def acts_def dest: on_error_quiet split: fetch.splits if_splits option.splits)
next
  case (3 et data e l)
  with assms process_line_closed [of "\<lparr>sr_es = es, sr_eventType = et, sr_dataBuffer = data\<rparr>" l] show ?thesis
    by (auto simp: got_line_def acts_def split: if_splits go.splits)
next
  case (4 et data e err)
  with assms show ?thesis by (auto simp: acts_def dest: on_error_quiet)
next
  case (7 et data e)
  with assms show ?thesis by (auto simp: acts_def event_calls_def split: option.splits)
qed (auto simp: acts_def)

lemma closed_run:
  "forever_run (pc, es) ms = Some ((pc', es'), calls) \<Longrightarrow> es_readyState es = CLOSED \<Longrightarrow> \<not> in_window pc \<Longrightarrow>
   es_readyState es' = CLOSED \<and> \<not> in_window pc' \<and>
   length (filter acts ms) + steps_left pc' \<le> steps_left pc + length (filter is_line ms) \<and>
   length (filter is_fetch ms) + fetches_left pc' \<le> fetches_left pc \<and>
   (\<forall>c\<in>set calls. \<not> reconnects c \<and> (event_call c \<longrightarrow> is_calling pc))"
proof (induction ms arbitrary: pc es calls)
  case (Cons m ms)
  from Cons.prems(1) obtain pc1 es1 calls1 calls2 where 1: "forever_do (pc, es) m = Some ((pc1, es1), calls1)"
    and 2: "forever_run (pc1, es1) ms = Some ((pc', es'), calls2)" and c: "calls = calls1 @ calls2"
    by (auto split: option.splits)
  note s = closed_step [OF 1 Cons.prems(2,3)]
  with Cons.IH [OF 2] c show ?case by auto
qed auto

lemma not_ended_moves:
  "\<not> ended pc \<Longrightarrow> \<exists>m s'. acts m \<and> forever_do (pc, es) m = Some s'"
proof (cases pc)
  case Fetching
  then show ?thesis by (intro exI [of _ "Fetched (Status 200)"] exI [of _ "fetched es (Status 200)"]) (simp add: acts_def)
next
  case (Parsing et data)
  then show ?thesis by (intro exI [of _ "Lost []"]) (simp add: acts_def)
qed (auto simp: ended_def acts_def intro: exI [of _ Go])

lemma window_loses:
  assumes "in_window pc"
  shows "\<exists>pc' calls. forever_do (pc, Close es) Go = Some ((pc', es\<lparr>es_readyState :=
      (if pc = Resetting then CONNECTING else OPEN)\<rparr>), calls)"
  using assms by (cases pc) (simp_all add: Close_def)

text \<open>
  C35. What a \<open>Close\<close> does to \<open>RunForever\<close>, wherever its goroutine is. If the goroutine is not between
  a test of the state and the assignment that follows it, the state stays \<open>CLOSED\<close> for ever and the
  goroutine ends: from then on it makes at most four steps of its own and one for each further line of
  its connection, until it has ended, and it is never stuck before (but nothing wakes it: it finishes
  the pause and the connection that are under way, and after a pause it makes one more connection).
  It never sleeps again, and it reports no event but the one whose callback it was about to make. If
  it is in one of the two windows, its next step overwrites the state and the \<open>Close\<close> is lost.
\<close>

theorem Close_ends_RunForever:
  "if in_window pc
   then \<exists>pc' calls. forever_do (pc, Close es) Go =
     Some ((pc', es\<lparr>es_readyState := (if pc = Resetting then CONNECTING else OPEN)\<rparr>), calls)
   else \<forall>ms pc' es' calls. forever_run (pc, Close es) ms = Some ((pc', es'), calls) \<longrightarrow>
     es_readyState es' = CLOSED \<and>
     length (filter acts ms) \<le> 4 + length (filter is_line ms) \<and>
     (\<not> ended pc' \<longrightarrow> (\<exists>m s. acts m \<and> forever_do (pc', es') m = Some s)) \<and>
     length (filter is_fetch ms) \<le> (if pc = Pausing \<or> pc = Fetching then 1 else 0) \<and>
     (\<forall>c\<in>set calls. \<not> reconnects c \<and> (event_call c \<longrightarrow> is_calling pc))"
proof (cases "in_window pc")
  case True
  with window_loses [OF True] show ?thesis by simp
next
  case False
  have "steps_left pc \<le> 4" by (cases pc) auto
  moreover have "fetches_left pc = (if pc = Pausing \<or> pc = Fetching then 1 else 0)" by (cases pc) auto
  ultimately show ?thesis
    using False closed_run [of pc "Close es"] not_ended_moves by (fastforce simp del: forever_run.simps)
qed

text \<open>A \<open>Close\<close> during the pause: one more connection, then the end; and one that is lost.\<close>

theorem Close_ends_RunForever_witness:
  "forever_run (Pausing, Close marathon_source)
     [Go, Fetched (Status 200), Got ''event: x\<newline>'', Got ''\<newline>'', Go, Lost ''EOF'', Go] =
     Some ((Ended, Close marathon_source), [CallOnError ''onError'' ''error'' ''EOF'']) \<and>
   length (filter acts [Go, Fetched (Status 200), Got ''event: x\<newline>'', Got ''\<newline>'', Go, Lost ''EOF'', Go]) \<le> 6 \<and>
   (\<exists>pc' calls. forever_do (Resetting, Close marathon_source) Go =
     Some ((pc', marathon_source\<lparr>es_readyState := CONNECTING\<rparr>), calls))"
proof -
  let ?ms = "[Go, Fetched (Status 200), Got ''event: x\<newline>'', Got ''\<newline>'', Go, Lost ''EOF'', Go]"
  have r: "forever_run (Pausing, Close marathon_source) ?ms =
     Some ((Ended, Close marathon_source), [CallOnError ''onError'' ''error'' ''EOF''])"
    by (simp add: fetched_def got_line_def is_blank_def trim_str_def trim_left_def process_line_def parse_field_def
        contains_ch_def go_nth_def set_field_def marathon_source_def NewEventSource_def Close_def on_error_def
        numeral_2_eq_2)
  from Close_ends_RunForever [of Pausing marathon_source] r
  have "length (filter acts ?ms) \<le> 4 + length (filter is_line ?ms)" by (simp only: in_window.simps if_False)
  with r Close_ends_RunForever [of Resetting marathon_source] show ?thesis by simp
qed

text \<open>Without a \<open>Close\<close> the loop never ends by itself: a failed connection is followed by a pause and
  by another connection.\<close>

lemma RunForever_retries:
  assumes "es_readyState es \<noteq> CLOSED"
  shows "forever_run (RunForever es) [Fetched (NoConnection err), Go, Go, Go] =
    Some ((Fetching, es\<lparr>es_readyState := CONNECTING\<rparr>),
      on_error es err @ on_error es ''Reconnecting'' @ reconnect_pause es)"
  using assms by (simp add: RunForever_def fetched_def)

end
