(* ===== verification/Udp_Proxy.thy ===== *)
theory Udp_Proxy
  imports Go_Base
begin

text \<open>
  The package src/udpproxy: backends, frontends with their two schedulers, and the proxy that
  keeps frontends by address. A pointer to a backend is its position in the frontend's list
  (backends are only appended, and removed all at once by \<open>RemoveUntouched\<close>). The operating
  system is represented by the list of bound UDP addresses, which \<open>ListenUDP\<close> extends and
  \<open>Close\<close> shrinks, and by the record \<open>udp_env\<close>: the result of \<open>ResolveUDPAddr\<close> and the
  addresses that cannot be bound for another reason.

  The goroutines that pass datagrams on (\<open>Serve\<close>, the schedulers, and \<open>Send\<close> up to its write) are in
  \<open>Udp_Schedule\<close>, those that read the responses, and the serving of the proxy, in \<open>Udp_Serve\<close>.
  \<open>send_replies\<close> here is what \<open>Send\<close> passes back. The log is not modelled.

  The locale \<open>backend_pool\<close> is the contract by which the UDP manager synchronises the backends
  of a frontend: clear the touch marks, add and touch, remove the untouched.
\<close>

datatype scheduler = RoundRobin | Multicast | OtherScheduler int

record udp_env =
  ue_resolve :: "string \<Rightarrow> string option"
  ue_refused :: "string \<Rightarrow> bool"

type_synonym sockets = "string list"

record backend =
  be_name :: string
  be_addr :: string
  be_sent :: uint
  be_recv :: uint
  be_touched :: bool

record frontend =
  fe_name :: string
  fe_addr :: string
  fe_scheduler :: scheduler
  fe_backends :: "backend list"
  fe_timeout :: int

definition scheduler_str :: "scheduler \<Rightarrow> string" where
  "scheduler_str s =
     (case s of RoundRobin \<Rightarrow> ''RoundRobin'' | Multicast \<Rightarrow> ''Multicast'' | OtherScheduler n \<Rightarrow> int_str n)"

text \<open>\<open>Backend.String\<close> and \<open>Frontend.String\<close>; the verb \<open>%v\<close> prints a slice in brackets, separated by blanks.\<close>

definition backend_str :: "backend \<Rightarrow> string" where
  "backend_str be = be_name be @ '': '' @ be_addr be"

definition frontend_str :: "frontend \<Rightarrow> string" where
  "frontend_str fe =
     (let sched = (case fe_scheduler fe of RoundRobin \<Rightarrow> ''RR'' | Multicast \<Rightarrow> ''MC'' | OtherScheduler n \<Rightarrow> ''unknown'') in
      ''Frontend{'' @ fe_name fe @ '', '' @ fe_addr fe @ '', '' @ sched @ '', ['' @
      join_str '' '' (map backend_str (fe_backends fe)) @ '']}'')"

section \<open>Backends\<close>

definition NewBackend :: "udp_env \<Rightarrow> string \<Rightarrow> string \<Rightarrow> go_error + backend" where
  "NewBackend ue name addr =
     (case ue_resolve ue addr of
        None \<Rightarrow> Inl ''resolve''
      | Some beAddr \<Rightarrow>
          Inr \<lparr>be_name = name, be_addr = beAddr, be_sent = 0, be_recv = 0, be_touched = False\<rparr>)"

definition Touch :: "backend \<Rightarrow> backend" where
  "Touch be = be\<lparr>be_touched := True\<rparr>"

datatype reply = Reply string | ReadError string

definition bufSize :: nat where
  "bufSize = 16 * 1024"

text \<open>
  The reading loop of \<open>Send\<close>: every datagram that arrives in time is passed on, cut to the
  buffer; a failed read leaves no reader, so nothing more arrives until the timeout.
\<close>

fun send_replies :: "reply list \<Rightarrow> string list" where
  "send_replies [] = []"
| "send_replies (Reply msg # rs) = take bufSize msg # send_replies rs"
| "send_replies (ReadError e # rs) = []"

section \<open>Frontends\<close>

definition ListenUDP :: "udp_env \<Rightarrow> sockets \<Rightarrow> string \<Rightarrow> (go_error + unit) \<times> sockets" where
  "ListenUDP ue socks addr =
     (if addr \<in> set socks \<or> ue_refused ue addr then (Inl ''listen'', socks) else (Inr (), addr # socks))"

definition NewFrontend :: "udp_env \<Rightarrow> sockets \<Rightarrow> string \<Rightarrow> string \<Rightarrow> scheduler
    \<Rightarrow> (go_error + frontend) \<times> sockets" where
  "NewFrontend ue socks name addr sched =
     (case ue_resolve ue addr of
        None \<Rightarrow> (Inl ''resolve'', socks)
      | Some udpaddr \<Rightarrow>
         (case ListenUDP ue socks udpaddr of
            (Inl err, socks') \<Rightarrow> (Inl err, socks')
          | (Inr _, socks') \<Rightarrow>
              (Inr \<lparr>fe_name = name, fe_addr = udpaddr, fe_scheduler = sched, fe_backends = [],
                    fe_timeout = 1000000000\<rparr>, socks')))"

definition CloseFrontend :: "frontend \<Rightarrow> sockets \<Rightarrow> sockets" where
  "CloseFrontend fe socks = removeAll (fe_addr fe) socks"

definition ClearTouch :: "frontend \<Rightarrow> frontend" where
  "ClearTouch fe = fe\<lparr>fe_backends := map (\<lambda>be. be\<lparr>be_touched := False\<rparr>) (fe_backends fe)\<rparr>"

definition RemoveUntouched :: "frontend \<Rightarrow> frontend" where
  "RemoveUntouched fe = fe\<lparr>fe_backends := filter be_touched (fe_backends fe)\<rparr>"

fun find_backend :: "backend list \<Rightarrow> string \<Rightarrow> nat option" where
  "find_backend [] name = None"
| "find_backend (be # bes) name =
     (if be_name be = name then Some 0 else map_option Suc (find_backend bes name))"

definition AddBackend :: "udp_env \<Rightarrow> frontend \<Rightarrow> string \<Rightarrow> string \<Rightarrow> (go_error + nat) \<times> frontend" where
  "AddBackend ue fe name addr =
     (case find_backend (fe_backends fe) name of
        Some i \<Rightarrow> (Inr i, fe)
      | None \<Rightarrow>
         (case NewBackend ue name addr of
            Inl err \<Rightarrow> (Inl err, fe)
          | Inr be \<Rightarrow> (Inr (length (fe_backends fe)), fe\<lparr>fe_backends := fe_backends fe @ [be]\<rparr>)))"

definition touch_at :: "frontend \<Rightarrow> nat \<Rightarrow> frontend" where
  "touch_at fe i = fe\<lparr>fe_backends := (fe_backends fe)[i := Touch (fe_backends fe ! i)]\<rparr>"

section \<open>The contract of a pool of backends\<close>

definition sync_pool :: "('f \<Rightarrow> 'f) \<Rightarrow> ('f \<Rightarrow> string \<Rightarrow> string \<Rightarrow> (go_error + nat) \<times> 'f)
    \<Rightarrow> ('f \<Rightarrow> nat \<Rightarrow> 'f) \<Rightarrow> ('f \<Rightarrow> 'f) \<Rightarrow> 'f \<Rightarrow> (string \<times> string) list \<Rightarrow> 'f" where
  "sync_pool clear add touch sweep f ps =
     sweep (foldl (\<lambda>f (n, a). case add f n a of (Inr i, f') \<Rightarrow> touch f' i | (Inl e, f') \<Rightarrow> f')
              (clear f) ps)"

locale backend_pool =
  fixes clear :: "'f \<Rightarrow> 'f"
    and add :: "'f \<Rightarrow> string \<Rightarrow> string \<Rightarrow> (go_error + nat) \<times> 'f"
    and touch :: "'f \<Rightarrow> nat \<Rightarrow> 'f"
    and sweep :: "'f \<Rightarrow> 'f"
    and live :: "'f \<Rightarrow> (string \<times> bool) list"
    and usable :: "string \<Rightarrow> bool"
  assumes live_clear: "live (clear f) = map (\<lambda>(n, _). (n, False)) (live f)"
    and add_known: "n \<in> fst ` set (live f) \<Longrightarrow>
      \<exists>i. add f n a = (Inr i, f) \<and> i < length (live f) \<and> fst (live f ! i) = n"
    and add_new: "n \<notin> fst ` set (live f) \<Longrightarrow> usable a \<Longrightarrow>
      \<exists>f'. add f n a = (Inr (length (live f)), f') \<and> live f' = live f @ [(n, False)]"
    and add_fail: "n \<notin> fst ` set (live f) \<Longrightarrow> \<not> usable a \<Longrightarrow> \<exists>e. add f n a = (Inl e, f)"
    and live_touch: "i < length (live f) \<Longrightarrow>
      live (touch f i) = (live f)[i := (fst (live f ! i), True)]"
    and live_sweep: "live (sweep f) = filter snd (live f)"
begin

text \<open>One turn of the loop: the name is known afterwards, and marked, unless it cannot be added.\<close>

lemma add_touch_step:
  assumes d: "distinct (map fst (live f))"
    and s: "f2 = (case add f n a of (Inr i, f') \<Rightarrow> touch f' i | (Inl e, f') \<Rightarrow> f')"
  shows "distinct (map fst (live f2)) \<and>
    fst ` set (live f2) = fst ` set (live f) \<union> (if n \<in> fst ` set (live f) \<or> usable a then {n} else {}) \<and>
    {m. (m, True) \<in> set (live f2)} =
      {m. (m, True) \<in> set (live f)} \<union> (if n \<in> fst ` set (live f) \<or> usable a then {n} else {})"
proof -
  consider (known) "n \<in> fst ` set (live f)" | (new) "n \<notin> fst ` set (live f)" "usable a"
    | (fail) "n \<notin> fst ` set (live f)" "\<not> usable a" by blast
  then show ?thesis
  proof cases
    case known
    from add_known [OF this] obtain i where i: "add f n a = (Inr i, f)" "i < length (live f)"
      "fst (live f ! i) = n" by blast
    let ?l = "live f"
    have l2: "live f2 = ?l[i := (n, True)]" using i s live_touch by simp
    have names: "map fst (live f2) = map fst ?l"
      using i(2,3) by (simp add: l2 map_update list_update_same_conv)
    have marked: "(m, True) \<in> set (?l[i := (n, True)]) \<longleftrightarrow> (m, True) \<in> set ?l \<or> m = n" for m
    proof
      assume "(m, True) \<in> set (?l[i := (n, True)])"
      then show "(m, True) \<in> set ?l \<or> m = n"
        using set_update_subset_insert [of ?l i "(n, True)"] by auto
    next
      assume "(m, True) \<in> set ?l \<or> m = n"
      then show "(m, True) \<in> set (?l[i := (n, True)])"
      proof
        assume "(m, True) \<in> set ?l"
        then obtain j where j: "j < length ?l" "?l ! j = (m, True)" by (metis in_set_conv_nth)
        show ?thesis
        proof (cases "j = i")
          case True
          with j i have "m = n" by simp
          with i(2) show ?thesis by (metis set_update_memI)
        next
          case False
          with j show ?thesis by (metis in_set_conv_nth length_list_update nth_list_update_neq)
        qed
      next
        assume "m = n"
        with i(2) show ?thesis by (metis set_update_memI)
      qed
    qed
    have imgs: "fst ` set (live f2) = fst ` set ?l"
      using names by (metis set_map)
    have "{m. (m, True) \<in> set (live f2)} = {m. (m, True) \<in> set ?l} \<union> {n}"
      using marked by (auto simp: l2)
    with known d show ?thesis by (simp add: names imgs insert_absorb)
  next
    case new
    from add_new [OF this] obtain f' where f': "add f n a = (Inr (length (live f)), f')"
      "live f' = live f @ [(n, False)]" by blast
    then have "live f2 = live f @ [(n, True)]"
      using s live_touch [of "length (live f)" f'] by simp
    with new d show ?thesis by auto
  next
    case fail
    from add_fail [OF this] s have "f2 = f" by auto
    with fail d show ?thesis by auto
  qed
qed

lemma add_touch_fold:
  assumes "distinct (map fst (live f))"
    and "f2 = foldl (\<lambda>f (n, a). case add f n a of (Inr i, f') \<Rightarrow> touch f' i | (Inl e, f') \<Rightarrow> f') f ps"
  shows "distinct (map fst (live f2)) \<and>
    {m. (m, True) \<in> set (live f2)} = {m. (m, True) \<in> set (live f)} \<union>
      {n. \<exists>a. (n, a) \<in> set ps \<and> (n \<in> fst ` set (live f) \<or> usable a)}"
  using assms
proof (induction ps arbitrary: f)
  case (Cons p ps)
  obtain n a where p: "p = (n, a)" by (cases p)
  define f1 where "f1 = (case add f n a of (Inr i, f') \<Rightarrow> touch f' i | (Inl e, f') \<Rightarrow> f')"
  note step = add_touch_step [OF Cons.prems(1) f1_def]
  have "f2 = foldl (\<lambda>f (n, a). case add f n a of (Inr i, f') \<Rightarrow> touch f' i | (Inl e, f') \<Rightarrow> f') f1 ps"
    using Cons.prems(2) by (simp add: p f1_def)
  note IH = Cons.IH [OF conjunct1 [OF step] this]
  define N N1 where "N = fst ` set (live f)" and "N1 = fst ` set (live f1)"
  show ?case
  proof (cases "n \<in> N \<or> usable a")
    case True
    with step have N1: "N1 = insert n N" and
      M1: "{m. (m, True) \<in> set (live f1)} = insert n {m. (m, True) \<in> set (live f)}"
      by (auto simp: N_def N1_def)
    have "{m. \<exists>b. (m, b) \<in> set (p # ps) \<and> (m \<in> N \<or> usable b)} =
        insert n {m. \<exists>b. (m, b) \<in> set ps \<and> (m \<in> N \<or> usable b)}"
      using True by (auto simp: p)
    moreover have "insert n {m. \<exists>b. (m, b) \<in> set ps \<and> (m \<in> N1 \<or> usable b)} =
        insert n {m. \<exists>b. (m, b) \<in> set ps \<and> (m \<in> N \<or> usable b)}"
      by (auto simp: N1)
    ultimately show ?thesis using IH M1 unfolding N_def [symmetric] N1_def [symmetric]
      by (simp flip: Un_insert_right)
  next
    case False
    with step have N1: "N1 = N" and
      M1: "{m. (m, True) \<in> set (live f1)} = {m. (m, True) \<in> set (live f)}"
      by (auto simp: N_def N1_def)
    have "{m. \<exists>b. (m, b) \<in> set (p # ps) \<and> (m \<in> N \<or> usable b)} =
        {m. \<exists>b. (m, b) \<in> set ps \<and> (m \<in> N \<or> usable b)}"
      using False by (auto simp: p)
    then show ?thesis using IH M1 N1 unfolding N_def [symmetric] N1_def [symmetric] by simp
  qed
qed auto

text \<open>
  After a synchronisation the pool holds exactly the wanted names that it had before or that
  could be added, each once.
\<close>

lemma sync_names:
  assumes "distinct (map fst (live f))"
  shows "distinct (map fst (live (sync_pool clear add touch sweep f ps))) \<and>
    fst ` set (live (sync_pool clear add touch sweep f ps)) =
      {n. \<exists>a. (n, a) \<in> set ps \<and> (n \<in> fst ` set (live f) \<or> usable a)}"
proof -
  let ?f2 = "foldl (\<lambda>f (n, a). case add f n a of (Inr i, f') \<Rightarrow> touch f' i | (Inl e, f') \<Rightarrow> f') (clear f) ps"
  have fst_clear: "map fst (live (clear f)) = map fst (live f)"
    by (simp add: live_clear split_def comp_def)
  then have names: "fst ` set (live (clear f)) = fst ` set (live f)"
    by (metis set_map)
  have none: "{m. (m, True) \<in> set (live (clear f))} = {}" by (auto simp: live_clear)
  from add_touch_fold [of "clear f" ?f2 ps] assms fst_clear names none
  have "distinct (map fst (live ?f2))" and marked: "{m. (m, True) \<in> set (live ?f2)} =
      {n. \<exists>a. (n, a) \<in> set ps \<and> (n \<in> fst ` set (live f) \<or> usable a)}" by simp_all
  moreover have "fst ` set (filter snd (live ?f2)) = {m. (m, True) \<in> set (live ?f2)}"
    by force
  ultimately show ?thesis
    by (auto simp: sync_pool_def live_sweep intro: distinct_map_filter)
qed

end

definition fe_live :: "frontend \<Rightarrow> (string \<times> bool) list" where
  "fe_live fe = map (\<lambda>be. (be_name be, be_touched be)) (fe_backends fe)"

definition fe_names :: "frontend \<Rightarrow> string list" where
  "fe_names fe = map be_name (fe_backends fe)"

lemma find_backend_Some:
  "find_backend bes n = Some i \<Longrightarrow> i < length bes \<and> be_name (bes ! i) = n"
  by (induction bes arbitrary: i) (auto split: if_splits)

lemma find_backend_None: "find_backend bes n = None \<longleftrightarrow> n \<notin> be_name ` set bes"
  by (induction bes) auto

lemma fst_fe_live: "fst ` set (fe_live fe) = be_name ` set (fe_backends fe)"
  by (force simp: fe_live_def)

interpretation pool: backend_pool ClearTouch "AddBackend ue" touch_at RemoveUntouched fe_live
    "\<lambda>a. ue_resolve ue a \<noteq> None" for ue
proof
  fix f n a
  show "fe_live (ClearTouch f) = map (\<lambda>(n, _). (n, False)) (fe_live f)"
    by (simp add: fe_live_def ClearTouch_def comp_def)
  show "\<exists>i. AddBackend ue f n a = (Inr i, f) \<and> i < length (fe_live f) \<and> fst (fe_live f ! i) = n"
    if "n \<in> fst ` set (fe_live f)"
  proof -
    from that have "find_backend (fe_backends f) n \<noteq> None"
      by (simp add: fst_fe_live find_backend_None)
    then obtain i where "find_backend (fe_backends f) n = Some i" by auto
    with find_backend_Some [OF this] show ?thesis by (simp add: AddBackend_def fe_live_def)
  qed
  show "\<exists>f'. AddBackend ue f n a = (Inr (length (fe_live f)), f') \<and> fe_live f' = fe_live f @ [(n, False)]"
    if "n \<notin> fst ` set (fe_live f)" and "ue_resolve ue a \<noteq> None"
    using that by (auto simp: fst_fe_live simp flip: find_backend_None)
      (auto simp: AddBackend_def NewBackend_def fe_live_def)
  show "\<exists>e. AddBackend ue f n a = (Inl e, f)"
    if "n \<notin> fst ` set (fe_live f)" and "\<not> ue_resolve ue a \<noteq> None"
    using that by (auto simp: fst_fe_live simp flip: find_backend_None)
      (auto simp: AddBackend_def NewBackend_def fe_live_def)
  show "fe_live (touch_at f i) = (fe_live f)[i := (fst (fe_live f ! i), True)]"
    if "i < length (fe_live f)" for i
    using that by (simp add: fe_live_def touch_at_def Touch_def map_update)
  show "fe_live (RemoveUntouched f) = filter snd (fe_live f)"
    by (simp add: fe_live_def RemoveUntouched_def filter_map comp_def)
qed

text \<open>The synchronisation as the UDP manager runs it on a frontend.\<close>

definition sync_frontend :: "udp_env \<Rightarrow> frontend \<Rightarrow> (string \<times> string) list \<Rightarrow> frontend" where
  "sync_frontend ue = sync_pool ClearTouch (AddBackend ue) touch_at RemoveUntouched"

lemma map_fst_fe_live: "map fst (fe_live fe) = fe_names fe"
  by (simp add: fe_live_def fe_names_def)

lemma sync_frontend_names:
  assumes "distinct (fe_names fe)"
  shows "distinct (fe_names (sync_frontend ue fe ps)) \<and>
    set (fe_names (sync_frontend ue fe ps)) =
      {n. \<exists>a. (n, a) \<in> set ps \<and> (n \<in> set (fe_names fe) \<or> ue_resolve ue a \<noteq> None)}"
  using pool.sync_names [of fe ue ps] assms unfolding sync_frontend_def
  by (simp add: map_fst_fe_live flip: set_map)

section \<open>Examples\<close>

definition mk_backend :: "string \<Rightarrow> string \<Rightarrow> backend" where
  "mk_backend name addr =
     \<lparr>be_name = name, be_addr = addr, be_sent = 0, be_recv = 0, be_touched = True\<rparr>"

definition two_backends :: frontend where
  "two_backends =
     \<lparr>fe_name = ''dns'', fe_addr = ''0.0.0.0:53'', fe_scheduler = RoundRobin,
      fe_backends = [mk_backend ''a'' ''10.0.0.1:53'', mk_backend ''b'' ''10.0.0.2:53''],
      fe_timeout = 1000000000\<rparr>"

section \<open>Proxy\<close>

type_synonym proxy = "(string, frontend) gomap"

definition NewProxy :: proxy where
  "NewProxy = gm_make"

definition AddFrontend :: "udp_env \<Rightarrow> proxy \<Rightarrow> sockets \<Rightarrow> string \<Rightarrow> string \<Rightarrow> scheduler
    \<Rightarrow> ((go_error + frontend) \<times> proxy \<times> sockets) go" where
  "AddFrontend ue px socks name addr sched =
     (case NewFrontend ue socks name addr sched of
        (Inl err, socks') \<Rightarrow> Ret (Inl err, px, socks')
      | (Inr fe, socks') \<Rightarrow> go_bind (gm_put px addr fe) (\<lambda>px'. Ret (Inr fe, px', socks')))"

definition AddOrReplaceFrontend :: "udp_env \<Rightarrow> proxy \<Rightarrow> sockets \<Rightarrow> string \<Rightarrow> string \<Rightarrow> scheduler
    \<Rightarrow> ((go_error + frontend) \<times> proxy \<times> sockets) go" where
  "AddOrReplaceFrontend ue px socks name addr sched =
     (case gm_get px addr of
        Some fe \<Rightarrow> AddFrontend ue (gm_delete px addr) (CloseFrontend fe socks) name addr sched
      | None \<Rightarrow> AddFrontend ue px socks name addr sched)"

text \<open>
  Every frontend of the proxy owns a socket of its own: it listens on the address its key
  resolves to, and no two frontends listen on the same one.
\<close>

definition proxy_ok :: "udp_env \<Rightarrow> proxy \<Rightarrow> sockets \<Rightarrow> bool" where
  "proxy_ok ue px socks \<longleftrightarrow> px \<noteq> None \<and> distinct socks \<and>
     (\<forall>a fe. gm_get px a = Some fe \<longrightarrow> ue_resolve ue a = Some (fe_addr fe) \<and> fe_addr fe \<in> set socks) \<and>
     (\<forall>a b fe ge. gm_get px a = Some fe \<longrightarrow> gm_get px b = Some ge \<longrightarrow> fe_addr fe = fe_addr ge \<longrightarrow> a = b)"

lemma proxy_okD:
  "proxy_ok ue px socks \<Longrightarrow> gm_get px a = Some fe \<Longrightarrow>
   ue_resolve ue a = Some (fe_addr fe) \<and> fe_addr fe \<in> set socks \<and> px \<noteq> None"
  unfolding proxy_ok_def by blast

lemma proxy_ok_inj:
  "proxy_ok ue px socks \<Longrightarrow> gm_get px a = Some fe \<Longrightarrow> gm_get px b = Some ge \<Longrightarrow>
   fe_addr fe = fe_addr ge \<Longrightarrow> a = b"
  unfolding proxy_ok_def by blast

lemma proxy_ok_new: "distinct socks \<Longrightarrow> proxy_ok ue NewProxy socks"
  by (simp add: proxy_ok_def NewProxy_def)

lemma NewFrontend_Inr:
  "NewFrontend ue socks name addr sched = (Inr fe, socks') \<Longrightarrow>
     ue_resolve ue addr = Some (fe_addr fe) \<and> fe_addr fe \<notin> set socks \<and>
     socks' = fe_addr fe # socks \<and> fe_name fe = name \<and> fe_backends fe = [] \<and> fe_scheduler fe = sched"
  by (auto simp: NewFrontend_def ListenUDP_def split: option.splits if_splits)

lemma NewFrontend_Inl: "NewFrontend ue socks name addr sched = (Inl err, socks') \<Longrightarrow> socks' = socks"
  by (auto simp: NewFrontend_def ListenUDP_def split: option.splits if_splits)

lemma proxy_ok_AddFrontend:
  assumes "proxy_ok ue px socks" and "AddFrontend ue px socks name addr sched = Ret (res, px', socks')"
  shows "proxy_ok ue px' socks'"
proof (cases "NewFrontend ue socks name addr sched")
  case (Pair r s)
  show ?thesis
  proof (cases r)
    case (Inl err)
    with Pair have "s = socks" using NewFrontend_Inl by blast
    with Inl Pair assms show ?thesis by (auto simp: AddFrontend_def)
  next
    case (Inr fe)
    with Pair assms(2) obtain q where q: "gm_put px addr fe = Ret q" "px' = q" "socks' = s"
      by (auto simp: AddFrontend_def go_run)
    from NewFrontend_Inr [OF Pair [unfolded Inr]] have
      n: "ue_resolve ue addr = Some (fe_addr fe)" "fe_addr fe \<notin> set socks" "s = fe_addr fe # socks"
      by auto
    have fresh: "fe_addr ge \<noteq> fe_addr fe" if "gm_get px a = Some ge" for a ge
      using proxy_okD [OF assms(1) that] n(2) by auto
    have get: "gm_get px' = (gm_get px)(addr \<mapsto> fe)" and nil: "px' \<noteq> None"
      using gm_get_put [OF q(1)] gm_put_not_nil [OF q(1)] q(2) by auto
    have "distinct socks'" using assms(1) n(2,3) q(3) by (simp add: proxy_ok_def)
    moreover have "ue_resolve ue a = Some (fe_addr ge) \<and> fe_addr ge \<in> set socks'"
      if "gm_get px' a = Some ge" for a ge
      using that n q(3) proxy_okD [OF assms(1), of a ge] by (auto simp: get split: if_splits)
    moreover have "a = b" if "gm_get px' a = Some f" "gm_get px' b = Some g" "fe_addr f = fe_addr g"
      for a b f g
      using that fresh [of a f] fresh [of b g] proxy_ok_inj [OF assms(1)]
      by (auto simp: get split: if_splits)
    ultimately show ?thesis using nil unfolding proxy_ok_def by blast
  qed
qed

lemma proxy_ok_close:
  assumes "proxy_ok ue px socks" and "gm_get px a = Some fe"
  shows "proxy_ok ue (gm_delete px a) (CloseFrontend fe socks)"
  using assms by (auto simp: proxy_ok_def CloseFrontend_def gm_get_delete distinct_removeAll split: if_splits)

text \<open>
  The proxy keeps its sockets straight: adding or replacing a frontend, whether it succeeds
  or fails, preserves that every frontend listens on its own address; replacing frees the old
  socket before it binds the new one, so it succeeds whenever the address resolves and can be
  bound, and yields a frontend without backends.
\<close>

theorem AddOrReplaceFrontend_ok:
  assumes "proxy_ok ue px socks"
  shows "(AddOrReplaceFrontend ue px socks name addr sched = Ret (res, px', socks') \<longrightarrow>
            proxy_ok ue px' socks') \<and>
    (gm_get px addr = Some old \<longrightarrow> \<not> ue_refused ue (fe_addr old) \<longrightarrow>
      (\<exists>fe px' socks'. AddOrReplaceFrontend ue px socks name addr sched = Ret (Inr fe, px', socks') \<and>
         gm_get px' addr = Some fe \<and> fe_name fe = name \<and> fe_backends fe = [] \<and>
         set socks' = set socks))"
proof (intro conjI impI)
  show "proxy_ok ue px' socks'"
    if "AddOrReplaceFrontend ue px socks name addr sched = Ret (res, px', socks')"
    using that assms
    by (auto simp: AddOrReplaceFrontend_def split: option.splits
        intro: proxy_ok_AddFrontend proxy_ok_AddFrontend [OF proxy_ok_close])
next
  assume old: "gm_get px addr = Some old" "\<not> ue_refused ue (fe_addr old)"
  from assms old(1) have r: "ue_resolve ue addr = Some (fe_addr old)" and i: "fe_addr old \<in> set socks"
    and "px \<noteq> None" using proxy_okD by blast+
  let ?fe = "\<lparr>fe_name = name, fe_addr = fe_addr old, fe_scheduler = sched, fe_backends = [],
    fe_timeout = 1000000000\<rparr>"
  have "gm_delete px addr \<noteq> None" using \<open>px \<noteq> None\<close> by simp
  from gm_put_returns [OF this, of addr ?fe] obtain q
    where q: "gm_put (gm_delete px addr) addr ?fe = Ret q" by blast
  have "NewFrontend ue (CloseFrontend old socks) name addr sched =
      (Inr ?fe, fe_addr old # CloseFrontend old socks)"
    using r old(2) by (simp add: NewFrontend_def ListenUDP_def CloseFrontend_def)
  then have "AddOrReplaceFrontend ue px socks name addr sched =
      Ret (Inr ?fe, q, fe_addr old # CloseFrontend old socks)"
    using q old(1) by (simp add: AddOrReplaceFrontend_def AddFrontend_def)
  moreover have "gm_get q addr = Some ?fe" using gm_get_put [OF q] by simp
  moreover have "set (fe_addr old # CloseFrontend old socks) = set socks"
    using i by (auto simp: CloseFrontend_def)
  ultimately show "\<exists>fe px' socks'. AddOrReplaceFrontend ue px socks name addr sched = Ret (Inr fe, px', socks') \<and>
      gm_get px' addr = Some fe \<and> fe_name fe = name \<and> fe_backends fe = [] \<and> set socks' = set socks"
    by fastforce
qed

definition example_udp :: udp_env where
  "example_udp = \<lparr>ue_resolve = (\<lambda>a. if a = ''nohost'' then None else Some a), ue_refused = (\<lambda>a. False)\<rparr>"

definition one_frontend :: proxy where
  "one_frontend = Some [(''0.0.0.0:53'', two_backends)]"

theorem AddOrReplaceFrontend_ok_witness:
  "\<exists>fe px' socks'.
     AddOrReplaceFrontend example_udp one_frontend [''0.0.0.0:53''] ''new'' ''0.0.0.0:53'' Multicast =
       Ret (Inr fe, px', socks') \<and> gm_get px' ''0.0.0.0:53'' = Some fe \<and> fe_name fe = ''new'' \<and>
     fe_backends fe = [] \<and> set socks' = set [''0.0.0.0:53'']"
proof -
  have "proxy_ok example_udp one_frontend [''0.0.0.0:53'']"
    by (auto simp: proxy_ok_def example_udp_def one_frontend_def gm_get_def two_backends_def
        split: if_splits)
  from AddOrReplaceFrontend_ok [OF this, of "''new''" "''0.0.0.0:53''" Multicast _ _ _ two_backends]
  show ?thesis by (simp add: example_udp_def one_frontend_def gm_get_def)
qed

text \<open>Adding without replacing refuses an address in use and changes nothing.\<close>

lemma AddFrontend_in_use:
  assumes "proxy_ok ue px socks" and "gm_get px addr = Some fe"
  shows "AddFrontend ue px socks name addr sched = Ret (Inl ''listen'', px, socks)"
  using assms by (auto simp: AddFrontend_def NewFrontend_def ListenUDP_def proxy_ok_def)

end
