(* ===== verification/Udp_Schedule.thy ===== *)
theory Udp_Schedule
  imports Udp_Proxy "HOL-Library.Multiset"
begin

text \<open>
  How a frontend of src/udpproxy/udpproxy.go passes datagrams on: \<open>Frontend.Serve\<close>, \<open>Multicast\<close>,
  \<open>RoundRobin\<close> and the first half of \<open>Backend.Send\<close>, up to its write. \<open>Serve\<close> starts a goroutine for
  every datagram, and \<open>Multicast\<close> one more for every backend; nothing orders them. The state holds the
  goroutines that are alive (a multiset), the counters of the backends, and the packets written to
  the network. \<open>be.MessageSentCount++\<close> is a load and a store, two steps: the goroutines race for the
  counters. What \<open>Send\<close> does with the responses is in \<open>Udp_Serve\<close>; here it is a goroutine that waits.
  The backends of the frontend are fixed meanwhile.
\<close>

section \<open>The goroutines\<close>

text \<open>
  A goroutine: \<open>RoundRobin\<close> before it picks its backend; \<open>Multicast\<close> at a position of its loop;
  \<open>Send\<close> to the backend at a position before the load of the counter, before the store of the value
  loaded plus one, before it dials, before it writes, and waiting for responses.
\<close>

datatype goroutine = RobinStart string | MulticastLoop string nat
  | SendLoad nat string | SendStore nat string uint | SendDial nat string | SendWrite nat string
  | SendReads nat

text \<open>
  Packets are pairs of an address and a payload. \<open>ns_failed\<close> has those that could not be dialled or
  written, and \<open>ns_counted\<close>, for the specification, the calls of \<open>Send\<close> that have stored their counter.
\<close>

type_synonym packet = "string \<times> string"

record net_state =
  ns_serving :: bool
  ns_crashed :: bool
  ns_received :: "string list"
  ns_pool :: "goroutine multiset"
  ns_sent :: "uint list"
  ns_wire :: "packet multiset"
  ns_failed :: "packet multiset"
  ns_counted :: "(nat \<times> string) multiset"

definition sched_start :: "frontend \<Rightarrow> net_state" where
  "sched_start fe =
     \<lparr>ns_serving = True, ns_crashed = False, ns_received = [], ns_pool = {#},
      ns_sent = map be_sent (fe_backends fe), ns_wire = {#}, ns_failed = {#}, ns_counted = {#}\<rparr>"

text \<open>The switch of \<open>Serve\<close>.\<close>

definition start_msg :: "frontend \<Rightarrow> string \<Rightarrow> goroutine multiset" where
  "start_msg fe msg =
     (case fe_scheduler fe of
        RoundRobin \<Rightarrow> {#RobinStart msg#}
      | Multicast \<Rightarrow> {#MulticastLoop msg 0#}
      | OtherScheduler n \<Rightarrow> {#})"

definition packet_to :: "frontend \<Rightarrow> nat \<Rightarrow> string \<Rightarrow> packet" where
  "packet_to fe i msg = (be_addr (fe_backends fe ! i), msg)"

inductive sched_step :: "frontend \<Rightarrow> net_state \<Rightarrow> net_state \<Rightarrow> bool" for fe where
  receive: "ns_serving s \<Longrightarrow> \<not> ns_crashed s \<Longrightarrow>
    sched_step fe s (s\<lparr>ns_received := ns_received s @ [take bufSize msg],
      ns_pool := start_msg fe (take bufSize msg) + ns_pool s\<rparr>)"
| read_fails: "ns_serving s \<Longrightarrow> sched_step fe s (s\<lparr>ns_serving := False\<rparr>)"
| robin: "ns_pool s = add_mset (RobinStart msg) P \<Longrightarrow> fe_backends fe \<noteq> [] \<Longrightarrow>
    sched_step fe s (s\<lparr>ns_pool := add_mset (SendLoad 0 msg) P\<rparr>)"
| robin_crash: "ns_pool s = add_mset (RobinStart msg) P \<Longrightarrow> fe_backends fe = [] \<Longrightarrow>
    sched_step fe s (s\<lparr>ns_crashed := True, ns_pool := {#}\<rparr>)"
| spawn: "ns_pool s = add_mset (MulticastLoop msg i) P \<Longrightarrow> i < length (fe_backends fe) \<Longrightarrow>
    sched_step fe s (s\<lparr>ns_pool := add_mset (SendLoad i msg) (add_mset (MulticastLoop msg (Suc i)) P)\<rparr>)"
| loop_end: "ns_pool s = add_mset (MulticastLoop msg i) P \<Longrightarrow> \<not> i < length (fe_backends fe) \<Longrightarrow>
    sched_step fe s (s\<lparr>ns_pool := P\<rparr>)"
| load: "ns_pool s = add_mset (SendLoad i msg) P \<Longrightarrow>
    sched_step fe s (s\<lparr>ns_pool := add_mset (SendStore i msg (ns_sent s ! i)) P\<rparr>)"
| store: "ns_pool s = add_mset (SendStore i msg n) P \<Longrightarrow>
    sched_step fe s (s\<lparr>ns_pool := add_mset (SendDial i msg) P, ns_sent := (ns_sent s)[i := n + 1],
      ns_counted := add_mset (i, msg) (ns_counted s)\<rparr>)"
| dial: "ns_pool s = add_mset (SendDial i msg) P \<Longrightarrow>
    sched_step fe s (s\<lparr>ns_pool := add_mset (SendWrite i msg) P\<rparr>)"
| dial_fails: "ns_pool s = add_mset (SendDial i msg) P \<Longrightarrow>
    sched_step fe s (s\<lparr>ns_pool := P, ns_failed := add_mset (packet_to fe i msg) (ns_failed s)\<rparr>)"
| written: "ns_pool s = add_mset (SendWrite i msg) P \<Longrightarrow>
    sched_step fe s (s\<lparr>ns_pool := (if fe_timeout fe = 0 then P else add_mset (SendReads i) P),
      ns_wire := add_mset (packet_to fe i msg) (ns_wire s)\<rparr>)"
| write_fails: "ns_pool s = add_mset (SendWrite i msg) P \<Longrightarrow>
    sched_step fe s (s\<lparr>ns_pool := P, ns_failed := add_mset (packet_to fe i msg) (ns_failed s)\<rparr>)"
| replies_over: "ns_pool s = add_mset (SendReads i) P \<Longrightarrow> sched_step fe s (s\<lparr>ns_pool := P\<rparr>)"

inductive_cases sched_step_cases: "sched_step fe s t"

section \<open>Which packets are sent\<close>

text \<open>The backends that a datagram is for: the first one for round robin, which does not rotate.\<close>

definition targets :: "frontend \<Rightarrow> nat list" where
  "targets fe =
     (case fe_scheduler fe of
        RoundRobin \<Rightarrow> if fe_backends fe = [] then [] else [0]
      | Multicast \<Rightarrow> [0..<length (fe_backends fe)]
      | OtherScheduler n \<Rightarrow> [])"

definition sends :: "frontend \<Rightarrow> string list \<Rightarrow> (nat \<times> string) multiset" where
  "sends fe msgs = mset (concat (map (\<lambda>m. map (\<lambda>i. (i, m)) (targets fe)) msgs))"

text \<open>The calls of \<open>Send\<close> that a goroutine has still to count, and those that it has still to write.\<close>

fun to_count :: "frontend \<Rightarrow> goroutine \<Rightarrow> (nat \<times> string) multiset" where
  "to_count fe (RobinStart m) = (if fe_backends fe = [] then {#} else {#(0, m)#})"
| "to_count fe (MulticastLoop m j) = mset (map (\<lambda>i. (i, m)) [j..<length (fe_backends fe)])"
| "to_count fe (SendLoad i m) = {#(i, m)#}"
| "to_count fe (SendStore i m n) = {#(i, m)#}"
| "to_count fe g = {#}"

fun to_write :: "goroutine \<Rightarrow> (nat \<times> string) multiset" where
  "to_write (SendDial i m) = {#(i, m)#}"
| "to_write (SendWrite i m) = {#(i, m)#}"
| "to_write g = {#}"

definition as_packets :: "frontend \<Rightarrow> (nat \<times> string) multiset \<Rightarrow> packet multiset" where
  "as_packets fe = image_mset (\<lambda>(i, m). packet_to fe i m)"

lemma as_packets_simps [simp]:
  "as_packets fe {#} = {#}" "as_packets fe (A + B) = as_packets fe A + as_packets fe B"
  "as_packets fe (add_mset (i, m) A) = add_mset (packet_to fe i m) (as_packets fe A)"
  by (simp_all add: as_packets_def)

text \<open>How often a backend has been counted.\<close>

definition times :: "nat \<Rightarrow> (nat \<times> string) multiset \<Rightarrow> nat" where
  "times i A = size (filter_mset (\<lambda>p. fst p = i) A)"

lemma times_simps [simp]:
  "times i {#} = 0" "times i (add_mset p A) = (if fst p = i then Suc (times i A) else times i A)"
  "times i (A + B) = times i A + times i B"
  by (simp_all add: times_def)

definition counter_ok :: "frontend \<Rightarrow> net_state \<Rightarrow> nat \<Rightarrow> uint \<Rightarrow> bool \<Rightarrow> bool" where
  "counter_ok fe s i n stored \<longleftrightarrow>
     (\<exists>k \<le> times i (ns_counted s). n = be_sent (fe_backends fe ! i) + of_nat k \<and>
        (stored \<and> 0 < times i (ns_counted s) \<longrightarrow> 0 < k))"

definition sched_inv :: "frontend \<Rightarrow> net_state \<Rightarrow> bool" where
  "sched_inv fe s \<longleftrightarrow> length (ns_sent s) = length (fe_backends fe) \<and>
     ns_counted s + (\<Sum>g\<in>#ns_pool s. to_count fe g) = sends fe (ns_received s) \<and>
     ns_wire s + ns_failed s + as_packets fe (\<Sum>g\<in>#ns_pool s. to_write g) = as_packets fe (ns_counted s) \<and>
     (\<forall>i<length (fe_backends fe). counter_ok fe s i (ns_sent s ! i) True) \<and>
     (\<forall>i m n. SendStore i m n \<in># ns_pool s \<longrightarrow> counter_ok fe s i n False) \<and>
     (\<forall>m\<in>set (ns_received s). length m \<le> bufSize) \<and> (fe_backends fe \<noteq> [] \<longrightarrow> \<not> ns_crashed s)"

lemma sends_snoc: "sends fe (msgs @ [m]) = sends fe msgs + mset (map (\<lambda>i. (i, m)) (targets fe))"
  by (simp add: sends_def)

lemma start_msg_count: "(\<Sum>g\<in>#start_msg fe m. to_count fe g) = mset (map (\<lambda>i. (i, m)) (targets fe))"
  by (simp add: start_msg_def targets_def split: scheduler.split)

lemma start_msg_write: "(\<Sum>g\<in>#start_msg fe m. to_write g) = {#}"
  by (simp add: start_msg_def split: scheduler.split)

lemma no_store_start: "SendStore i m n \<notin># start_msg fe msg"
  by (simp add: start_msg_def split: scheduler.split)

lemma counter_ok_cong:
  "ns_counted t = ns_counted s \<Longrightarrow> counter_ok fe t i n b = counter_ok fe s i n b"
  by (simp add: counter_ok_def)

lemma sends_target: "(i, m) \<in># sends fe msgs \<Longrightarrow> i < length (fe_backends fe)"
  by (auto simp: sends_def targets_def split: scheduler.splits if_splits)

lemma sched_inv_index:
  assumes "sched_inv fe s" and "ns_pool s = add_mset (SendStore i msg n) P"
  shows "i < length (fe_backends fe)"
proof -
  have "(i, msg) \<in># sends fe (ns_received s)"
    using assms unfolding sched_inv_def by (metis sum_mset.add_mset image_mset_add_mset to_count.simps(4)
      union_iff multi_member_this union_mset_add_mset_right)
  then show ?thesis by (rule sends_target)
qed

lemma counter_ok_store:
  assumes "counter_ok fe s i n False" and "ns_counted t = add_mset (i, msg) (ns_counted s)"
  shows "counter_ok fe t i (n + 1) True"
proof -
  from assms(1) obtain k where "k \<le> times i (ns_counted s)" "n = be_sent (fe_backends fe ! i) + of_nat k"
    by (auto simp: counter_ok_def)
  then show ?thesis unfolding counter_ok_def using assms(2) by (intro exI [of _ "Suc k"]) simp
qed

lemma counter_ok_mono:
  assumes "counter_ok fe s j n b" and "ns_counted t = add_mset (i, msg) (ns_counted s)" and "b \<longrightarrow> j \<noteq> i"
  shows "counter_ok fe t j n b"
proof -
  from assms(1) obtain k where "k \<le> times j (ns_counted s)" "n = be_sent (fe_backends fe ! j) + of_nat k"
    "b \<and> 0 < times j (ns_counted s) \<longrightarrow> 0 < k" by (auto simp: counter_ok_def)
  then show ?thesis unfolding counter_ok_def using assms(2,3) by (intro exI [of _ k]) auto
qed

lemma sched_inv_start: "sched_inv fe (sched_start fe)"
  by (simp add: sched_inv_def sched_start_def sends_def counter_ok_def)

lemma sched_inv_step:
  assumes "sched_step fe s t" and inv: "sched_inv fe s"
  shows "sched_inv fe t"
  using assms(1)
proof cases
  case (receive msg)
  with inv show ?thesis
    by (auto simp: sched_inv_def counter_ok_def sends_snoc start_msg_count start_msg_write no_store_start
        union_assoc union_commute union_lcomm)
next
  case (spawn msg i P)
  have "[i..<length (fe_backends fe)] = i # [Suc i..<length (fe_backends fe)]"
    using spawn(3) by (rule upt_conv_Cons)
  with inv spawn show ?thesis by (auto simp: sched_inv_def counter_ok_def)
next
  case (load i msg P)
  have "(i, msg) \<in># sends fe (ns_received s)"
    using inv load(2) unfolding sched_inv_def by (auto dest!: sym [of _ "sends fe (ns_received s)"])
  from sends_target [OF this] inv load show ?thesis by (fastforce simp: sched_inv_def counter_ok_def)
next
  case (store i msg n P)
  have i: "i < length (fe_backends fe)" by (rule sched_inv_index [OF inv store(2)])
  have c: "ns_counted t = add_mset (i, msg) (ns_counted s)" by (simp add: store(1))
  have n: "counter_ok fe s i n False" using inv store(2) by (simp add: sched_inv_def)
  have "counter_ok fe t j (ns_sent t ! j) True" if "j < length (fe_backends fe)" for j
  proof (cases "j = i")
    case True
    with counter_ok_store [OF n c] inv i show ?thesis by (simp add: store(1) sched_inv_def)
  next
    case False
    with counter_ok_mono [OF _ c] inv that show ?thesis by (simp add: store(1) sched_inv_def)
  qed
  moreover have "counter_ok fe t j v False" if "SendStore j m v \<in># ns_pool t" for j m v
    using counter_ok_mono [OF _ c, where j = j and n = v and b = False] inv that store(2) by (auto simp: store(1) sched_inv_def)
  ultimately show ?thesis using inv store(1,2) by (auto simp: sched_inv_def)
next
  case (robin_crash msg P)
  then have "sends fe (ns_received s) = {#}" by (simp add: sends_def targets_def split: scheduler.split)
  with inv have c: "ns_counted s = {#}" by (simp add: sched_inv_def)
  with inv have "ns_wire s + ns_failed s + as_packets fe (\<Sum>g\<in>#ns_pool s. to_write g) = {#}"
    by (simp only: sched_inv_def as_packets_simps)
  then have "ns_wire s = {#}" "ns_failed s = {#}" by simp_all
  note c this
  with inv robin_crash \<open>sends fe (ns_received s) = {#}\<close> show ?thesis by (simp add: sched_inv_def)
qed (use inv in \<open>auto simp: sched_inv_def counter_ok_def split: if_splits\<close>)

lemma sched_inv_reachable: "(sched_step fe)\<^sup>*\<^sup>* (sched_start fe) s \<Longrightarrow> sched_inv fe s"
  by (induction rule: rtranclp_induct) (auto intro: sched_inv_start sched_inv_step)

section \<open>Every datagram can be passed on\<close>

text \<open>A run in which the network accepts everything: each goroutine goes on until it has ended.\<close>

fun weight :: "frontend \<Rightarrow> goroutine \<Rightarrow> nat" where
  "weight fe (RobinStart m) = 6"
| "weight fe (MulticastLoop m i) = Suc (7 * (length (fe_backends fe) - i))"
| "weight fe (SendLoad i m) = 5"
| "weight fe (SendStore i m n) = 4"
| "weight fe (SendDial i m) = 3"
| "weight fe (SendWrite i m) = 2"
| "weight fe (SendReads i) = 1"

text \<open>Nothing has failed and nothing was read meanwhile.\<close>

definition goes_well :: "net_state \<Rightarrow> net_state \<Rightarrow> bool" where
  "goes_well s t \<longleftrightarrow> ns_failed t = ns_failed s \<and> ns_received t = ns_received s \<and> ns_serving t = ns_serving s \<and>
     ns_crashed t = ns_crashed s"

lemma one_goes_well:
  assumes "fe_backends fe \<noteq> []" and p: "ns_pool s = add_mset g P"
  shows "\<exists>t. sched_step fe s t \<and> goes_well s t \<and>
    (\<Sum>g\<in>#ns_pool t. weight fe g) < (\<Sum>g\<in>#ns_pool s. weight fe g)"
proof (cases g)
  case (RobinStart m)
  from robin [OF p [unfolded this] assms(1)] p RobinStart show ?thesis by (fastforce simp: goes_well_def)
next
  case (MulticastLoop m i)
  show ?thesis
  proof (cases "i < length (fe_backends fe)")
    case True
    note s = spawn [OF p [unfolded MulticastLoop] True]
    show ?thesis by (rule exI, rule conjI, rule s) (use p MulticastLoop True in \<open>auto simp: goes_well_def\<close>)
  next
    case False
    from loop_end [OF p [unfolded MulticastLoop] False] p MulticastLoop show ?thesis by (fastforce simp: goes_well_def)
  qed
next
  case (SendLoad i m)
  from load [OF p [unfolded this], of fe] p SendLoad show ?thesis by (fastforce simp: goes_well_def)
next
  case (SendStore i m n)
  from store [OF p [unfolded this], of fe] p SendStore show ?thesis by (fastforce simp: goes_well_def)
next
  case (SendDial i m)
  from dial [OF p [unfolded this], of fe] p SendDial show ?thesis by (fastforce simp: goes_well_def)
next
  case (SendWrite i m)
  note s = written [OF p [unfolded this], of fe]
  show ?thesis by (rule exI, rule conjI, rule s) (use p SendWrite in \<open>auto simp: goes_well_def\<close>)
next
  case (SendReads i)
  from replies_over [OF p [unfolded this], of fe] p SendReads show ?thesis by (fastforce simp: goes_well_def)
qed

lemma all_go_well:
  assumes "fe_backends fe \<noteq> []"
  shows "\<exists>t. (sched_step fe)\<^sup>*\<^sup>* s t \<and> goes_well s t \<and> ns_pool t = {#}"
proof (induction "\<Sum>g\<in>#ns_pool s. weight fe g" arbitrary: s rule: less_induct)
  case less
  show ?case
  proof (cases "ns_pool s")
    case empty
    then show ?thesis by (intro exI [of _ s]) (simp add: goes_well_def)
  next
    case (add g P)
    from one_goes_well [OF assms add] obtain t where t: "sched_step fe s t" "goes_well s t"
      "(\<Sum>g\<in>#ns_pool t. weight fe g) < (\<Sum>g\<in>#ns_pool s. weight fe g)" by blast
    from less [OF t(3)] obtain u where "(sched_step fe)\<^sup>*\<^sup>* t u" "goes_well t u" "ns_pool u = {#}" by blast
    with t(1,2) show ?thesis
      by (intro exI [of _ u]) (auto simp: goes_well_def intro: converse_rtranclp_into_rtranclp)
  qed
qed

lemma receive_all:
  "ns_serving s \<Longrightarrow> \<not> ns_crashed s \<Longrightarrow>
   \<exists>t. (sched_step fe)\<^sup>*\<^sup>* s t \<and> ns_received t = ns_received s @ map (take bufSize) msgs \<and> ns_failed t = ns_failed s"
proof (induction msgs arbitrary: s)
  case Nil
  then show ?case by auto
next
  case (Cons m msgs)
  let ?t = "s\<lparr>ns_received := ns_received s @ [take bufSize m],
      ns_pool := start_msg fe (take bufSize m) + ns_pool s\<rparr>"
  from Cons.IH [of ?t] Cons.prems obtain u where "(sched_step fe)\<^sup>*\<^sup>* ?t u"
    "ns_received u = ns_received s @ map (take bufSize) (m # msgs)" "ns_failed u = ns_failed s" by auto
  with receive [OF Cons.prems, of fe m] show ?case by (blast intro: converse_rtranclp_into_rtranclp)
qed

section \<open>What the schedulers do\<close>

text \<open>No goroutine has anything left to send.\<close>

definition quiet :: "net_state \<Rightarrow> bool" where
  "quiet s \<longleftrightarrow> (\<forall>g\<in>#ns_pool s. \<exists>i. g = SendReads i)"

text \<open>The packets that the received datagrams are to give, and how many of them go to a backend.\<close>

definition wanted_packets :: "frontend \<Rightarrow> string list \<Rightarrow> packet list" where
  "wanted_packets fe msgs =
     (case (fe_scheduler fe, fe_backends fe) of
        (RoundRobin, be # bes) \<Rightarrow> map (\<lambda>m. (be_addr be, m)) msgs
      | (Multicast, bes) \<Rightarrow> concat (map (\<lambda>m. map (\<lambda>be. (be_addr be, m)) bes) msgs)
      | _ \<Rightarrow> [])"

definition wanted_count :: "frontend \<Rightarrow> nat \<Rightarrow> string list \<Rightarrow> nat" where
  "wanted_count fe i msgs =
     (case fe_scheduler fe of
        RoundRobin \<Rightarrow> if i = 0 then length msgs else 0
      | Multicast \<Rightarrow> length msgs
      | OtherScheduler n \<Rightarrow> 0)"

lemma as_packets_sends: "as_packets fe (sends fe msgs) = mset (wanted_packets fe msgs)"
proof -
  have "map (\<lambda>i. packet_to fe i m) [0..<length (fe_backends fe)] = map (\<lambda>be. (be_addr be, m)) (fe_backends fe)" for m
    by (rule nth_equalityI) (simp_all add: packet_to_def)
  then have multi: "image_mset (\<lambda>(i, m). packet_to fe i m)
      (mset (concat (map (\<lambda>m. map (\<lambda>i. (i, m)) [0..<length (fe_backends fe)]) msgs))) =
      mset (concat (map (\<lambda>m. map (\<lambda>be. (be_addr be, m)) (fe_backends fe)) msgs))"
    by (induction msgs) (simp_all add: comp_def flip: mset_map)
  have robin: "fe_backends fe = be # bes \<Longrightarrow> image_mset (\<lambda>(i, m). packet_to fe i m)
      (mset (concat (map (\<lambda>m. map (\<lambda>i. (i, m)) [0]) msgs))) = mset (map (\<lambda>m. (be_addr be, m)) msgs)" for be bes
    by (induction msgs) (simp_all add: packet_to_def)
  have none: "concat (map (\<lambda>m. []) msgs) = []" by (induction msgs) simp_all
  show ?thesis
    using multi robin none
    by (auto simp: as_packets_def sends_def targets_def wanted_packets_def split: scheduler.split list.split)
qed

lemma times_sends:
  assumes "i < length (fe_backends fe)"
  shows "times i (sends fe msgs) = wanted_count fe i msgs"
proof -
  have "times i (mset (map (\<lambda>j. (j, m)) (targets fe))) = wanted_count fe i [m]" for m
  proof -
    have "times i (mset (map (\<lambda>j. (j, m)) js)) = length (filter (\<lambda>j. j = i) js)" for js
      by (induction js) simp_all
    moreover have "filter (\<lambda>j. j = i) [0..<n] = (if i < n then [i] else [])" for n
      by (induction n) auto
    ultimately show ?thesis using assms
      by (auto simp: targets_def wanted_count_def split: scheduler.split)
  qed
  then show ?thesis
    by (induction msgs) (auto simp: sends_def wanted_count_def split: scheduler.splits)
qed

lemma quiet_done:
  assumes "quiet s" and "sched_inv fe s"
  shows "ns_counted s = sends fe (ns_received s)" and "ns_wire s + ns_failed s = mset (wanted_packets fe (ns_received s))"
proof -
  have "(\<Sum>g\<in>#A. to_count fe g) = {#} \<and> (\<Sum>g\<in>#A. to_write g) = {#}" if "\<forall>g\<in>#A. \<exists>i. g = SendReads i" for A
    using that by (induction A) auto
  with assms have z: "(\<Sum>g\<in>#ns_pool s. to_count fe g) = {#}" "(\<Sum>g\<in>#ns_pool s. to_write g) = {#}"
    by (simp_all add: quiet_def)
  with assms(2) show c: "ns_counted s = sends fe (ns_received s)" by (simp add: sched_inv_def)
  with assms(2) z show "ns_wire s + ns_failed s = mset (wanted_packets fe (ns_received s))"
    by (simp add: sched_inv_def as_packets_sends)
qed

lemma wire_subset:
  assumes "sched_inv fe s"
  shows "ns_wire s + ns_failed s \<subseteq># mset (wanted_packets fe (ns_received s))"
proof -
  have "as_packets fe (ns_counted s) \<subseteq># as_packets fe (sends fe (ns_received s))"
    unfolding as_packets_def using assms by (intro image_mset_subseteq_mono) (metis mset_subset_eq_add_left sched_inv_def)
  moreover have "ns_wire s + ns_failed s \<subseteq># as_packets fe (ns_counted s)"
    using assms by (metis mset_subset_eq_add_left sched_inv_def)
  ultimately show ?thesis by (simp add: as_packets_sends)
qed

text \<open>
  C37. What the two schedulers do with datagrams, in whatever order their goroutines run. A datagram
  is cut to the buffer. At any time the packets that were written, together with those that could not
  be dialled or written, are among the wanted ones: with multicast each datagram to every backend,
  once; with round robin, which does not rotate, all of them to the first backend and none to another.
  When no goroutine has anything left to send they are exactly the wanted ones. As long as the
  frontend has a backend this can always be reached with nothing more failing, for any datagrams.
  The counters are not exact, since the goroutines race: a counter has moved up, in 64 bits, by at
  least one and at most by the number of datagrams for its backend.
\<close>

theorem Serve_schedules:
  assumes "(sched_step fe)\<^sup>*\<^sup>* (sched_start fe) s"
  shows "ns_wire s + ns_failed s \<subseteq># mset (wanted_packets fe (ns_received s)) \<and>
    (\<forall>m\<in>set (ns_received s). length m \<le> bufSize) \<and>
    (quiet s \<longrightarrow> ns_wire s + ns_failed s = mset (wanted_packets fe (ns_received s)) \<and>
       (\<forall>i<length (fe_backends fe). \<exists>k \<le> wanted_count fe i (ns_received s).
          ns_sent s ! i = be_sent (fe_backends fe ! i) + of_nat k \<and>
          (0 < wanted_count fe i (ns_received s) \<longrightarrow> 0 < k))) \<and>
    (fe_backends fe \<noteq> [] \<longrightarrow>
       (\<exists>t. (sched_step fe)\<^sup>*\<^sup>* s t \<and> quiet t \<and> ns_failed t = ns_failed s \<and>
          ns_received t = ns_received s @ (if ns_serving s then map (take bufSize) msgs else [])))"
proof (intro conjI impI)
  note inv = sched_inv_reachable [OF assms]
  show "ns_wire s + ns_failed s \<subseteq># mset (wanted_packets fe (ns_received s))" by (rule wire_subset [OF inv])
  show "\<forall>m\<in>set (ns_received s). length m \<le> bufSize" using inv by (simp add: sched_inv_def)
  show "ns_wire s + ns_failed s = mset (wanted_packets fe (ns_received s))" if "quiet s"
    by (rule quiet_done [OF that inv])
  show "\<forall>i<length (fe_backends fe). \<exists>k \<le> wanted_count fe i (ns_received s).
      ns_sent s ! i = be_sent (fe_backends fe ! i) + of_nat k \<and> (0 < wanted_count fe i (ns_received s) \<longrightarrow> 0 < k)"
    if "quiet s"
    using inv quiet_done(1) [OF that inv] times_sends by (simp add: sched_inv_def counter_ok_def)
  assume b: "fe_backends fe \<noteq> []"
  show "\<exists>t. (sched_step fe)\<^sup>*\<^sup>* s t \<and> quiet t \<and> ns_failed t = ns_failed s \<and>
          ns_received t = ns_received s @ (if ns_serving s then map (take bufSize) msgs else [])"
  proof -
    obtain s1 where 1: "(sched_step fe)\<^sup>*\<^sup>* s s1" "ns_failed s1 = ns_failed s"
      "ns_received s1 = ns_received s @ (if ns_serving s then map (take bufSize) msgs else [])"
      using receive_all [of s fe msgs] inv b by (cases "ns_serving s") (auto simp: sched_inv_def)
    from all_go_well [OF b, of s1] obtain t where "(sched_step fe)\<^sup>*\<^sup>* s1 t" "goes_well s1 t" "ns_pool t = {#}" by blast
    with 1 show ?thesis by (intro exI [of _ t]) (auto simp: goes_well_def quiet_def)
  qed
qed

section \<open>A lost update, and a crash\<close>

text \<open>
  Two datagrams for a round-robin frontend without a response timeout, whose two goroutines load the
  counter before either stores it: both are sent, but the counter ends at 1.
\<close>

abbreviation racing :: frontend where
  "racing \<equiv> two_backends\<lparr>fe_timeout := 0\<rparr>"

abbreviation race :: "string list \<Rightarrow> goroutine multiset \<Rightarrow> uint list \<Rightarrow> packet multiset \<Rightarrow> (nat \<times> string) multiset \<Rightarrow> net_state" where
  "race msgs P sent wire counted \<equiv> \<lparr>ns_serving = True, ns_crashed = False, ns_received = msgs, ns_pool = P,
     ns_sent = sent, ns_wire = wire, ns_failed = {#}, ns_counted = counted\<rparr>"

lemma racing_fields: "fe_scheduler racing = RoundRobin" "fe_backends racing \<noteq> []" "length (fe_backends racing) = 2"
    "sched_start racing = race [] {#} [0, 0] {#} {#}"
    "packet_to racing 0 m = (''10.0.0.1:53'', m)" "be_sent (fe_backends racing ! 0) = 0" "be_sent (fe_backends racing ! 1) = 0"
    "wanted_packets racing msgs = map (\<lambda>m. (''10.0.0.1:53'', m)) msgs"
  by (simp_all add: two_backends_def mk_backend_def sched_start_def packet_to_def wanted_packets_def)

definition raced :: net_state where
  "raced = race [''a'', ''b''] {#} [1, 0] {#(''10.0.0.1:53'', ''a''), (''10.0.0.1:53'', ''b'')#} {#(0, ''a''), (0, ''b'')#}"

lemma raced_reachable: "(sched_step racing)\<^sup>*\<^sup>* (sched_start racing) raced"
proof -
  note r = racing_fields(1-3)
  let ?ab = "[''a'', ''b'']" and ?a = "(''10.0.0.1:53'', ''a'')" and ?b = "(''10.0.0.1:53'', ''b'')"
  have "sched_step racing (race [] {#} [0, 0] {#} {#}) (race [''a''] {#RobinStart ''a''#} [0, 0] {#} {#})"
    using receive [of "race [] {#} [0, 0] {#} {#}" racing "''a''"] by (simp add: r start_msg_def bufSize_def)
  moreover have "sched_step racing (race [''a''] {#RobinStart ''a''#} [0, 0] {#} {#})
      (race ?ab {#RobinStart ''b'', RobinStart ''a''#} [0, 0] {#} {#})"
    using receive [of "race [''a''] {#RobinStart ''a''#} [0, 0] {#} {#}" racing "''b''"]
    by (simp add: r start_msg_def bufSize_def add_mset_commute)
  moreover have "sched_step racing (race ?ab {#RobinStart ''b'', RobinStart ''a''#} [0, 0] {#} {#})
      (race ?ab {#SendLoad 0 ''b'', RobinStart ''a''#} [0, 0] {#} {#})"
    using robin [of "race ?ab {#RobinStart ''b'', RobinStart ''a''#} [0, 0] {#} {#}" "''b''" _ racing] r by simp
  moreover have "sched_step racing (race ?ab {#SendLoad 0 ''b'', RobinStart ''a''#} [0, 0] {#} {#})
      (race ?ab {#SendLoad 0 ''a'', SendLoad 0 ''b''#} [0, 0] {#} {#})"
    using robin [of "race ?ab {#SendLoad 0 ''b'', RobinStart ''a''#} [0, 0] {#} {#}" "''a''" "{#SendLoad 0 ''b''#}" racing] r
    by (simp add: add_mset_commute)
  moreover have "sched_step racing (race ?ab {#SendLoad 0 ''a'', SendLoad 0 ''b''#} [0, 0] {#} {#})
      (race ?ab {#SendStore 0 ''a'' 0, SendLoad 0 ''b''#} [0, 0] {#} {#})"
    using load [of "race ?ab {#SendLoad 0 ''a'', SendLoad 0 ''b''#} [0, 0] {#} {#}" 0 "''a''"] by simp
  moreover have "sched_step racing (race ?ab {#SendStore 0 ''a'' 0, SendLoad 0 ''b''#} [0, 0] {#} {#})
      (race ?ab {#SendStore 0 ''b'' 0, SendStore 0 ''a'' 0#} [0, 0] {#} {#})"
    using load [of "race ?ab {#SendStore 0 ''a'' 0, SendLoad 0 ''b''#} [0, 0] {#} {#}" 0 "''b''" "{#SendStore 0 ''a'' 0#}"]
    by (simp add: add_mset_commute)
  moreover have "sched_step racing (race ?ab {#SendStore 0 ''b'' 0, SendStore 0 ''a'' 0#} [0, 0] {#} {#})
      (race ?ab {#SendDial 0 ''b'', SendStore 0 ''a'' 0#} [1, 0] {#} {#(0, ''b'')#})"
    using store [of "race ?ab {#SendStore 0 ''b'' 0, SendStore 0 ''a'' 0#} [0, 0] {#} {#}" 0 "''b''" 0] by simp
  moreover have "sched_step racing (race ?ab {#SendDial 0 ''b'', SendStore 0 ''a'' 0#} [1, 0] {#} {#(0, ''b'')#})
      (race ?ab {#SendDial 0 ''a'', SendDial 0 ''b''#} [1, 0] {#} {#(0, ''a''), (0, ''b'')#})"
    using store [of "race ?ab {#SendDial 0 ''b'', SendStore 0 ''a'' 0#} [1, 0] {#} {#(0, ''b'')#}" 0 "''a''" 0 "{#SendDial 0 ''b''#}"]
    by (simp add: add_mset_commute)
  moreover have "sched_step racing (race ?ab {#SendDial 0 ''a'', SendDial 0 ''b''#} [1, 0] {#} {#(0, ''a''), (0, ''b'')#})
      (race ?ab {#SendWrite 0 ''a'', SendDial 0 ''b''#} [1, 0] {#} {#(0, ''a''), (0, ''b'')#})"
    using dial [of "race ?ab {#SendDial 0 ''a'', SendDial 0 ''b''#} [1, 0] {#} {#(0, ''a''), (0, ''b'')#}" 0 "''a''"] by simp
  moreover have "sched_step racing (race ?ab {#SendWrite 0 ''a'', SendDial 0 ''b''#} [1, 0] {#} {#(0, ''a''), (0, ''b'')#})
      (race ?ab {#SendDial 0 ''b''#} [1, 0] {#?a#} {#(0, ''a''), (0, ''b'')#})"
    using written [of "race ?ab {#SendWrite 0 ''a'', SendDial 0 ''b''#} [1, 0] {#} {#(0, ''a''), (0, ''b'')#}" 0 "''a''" _ racing]
    by (simp add: racing_fields)
  moreover have "sched_step racing (race ?ab {#SendDial 0 ''b''#} [1, 0] {#?a#} {#(0, ''a''), (0, ''b'')#})
      (race ?ab {#SendWrite 0 ''b''#} [1, 0] {#?a#} {#(0, ''a''), (0, ''b'')#})"
    using dial [of "race ?ab {#SendDial 0 ''b''#} [1, 0] {#?a#} {#(0, ''a''), (0, ''b'')#}" 0 "''b''"] by simp
  moreover have "sched_step racing (race ?ab {#SendWrite 0 ''b''#} [1, 0] {#?a#} {#(0, ''a''), (0, ''b'')#}) raced"
    using written [of "race ?ab {#SendWrite 0 ''b''#} [1, 0] {#?a#} {#(0, ''a''), (0, ''b'')#}" 0 "''b''" _ racing]
    by (simp add: racing_fields raced_def add_mset_commute)
  ultimately show ?thesis unfolding racing_fields(4)
    by (meson rtranclp.rtrancl_refl converse_rtranclp_into_rtranclp)
qed

theorem Serve_schedules_witness:
  "(sched_step racing)\<^sup>*\<^sup>* (sched_start racing) raced \<and> quiet raced \<and>
   ns_wire raced + ns_failed raced = {#(''10.0.0.1:53'', ''a''), (''10.0.0.1:53'', ''b'')#} \<and>
   ns_sent raced ! 0 = 1 \<and> wanted_count racing 0 (ns_received raced) = 2 \<and>
   (\<exists>t. (sched_step racing)\<^sup>*\<^sup>* raced t \<and> quiet t \<and> ns_received t = [''a'', ''b'', ''c''])"
proof -
  note s = Serve_schedules [OF raced_reachable, of "[''c'']"]
  have q: "quiet raced" "ns_received raced = [''a'', ''b'']" "ns_serving raced" "ns_sent raced ! 0 = 1"
    by (simp_all add: raced_def quiet_def)
  from s q(1) have "ns_wire raced + ns_failed raced = mset (wanted_packets racing (ns_received raced))" by blast
  moreover from s racing_fields(2) obtain t where "(sched_step racing)\<^sup>*\<^sup>* raced t" "quiet t"
    "ns_received t = ns_received raced @ (if ns_serving raced then map (take bufSize) [''c''] else [])" by blast
  ultimately show ?thesis
    using raced_reachable q racing_fields by (auto simp: wanted_count_def bufSize_def)
qed

text \<open>
  A round-robin frontend without backends crashes the program with the first datagram: the goroutine
  that reads the first element of the empty slice has no other step. A multicast frontend without
  backends drops every datagram.
\<close>

theorem RoundRobin_without_backends_panics:
  assumes "fe_backends fe = []" and "fe_scheduler fe = RoundRobin"
  shows "\<exists>s. (sched_step fe)\<^sup>*\<^sup>* (sched_start fe) s \<and> RobinStart (take bufSize m) \<in># ns_pool s \<and>
    (\<exists>t. sched_step fe s t \<and> ns_crashed t)"
proof -
  let ?s = "(sched_start fe)\<lparr>ns_received := [take bufSize m], ns_pool := {#RobinStart (take bufSize m)#}\<rparr>"
  have "sched_step fe (sched_start fe) ?s"
    using receive [of "sched_start fe" fe m] assms(2) by (simp add: sched_start_def start_msg_def)
  moreover have "sched_step fe ?s (?s\<lparr>ns_crashed := True, ns_pool := {#}\<rparr>)"
    by (rule robin_crash [where msg = "take bufSize m" and P = "{#}"]) (simp_all add: assms(1))
  ultimately show ?thesis by (intro exI [of _ ?s]) (auto intro: exI [of _ "?s\<lparr>ns_crashed := True, ns_pool := {#}\<rparr>"])
qed

lemma robin_only_crashes:
  assumes "sched_step fe s t" and "fe_backends fe = []" and "ns_pool s = {#RobinStart m#}" and "ns_pool t \<noteq> ns_pool s"
    and "ns_received t = ns_received s"
  shows "ns_crashed t"
  using assms by cases (auto simp: add_mset_eq_single)

theorem RoundRobin_without_backends_panics_witness:
  "\<exists>s. (sched_step (racing\<lparr>fe_backends := []\<rparr>))\<^sup>*\<^sup>* (sched_start (racing\<lparr>fe_backends := []\<rparr>)) s \<and>
    (\<exists>t. sched_step (racing\<lparr>fe_backends := []\<rparr>) s t \<and> ns_crashed t)"
  using RoundRobin_without_backends_panics [of "racing\<lparr>fe_backends := []\<rparr>" "''x''"]
  by (auto simp: two_backends_def)

end
