(* ===== verification/Udp_Serve.thy ===== *)
theory Udp_Serve
  imports Udp_Proxy
begin

text \<open>
  The concurrent parts of src/udpproxy/udpproxy.go as step relations: the goroutines that \<open>Send\<close>
  starts to read the responses of a backend, and the channel by which \<open>Proxy.Quit\<close> is to end
  \<open>Proxy.Serve\<close>. A step is one communication on a channel, one read from the socket, or one
  expiry of the timer; goroutines that wait on a channel nobody serves have no step.

  The last section prints the proxy (\<open>Dump\<close>) and holds the type \<open>Session\<close>, which nothing uses.
\<close>

section \<open>The readers of Send\<close>

text \<open>
  A goroutine of the loop of \<open>Send\<close>: blocked in \<open>conn.Read\<close>, about to send what it read on
  \<open>responseChannel\<close>, about to send its error on \<open>errorChannel\<close>, or finished.
\<close>

datatype reader = Reading | HasResponse string | HasError string | Finished

text \<open>
  The state of \<open>Send\<close> from its loop on: whether it has returned, the goroutines started so far, the
  responses written to the client, and, for the specification, what the socket delivered.
\<close>

record send_state =
  ss_returned :: bool
  ss_readers :: "reader list"
  ss_out :: "string list"
  ss_trace :: "reply list"

definition send_start :: send_state where
  "send_start = \<lparr>ss_returned = False, ss_readers = [Reading], ss_out = [], ss_trace = []\<rparr>"

inductive send_step :: "send_state \<Rightarrow> send_state \<Rightarrow> bool" where
  read: "i < length (ss_readers s) \<Longrightarrow> ss_readers s ! i = Reading \<Longrightarrow> \<not> ss_returned s \<Longrightarrow>
    send_step s (s\<lparr>ss_readers := (ss_readers s)[i := HasResponse (take bufSize msg)],
      ss_trace := ss_trace s @ [Reply msg]\<rparr>)"
| read_error: "i < length (ss_readers s) \<Longrightarrow> ss_readers s ! i = Reading \<Longrightarrow>
    send_step s (s\<lparr>ss_readers := (ss_readers s)[i := HasError e], ss_trace := ss_trace s @ [ReadError e]\<rparr>)"
| response: "\<not> ss_returned s \<Longrightarrow> i < length (ss_readers s) \<Longrightarrow> ss_readers s ! i = HasResponse msg \<Longrightarrow>
    send_step s (s\<lparr>ss_readers := (ss_readers s)[i := Finished] @ [Reading], ss_out := ss_out s @ [msg]\<rparr>)"
| timeout: "\<not> ss_returned s \<Longrightarrow> send_step s (s\<lparr>ss_returned := True\<rparr>)"

inductive_cases send_step_cases: "send_step s t"

text \<open>The goroutines that still exist.\<close>

definition live_readers :: "send_state \<Rightarrow> reader list" where
  "live_readers s = filter (\<lambda>r. r \<noteq> Finished) (ss_readers s)"

text \<open>What a live reader adds to the output once it is delivered.\<close>

fun pending :: "reader \<Rightarrow> string list" where
  "pending (HasResponse msg) = [msg]"
| "pending r = []"

text \<open>The last outcome of the trace, as the one live reader holds it.\<close>

definition send_inv :: "send_state \<Rightarrow> bool" where
  "send_inv s \<longleftrightarrow> (\<exists>n r. ss_readers s = replicate n Finished @ [r] \<and> r \<noteq> Finished \<and>
     ss_out s @ pending r = send_replies (ss_trace s) \<and>
     ((\<exists>e. r = HasError e) \<longleftrightarrow> (\<exists>e. ReadError e \<in> set (ss_trace s))))"

lemma send_replies_snoc:
  assumes "\<forall>e. ReadError e \<notin> set rs"
  shows "send_replies (rs @ [Reply msg]) = send_replies rs @ [take bufSize msg]"
    and "send_replies (rs @ [ReadError e]) = send_replies rs"
  using assms by (induction rs rule: send_replies.induct) auto

lemma last_reader:
  assumes "i < length (replicate n Finished @ [r])" and "(replicate n Finished @ [r]) ! i = x" and "x \<noteq> Finished"
  shows "i = n" and "r = x"
  using assms by (auto simp: nth_append split: if_splits)

lemma send_inv_step:
  assumes "send_step s t" and "send_inv s"
  shows "send_inv t"
proof -
  from assms(2) obtain n r where s: "ss_readers s = replicate n Finished @ [r]" "r \<noteq> Finished"
    "ss_out s @ pending r = send_replies (ss_trace s)"
    "(\<exists>e. r = HasError e) \<longleftrightarrow> (\<exists>e. ReadError e \<in> set (ss_trace s))" by (auto simp: send_inv_def)
  from assms(1) show ?thesis
  proof cases
    case (read i msg)
    with s(1) have i: "i = n" "r = Reading" using last_reader [of i n r Reading] by auto
    with s(4) have "\<forall>e. ReadError e \<notin> set (ss_trace s)" by auto
    from send_replies_snoc(1) [OF this] s i read show ?thesis
      by (auto simp: send_inv_def list_update_append intro!: exI [of _ n])
  next
    case (read_error i e)
    with s(1) have i: "i = n" "r = Reading" using last_reader [of i n r Reading] by auto
    with s(4) have "\<forall>e. ReadError e \<notin> set (ss_trace s)" by auto
    from send_replies_snoc(2) [OF this] s i read_error show ?thesis
      by (auto simp: send_inv_def list_update_append intro!: exI [of _ n])
  next
    case (response i msg)
    with s(1) have "i = n" "r = HasResponse msg" using last_reader [of i n r "HasResponse msg"] by auto
    with s response show ?thesis
      by (auto simp: send_inv_def list_update_append replicate_append_same intro!: exI [of _ "Suc n"])
  next
    case timeout
    with s show ?thesis by (auto simp: send_inv_def)
  qed
qed

lemma send_inv_reachable: "send_step\<^sup>*\<^sup>* send_start s \<Longrightarrow> send_inv s"
proof (induction rule: rtranclp_induct)
  case base
  show ?case by (simp add: send_inv_def send_start_def)
next
  case (step s t)
  then show ?case using send_inv_step by blast
qed

lemma send_inv_live:
  assumes "send_inv s"
  obtains r where "live_readers s = [r]" and "last (ss_readers s) = r" and "r \<noteq> Finished"
    and "ss_out s @ pending r = send_replies (ss_trace s)"
proof -
  have "filter (\<lambda>r. r \<noteq> Finished) (replicate n Finished) = []" for n by (induction n) auto
  with assms that show thesis by (auto simp: send_inv_def live_readers_def)
qed

text \<open>
  C30. \<open>Send\<close> never ends without leaving a goroutine behind: at any time from the start of its loop
  exactly one reader is alive, also after \<open>Send\<close> has returned, and when nothing can happen any more
  that reader is blocked for ever, sending on one of the two channels that have no receiver. So
  every message that is forwarded with a response timeout costs one goroutine.
\<close>

theorem Send_leaks_reader:
  assumes "send_step\<^sup>*\<^sup>* send_start s"
  shows "\<exists>r. live_readers s = [r] \<and>
    ((\<nexists>t. send_step s t) \<longrightarrow> ss_returned s \<and> ((\<exists>e. r = HasError e) \<or> (\<exists>msg. r = HasResponse msg)))"
proof -
  obtain r where r: "live_readers s = [r]" "last (ss_readers s) = r" "r \<noteq> Finished"
    by (rule send_inv_live [OF send_inv_reachable [OF assms]])
  from r(1) have ne: "ss_readers s \<noteq> []" by (auto simp: live_readers_def)
  let ?i = "length (ss_readers s) - 1"
  from ne have i: "?i < length (ss_readers s)" "ss_readers s ! ?i = r" using r(2) by (simp_all add: last_conv_nth)
  have "ss_returned s \<and> ((\<exists>e. r = HasError e) \<or> (\<exists>msg. r = HasResponse msg))" if stuck: "\<nexists>t. send_step s t"
  proof
    from stuck show "ss_returned s" using timeout by blast
    from i stuck have "r \<noteq> Reading" using read_error by blast
    with r(3) show "(\<exists>e. r = HasError e) \<or> (\<exists>msg. r = HasResponse msg)" by (cases r) auto
  qed
  with r(1) show ?thesis by blast
qed

text \<open>A run that delivers the responses \<open>rs\<close>, up to the first failed read.\<close>

lemma send_run:
  assumes "live_readers s = [Reading]" and "send_inv s" and "\<not> ss_returned s"
  shows "\<exists>t. send_step\<^sup>*\<^sup>* s t \<and> ss_returned t \<and> ss_out t = ss_out s @ send_replies rs"
  using assms
proof (induction rs arbitrary: s rule: send_replies.induct)
  case (1 s)
  then show ?case using timeout [of s] by (auto intro!: exI [of _ "s\<lparr>ss_returned := True\<rparr>"])
next
  case (2 msg rs s)
  from "2.prems"(2) obtain n r where "ss_readers s = replicate n Finished @ [r]" by (auto simp: send_inv_def)
  with send_inv_live [OF "2.prems"(2)] "2.prems"(1) have rs: "ss_readers s = replicate n Finished @ [Reading]"
    by (metis last_snoc list.inject)
  let ?s1 = "s\<lparr>ss_readers := (ss_readers s)[n := HasResponse (take bufSize msg)], ss_trace := ss_trace s @ [Reply msg]\<rparr>"
  let ?s2 = "?s1\<lparr>ss_readers := (ss_readers ?s1)[n := Finished] @ [Reading], ss_out := ss_out ?s1 @ [take bufSize msg]\<rparr>"
  have 1: "send_step s ?s1" using read [of n s msg] rs "2.prems"(3) by (simp add: nth_append)
  have 2: "send_step ?s1 ?s2"
    using response [of ?s1 n "take bufSize msg"] rs "2.prems"(3) by (simp add: nth_append list_update_append)
  have "send_inv ?s2" using send_inv_step [OF 2 send_inv_step [OF 1 "2.prems"(2)]] .
  moreover have "live_readers ?s2 = [Reading]"
    by (simp add: live_readers_def rs list_update_append)
  ultimately obtain t where "send_step\<^sup>*\<^sup>* ?s2 t" "ss_returned t" "ss_out t = ss_out ?s2 @ send_replies rs"
    using "2.IH" [of ?s2] "2.prems"(3) by auto
  with 1 2 show ?case by (auto intro!: exI [of _ t] intro: converse_rtranclp_into_rtranclp)
next
  case (3 e rs s)
  then show ?case using timeout [of s] by (auto intro!: exI [of _ "s\<lparr>ss_returned := True\<rparr>"])
qed

text \<open>
  C29. The goroutines of \<open>Send\<close> implement its sequential description \<open>send_replies\<close>: at any time the
  client has received, in order and each cut to the buffer, the datagrams that were read before the
  first failed read, except at most the last one, which a reader still holds; and every sequence of
  datagrams can be delivered completely before the timeout.
\<close>

theorem Send_refines:
  "(send_step\<^sup>*\<^sup>* send_start s \<longrightarrow> ss_out s = send_replies (ss_trace s) \<or>
     (\<exists>msg. ss_out s @ [msg] = send_replies (ss_trace s) \<and> live_readers s = [HasResponse msg])) \<and>
   (\<exists>t. send_step\<^sup>*\<^sup>* send_start t \<and> ss_returned t \<and> ss_out t = send_replies rs)"
proof (intro conjI impI)
  assume "send_step\<^sup>*\<^sup>* send_start s"
  then obtain r where r: "live_readers s = [r]" "ss_out s @ pending r = send_replies (ss_trace s)"
    by (rule send_inv_live [OF send_inv_reachable])
  then show "ss_out s = send_replies (ss_trace s) \<or>
     (\<exists>msg. ss_out s @ [msg] = send_replies (ss_trace s) \<and> live_readers s = [HasResponse msg])"
    by (cases r) auto
next
  have "send_inv send_start" by (rule send_inv_reachable) simp
  from send_run [OF _ this, of rs] show "\<exists>t. send_step\<^sup>*\<^sup>* send_start t \<and> ss_returned t \<and> ss_out t = send_replies rs"
    by (simp add: send_start_def live_readers_def)
qed

text \<open>One response read and delivered, the timeout, and the failed read of the closed socket.\<close>

definition send_end :: send_state where
  "send_end = \<lparr>ss_returned = True, ss_readers = [Finished, HasError ''closed''], ss_out = [''pong''],
     ss_trace = [Reply ''pong'', ReadError ''closed'']\<rparr>"

lemma send_end_reachable: "send_step\<^sup>*\<^sup>* send_start send_end"
proof -
  let ?s1 = "\<lparr>ss_returned = False, ss_readers = [HasResponse ''pong''], ss_out = [], ss_trace = [Reply ''pong'']\<rparr>"
  let ?s2 = "\<lparr>ss_returned = False, ss_readers = [Finished, Reading], ss_out = [''pong''], ss_trace = [Reply ''pong'']\<rparr>"
  let ?s3 = "?s2\<lparr>ss_returned := True\<rparr>"
  have "send_step send_start ?s1" using read [of 0 send_start "''pong''"] by (simp add: send_start_def bufSize_def)
  moreover have "send_step ?s1 ?s2" using response [of ?s1 0 "''pong''"] by simp
  moreover have "send_step ?s2 ?s3" using timeout [of ?s2] by simp
  moreover have "send_step ?s3 send_end" using read_error [of 1 ?s3 "''closed''"] by (simp add: send_end_def)
  ultimately show ?thesis by (meson rtranclp.rtrancl_refl converse_rtranclp_into_rtranclp)
qed

lemma send_end_stuck: "\<nexists>t. send_step send_end t"
proof
  assume "\<exists>t. send_step send_end t"
  then obtain t where "send_step send_end t" ..
  then show False by cases (auto simp: send_end_def less_Suc_eq)
qed

theorem Send_leaks_reader_witness:
  "ss_returned send_end \<and> (\<exists>r. live_readers send_end = [r] \<and> ((\<exists>e. r = HasError e) \<or> (\<exists>msg. r = HasResponse msg)))"
  using Send_leaks_reader [OF send_end_reachable] send_end_stuck by blast

theorem Send_refines_witness:
  "ss_out send_end = send_replies [Reply ''pong'', ReadError ''closed''] \<and>
   (\<exists>t. send_step\<^sup>*\<^sup>* send_start t \<and> ss_returned t \<and> ss_out t = [''a''])"
  using Send_refines [of send_end "[Reply ''a'', ReadError ''closed'', Reply ''b'']"] send_end_reachable
  by (auto simp: send_end_def live_readers_def bufSize_def)

section \<open>Serving a proxy and quitting\<close>

text \<open>
  The struct \<open>Proxy\<close> with its channel: an unbuffered channel that was made, or the nil channel, on
  which every communication blocks for ever. \<open>NewProxy\<close> makes the map only.
\<close>

datatype channel = NilChannel | Unbuffered

record proxy_struct =
  ps_Frontends :: proxy
  ps_quitChannel :: channel

definition NewProxyStruct :: proxy_struct where
  "NewProxyStruct = \<lparr>ps_Frontends = NewProxy, ps_quitChannel = NilChannel\<rparr>"

text \<open>The caller of \<open>Proxy.Serve\<close>: in its loop over the frontends, in its receive, or returned.\<close>

datatype server = Starting "string list" | Receiving | ServeReturned

text \<open>
  The callers of \<open>Quit\<close>: each has returned or not; and the frontends that are being served. The
  runtime chooses the order in which the loop walks the map; here it is that of the list of keys,
  and nothing below depends on it.
\<close>

record serving =
  sv_server :: server
  sv_quits :: "bool list"
  sv_started :: "string list"

definition serve_start :: "proxy_struct \<Rightarrow> serving" where
  "serve_start px = \<lparr>sv_server = Starting (gm_keys (ps_Frontends px)), sv_quits = [], sv_started = []\<rparr>"

inductive serve_step :: "proxy_struct \<Rightarrow> serving \<Rightarrow> serving \<Rightarrow> bool" for px where
  spawn: "sv_server v = Starting (addr # rest) \<Longrightarrow>
    serve_step px v (v\<lparr>sv_server := Starting rest, sv_started := sv_started v @ [addr]\<rparr>)"
| all_started: "sv_server v = Starting [] \<Longrightarrow> serve_step px v (v\<lparr>sv_server := Receiving\<rparr>)"
| call_Quit: "serve_step px v (v\<lparr>sv_quits := sv_quits v @ [False]\<rparr>)"
| communicate: "ps_quitChannel px = Unbuffered \<Longrightarrow> sv_server v = Receiving \<Longrightarrow>
    i < length (sv_quits v) \<Longrightarrow> \<not> sv_quits v ! i \<Longrightarrow>
    serve_step px v (v\<lparr>sv_server := ServeReturned, sv_quits := (sv_quits v)[i := True]\<rparr>)"

inductive_cases serve_step_cases: "serve_step px v w"

text \<open>The operations on frontends leave the channel as it is.\<close>

definition with_frontends :: "proxy_struct \<Rightarrow> proxy \<Rightarrow> proxy_struct" where
  "with_frontends px fes = px\<lparr>ps_Frontends := fes\<rparr>"

lemma serve_started:
  assumes "(serve_step px)\<^sup>*\<^sup>* (serve_start px) v"
  shows "sv_started v @ (case sv_server v of Starting rest \<Rightarrow> rest | _ \<Rightarrow> []) = gm_keys (ps_Frontends px)"
  using assms
proof (induction rule: rtranclp_induct)
  case base
  show ?case by (simp add: serve_start_def)
next
  case (step v w)
  from step(2,3) show ?case by cases auto
qed

lemma quits_le:
  assumes "(serve_step px)\<^sup>*\<^sup>* (serve_start px) v"
  shows "(if sv_server v = ServeReturned then 1 else 0) = length (filter (\<lambda>q. q) (sv_quits v)) \<and>
    (sv_server v = ServeReturned \<longrightarrow> ps_quitChannel px = Unbuffered)"
  using assms
proof (induction rule: rtranclp_induct)
  case base
  show ?case by (simp add: serve_start_def)
next
  case (step v w)
  from step(2,3) show ?case
  proof cases
    case (communicate i)
    with step(3) have none: "filter (\<lambda>q. q) (sv_quits v) = []" by (simp split: if_splits)
    have "sv_quits v = take i (sv_quits v) @ sv_quits v ! i # drop (Suc i) (sv_quits v)"
      using communicate(4) by (rule id_take_nth_drop)
    with none have "filter (\<lambda>q. q) (take i (sv_quits v)) = []" "filter (\<lambda>q. q) (drop (Suc i) (sv_quits v)) = []"
      by (metis append_is_Nil_conv filter_append, metis append_is_Nil_conv filter.simps(2) filter_append list.distinct(1))
    with communicate show ?thesis by (simp add: upd_conv_take_nth_drop)
  qed auto
qed

lemma serve_can_return:
  assumes "ps_quitChannel px = Unbuffered" and "sv_server v = Starting rest \<or> sv_server v = Receiving"
  shows "\<exists>w. (serve_step px)\<^sup>*\<^sup>* v w \<and> sv_server w = ServeReturned"
proof -
  have receiving: "\<exists>w. (serve_step px)\<^sup>*\<^sup>* v w \<and> sv_server w = ServeReturned" if "sv_server v = Receiving" for v
  proof -
    let ?v1 = "v\<lparr>sv_quits := sv_quits v @ [False]\<rparr>" and ?i = "length (sv_quits v)"
    have "serve_step px v ?v1" by (rule call_Quit)
    moreover have "serve_step px ?v1 (?v1\<lparr>sv_server := ServeReturned, sv_quits := (sv_quits ?v1)[?i := True]\<rparr>)"
      by (rule communicate) (simp_all add: assms(1) that)
    ultimately have "(serve_step px)\<^sup>*\<^sup>* v (?v1\<lparr>sv_server := ServeReturned, sv_quits := (sv_quits ?v1)[?i := True]\<rparr>)"
      by (meson rtranclp.rtrancl_refl converse_rtranclp_into_rtranclp)
    then show ?thesis by fastforce
  qed
  have "\<exists>w. (serve_step px)\<^sup>*\<^sup>* v w \<and> sv_server w = ServeReturned" if "sv_server v = Starting rest" for rest v
    using that
  proof (induction rest arbitrary: v)
    case Nil
    from receiving [of "v\<lparr>sv_server := Receiving\<rparr>"] all_started [OF Nil, of px] show ?case
      by (auto intro: converse_rtranclp_into_rtranclp)
  next
    case (Cons addr rest)
    from Cons.IH [of "v\<lparr>sv_server := Starting rest, sv_started := sv_started v @ [addr]\<rparr>"] spawn [OF Cons.prems, of px]
    show ?case by (auto intro: converse_rtranclp_into_rtranclp)
  qed
  with assms(2) receiving show ?thesis by blast
qed

text \<open>
  C25. \<open>Proxy.Serve\<close> starts a goroutine for every frontend and then waits for \<open>Quit\<close>; at any time
  it can still return if and only if the channel was made, and then exactly one \<open>Quit\<close> has returned.
  A proxy of \<open>NewProxy\<close> has no channel, whatever frontends are added to it: its \<open>Serve\<close> never
  returns and every \<open>Quit\<close> blocks its caller for ever.
\<close>

theorem Serve_returns_iff:
  assumes "(serve_step px)\<^sup>*\<^sup>* (serve_start px) v"
  shows "(sv_server v \<noteq> ServeReturned \<longrightarrow>
      ((\<exists>w. (serve_step px)\<^sup>*\<^sup>* v w \<and> sv_server w = ServeReturned) \<longleftrightarrow> ps_quitChannel px = Unbuffered)) \<and>
    length (filter (\<lambda>q. q) (sv_quits v)) = (if sv_server v = ServeReturned then 1 else 0) \<and>
    (sv_server v = Receiving \<or> sv_server v = ServeReturned \<longrightarrow> sv_started v = gm_keys (ps_Frontends px)) \<and>
    (px = with_frontends NewProxyStruct fes \<longrightarrow> sv_server v \<noteq> ServeReturned \<and> (\<forall>q\<in>set (sv_quits v). \<not> q))"
proof -
  note quits = quits_le [OF assms]
  have reach: "ps_quitChannel px = Unbuffered" if "(serve_step px)\<^sup>*\<^sup>* v w" "sv_server w = ServeReturned" for w
    using quits_le [OF rtranclp_trans [OF assms that(1)]] that(2) by simp
  have nil: "sv_server v \<noteq> ServeReturned \<and> (\<forall>q\<in>set (sv_quits v). \<not> q)" if "px = with_frontends NewProxyStruct fes"
  proof
    show no: "sv_server v \<noteq> ServeReturned" using quits that by (auto simp: with_frontends_def NewProxyStruct_def)
    with quits show "\<forall>q\<in>set (sv_quits v). \<not> q" by (auto simp: filter_empty_conv)
  qed
  have can: "\<exists>w. (serve_step px)\<^sup>*\<^sup>* v w \<and> sv_server w = ServeReturned"
    if "sv_server v \<noteq> ServeReturned" "ps_quitChannel px = Unbuffered"
    using that serve_can_return [OF that(2)] by (cases "sv_server v") auto
  have started: "sv_started v = gm_keys (ps_Frontends px)" if "sv_server v = Receiving \<or> sv_server v = ServeReturned"
    using serve_started [OF assms] that by auto
  from reach can started nil quits show ?thesis by auto
qed

theorem Serve_returns_iff_witness:
  "\<exists>v. (serve_step (with_frontends NewProxyStruct one_frontend))\<^sup>*\<^sup>* (serve_start (with_frontends NewProxyStruct one_frontend)) v \<and>
     sv_server v = Receiving \<and> sv_quits v = [False] \<and> sv_started v = [''0.0.0.0:53''] \<and>
     (\<nexists>w. (serve_step (with_frontends NewProxyStruct one_frontend))\<^sup>*\<^sup>* v w \<and> sv_server w = ServeReturned)"
proof -
  let ?px = "with_frontends NewProxyStruct one_frontend"
  let ?v1 = "\<lparr>sv_server = Starting [], sv_quits = [], sv_started = [''0.0.0.0:53'']\<rparr>"
  let ?v2 = "?v1\<lparr>sv_server := Receiving\<rparr>" and ?v3 = "\<lparr>sv_server = Receiving, sv_quits = [False], sv_started = [''0.0.0.0:53'']\<rparr>"
  have px: "ps_Frontends ?px = one_frontend" "ps_quitChannel ?px = NilChannel"
    by (simp_all add: with_frontends_def NewProxyStruct_def)
  have st: "serve_start ?px = \<lparr>sv_server = Starting [''0.0.0.0:53''], sv_quits = [], sv_started = []\<rparr>"
    unfolding serve_start_def px by (simp add: one_frontend_def gm_keys_def)
  have "serve_step ?px (serve_start ?px) ?v1"
    using spawn [of "serve_start ?px" "''0.0.0.0:53''" "[]" ?px] unfolding st by simp
  moreover have "serve_step ?px ?v1 ?v2" by (rule all_started) simp
  moreover have "serve_step ?px ?v2 ?v3" using call_Quit [of ?px ?v2] by simp
  ultimately have r: "(serve_step ?px)\<^sup>*\<^sup>* (serve_start ?px) ?v3"
    by (meson rtranclp.rtrancl_refl converse_rtranclp_into_rtranclp)
  from Serve_returns_iff [OF r] px(2) r show ?thesis by (intro exI [of _ ?v3]) auto
qed

section \<open>Printing\<close>

text \<open>
  \<open>Proxy.Dump\<close>. The verb \<open>%02v\<close> pads a string with zeros to the width 2. A map is walked in an
  order of the runtime's choice, a permutation of its keys, which is the argument \<open>keys\<close>.
\<close>

definition zero_pad :: "nat \<Rightarrow> string \<Rightarrow> string" where
  "zero_pad w s = replicate (w - length s) (CHR ''0'') @ s"

definition Dump :: "proxy \<Rightarrow> string list \<Rightarrow> string" where
  "Dump px keys =
     ''UdpProxy: '' @ nat_str (length (gm_keys px)) @ '' frontends:'' @ nl @
     concat (map (\<lambda>i. case gm_get px i of
         Some fe \<Rightarrow> '' '' @ zero_pad 2 i @ '':  '' @ frontend_str fe @ nl
       | None \<Rightarrow> []) keys)"

text \<open>The type \<open>Session\<close>, with its backend by position.\<close>

record session =
  sn_LastActive :: int
  sn_Backend :: nat
  sn_RequestBuf :: string
  sn_ResponseBuf :: string

text \<open>Every frontend is printed once, with the number of them.\<close>

lemma Dump_lines:
  assumes "set keys = set (gm_keys px)"
  shows "Dump px keys = ''UdpProxy: '' @ nat_str (length (gm_keys px)) @ '' frontends:'' @ nl @
     concat (map (\<lambda>i. '' '' @ zero_pad 2 i @ '':  '' @ frontend_str (the (gm_get px i)) @ nl) keys)"
proof -
  have "gm_get px i \<noteq> None" if "i \<in> set keys" for i
    using that assms set_gm_keys [of px] by (auto simp: dom_def)
  then have "map (\<lambda>i. case gm_get px i of Some fe \<Rightarrow> '' '' @ zero_pad 2 i @ '':  '' @ frontend_str fe @ nl | None \<Rightarrow> []) keys =
      map (\<lambda>i. '' '' @ zero_pad 2 i @ '':  '' @ frontend_str (the (gm_get px i)) @ nl) keys"
    by (auto split: option.split)
  then show ?thesis by (simp only: Dump_def)
qed

end
