(* ===== verification/Api.thy ===== *)
theory Api
  imports Helper
begin

text \<open>
  The HTTP service-discovery API, src/api.go: the handlers of its five routes. A request is what
  they read of it, the route variable \<open>app_id\<close> and the query parameters; a response is the status
  and the body, and every error status comes with an empty body. Each handler asks Marathon anew.

  The router and the HTTP server are packages outside the repository. The server recovers a panic
  of a handler and drops the connection, so a panic here is a failed request and no crash.
\<close>

record api_config =
  ac_Version :: string
  ac_MarathonIP :: string
  ac_MarathonPort :: uint
  ac_Addr :: string
  ac_Port :: uint

record http_request =
  rq_appId :: string
  rq_query :: "(string \<times> string) list"

record http_response =
  rs_status :: nat
  rs_body :: string

definition NewAPI :: "string \<Rightarrow> string \<Rightarrow> uint \<Rightarrow> string \<Rightarrow> uint \<Rightarrow> api_config" where
  "NewAPI version marathonIP marathonPort addr port =
     \<lparr>ac_Version = version, ac_MarathonIP = marathonIP, ac_MarathonPort = marathonPort,
      ac_Addr = addr, ac_Port = port\<rparr>"

definition status_only :: "nat \<Rightarrow> http_response" where
  "status_only code = \<lparr>rs_status = code, rs_body = []\<rparr>"

definition ok_body :: "string \<Rightarrow> http_response" where
  "ok_body s = \<lparr>rs_status = 200, rs_body = s\<rparr>"

definition query_get :: "http_request \<Rightarrow> string \<Rightarrow> string" where
  "query_get r key = label (rq_query r) key"

definition v0Ping :: "api_config \<Rightarrow> http_request \<Rightarrow> http_response" where
  "v0Ping api r = ok_body (''pong'' @ nl)"

definition v0Version :: "api_config \<Rightarrow> http_request \<Rightarrow> http_response" where
  "v0Version api r = ok_body (''api '' @ ac_Version api @ nl)"

definition v1Apps :: "marathon_client \<Rightarrow> nat \<Rightarrow> api_config \<Rightarrow> http_request \<Rightarrow> http_response" where
  "v1Apps mc n api r =
     (case mc (ac_MarathonIP api) (ac_MarathonPort api) of
        Inl err \<Rightarrow> status_only 500
      | Inr m \<Rightarrow>
         (case mc_getApps m n of
            Inl err \<Rightarrow> status_only 500
          | Inr apps \<Rightarrow> ok_body (join_str nl (sort (map a_id apps)) @ nl)))"

text \<open>The loop over the ports of one task; its counter and bounds are signed.\<close>

function instance_ports :: "marathon_task \<Rightarrow> int \<Rightarrow> int \<Rightarrow> string go" where
  "instance_ports task portIndex portEnd =
     (if portIndex \<le> portEnd then
        go_bind (go_nth_int (t_ports task) portIndex) (\<lambda>port.
        go_bind (instance_ports task (portIndex + 1) portEnd) (\<lambda>rest.
          Ret ('':'' @ uint_str port @ rest)))
      else Ret [])"
  by pat_completeness auto
termination by (relation "measure (\<lambda>(task, i, e). nat (e + 1 - i))") auto

declare instance_ports.simps [simp del]

definition instance_item :: "host_env \<Rightarrow> bool \<Rightarrow> bool \<Rightarrow> int \<Rightarrow> int \<Rightarrow> marathon_task \<Rightarrow> string go" where
  "instance_item env noResolve withServerID portBegin portEnd task =
     go_bind (instance_ports task portBegin portEnd) (\<lambda>ports.
       Ret ((if withServerID then nat_str (unat (Hash (t_slaveId task))) @ '':'' else []) @
            resolveIPAddr env (t_host task) noResolve @ ports))"

fun instance_list :: "(marathon_task \<Rightarrow> string go) \<Rightarrow> marathon_task list \<Rightarrow> string list go" where
  "instance_list item [] = Ret []"
| "instance_list item (task # tasks) =
     go_bind (item task) (\<lambda>s. go_bind (instance_list item tasks) (\<lambda>rest. Ret (s # rest)))"

definition v1Instances :: "host_env \<Rightarrow> marathon_client \<Rightarrow> nat \<Rightarrow> api_config \<Rightarrow> http_request \<Rightarrow> http_response go" where
  "v1Instances env mc n api r =
     (let noResolve = (query_get r ''noresolve'' = ''1'');
          withServerID = (query_get r ''withid'' = ''1'');
          (portBegin, portEnd, err) = parseRange (query_get r ''portIndex'') in
      if err \<noteq> None then Ret (status_only 400)
      else
       (case mc (ac_MarathonIP api) (ac_MarathonPort api) of
          Inl e \<Rightarrow> Ret (status_only 500)
        | Inr m \<Rightarrow>
           (case mc_getApp m n (rq_appId r) of
              Inl e \<Rightarrow> Ret (status_only 500)
            | Inr None \<Rightarrow> Ret (status_only 404)
            | Inr (Some app) \<Rightarrow>
                if portEnd \<ge> int (length (a_ports app)) then Ret (status_only 400)
                else
                  let portEnd = (if portEnd < 0 then int (length (a_ports app)) - 1 else portEnd) in
                  if length (a_tasks app) = 0 then Ret (status_only 204)
                  else
                    go_bind (instance_list (instance_item env noResolve withServerID portBegin portEnd) (a_tasks app))
                      (\<lambda>items. Ret (ok_body (concat (map (\<lambda>entry. entry @ nl) (sort items))))))))"

definition v1ServicePorts :: "marathon_client \<Rightarrow> nat \<Rightarrow> api_config \<Rightarrow> http_request \<Rightarrow> http_response" where
  "v1ServicePorts mc n api r =
     (case mc (ac_MarathonIP api) (ac_MarathonPort api) of
        Inl e \<Rightarrow> status_only 500
      | Inr m \<Rightarrow>
         (case mc_getApp m n (rq_appId r) of
            Inl e \<Rightarrow> status_only 500
          | Inr None \<Rightarrow> status_only 404
          | Inr (Some app) \<Rightarrow> ok_body (concat (map (\<lambda>port. uint_str port @ nl) (a_ports app)))))"

section \<open>The lines of the instances\<close>

text \<open>The specification of a line: the optional server id, the host, and the ports of the range.\<close>

definition ports_text :: "uint list \<Rightarrow> string" where
  "ports_text ps = concat (map (\<lambda>p. '':'' @ uint_str p) ps)"

definition instance_text :: "host_env \<Rightarrow> bool \<Rightarrow> bool \<Rightarrow> nat \<Rightarrow> nat \<Rightarrow> marathon_task \<Rightarrow> string" where
  "instance_text env noResolve withServerID b e task =
     (if withServerID then nat_str (unat (Hash (t_slaveId task))) @ '':'' else []) @
     resolveIPAddr env (t_host task) noResolve @ ports_text (drop b (take (Suc e) (t_ports task)))"

lemma instance_ports_range:
  "e < length (t_ports task) \<Longrightarrow>
   instance_ports task (int b) (int e) = Ret (ports_text (drop b (take (Suc e) (t_ports task))))"
proof (induction "Suc e - b" arbitrary: b)
  case 0
  then show ?case by (subst instance_ports.simps) (simp add: ports_text_def)
next
  case (Suc k)
  then have b: "b \<le> e" by simp
  have "drop b (take (Suc e) (t_ports task)) = t_ports task ! b # drop (Suc b) (take (Suc e) (t_ports task))"
    using Suc.prems b by (subst Cons_nth_drop_Suc [symmetric]) auto
  moreover have "instance_ports task (int (Suc b)) (int e) =
      Ret (ports_text (drop (Suc b) (take (Suc e) (t_ports task))))"
    using Suc by (intro Suc.hyps(1)) auto
  ultimately show ?case
    using Suc.prems b by (subst instance_ports.simps)
      (simp add: go_nth_int_def ports_text_def add.commute)
qed

lemma instance_list_map:
  "(\<And>t. t \<in> set ts \<Longrightarrow> item t = Ret (f t)) \<Longrightarrow> instance_list item ts = Ret (map f ts)"
  by (induction ts) auto

lemma instance_list_panics:
  "ts \<noteq> [] \<Longrightarrow> (\<And>t. t \<in> set ts \<Longrightarrow> item t = Panic p) \<Longrightarrow> instance_list item ts = Panic p"
  by (cases ts) auto

section \<open>Properties\<close>

text \<open>
  C13. The instances of an application: for a range of ports that every task has, the response has
  one line per task and no other line, with the options the query asks for, in sorted order; an
  open-ended range reaches to the last port of the application.
\<close>

theorem v1Instances_lists:
  assumes "mc (ac_MarathonIP api) (ac_MarathonPort api) = Inr m" and "mc_getApp m n (rq_appId r) = Inr (Some app)"
    and "parseRange (query_get r ''portIndex'') = (int b, e, None)" and "e < int (length (a_ports app))"
    and "a_ports app \<noteq> []" and "a_tasks app \<noteq> []"
    and "e' = (if e < 0 then length (a_ports app) - 1 else nat e)"
    and "\<forall>t\<in>set (a_tasks app). e' < length (t_ports t)"
  shows "\<exists>items. v1Instances env mc n api r = Ret (ok_body (concat (map (\<lambda>s. s @ nl) items))) \<and> sorted items \<and>
    mset items = image_mset (instance_text env (query_get r ''noresolve'' = ''1'') (query_get r ''withid'' = ''1'') b e')
      (mset (a_tasks app))"
proof -
  let ?nr = "query_get r ''noresolve'' = ''1''" and ?id = "query_get r ''withid'' = ''1''"
  have e': "(if e < 0 then int (length (a_ports app)) - 1 else e) = int e'"
    using assms(5) by (cases "a_ports app") (simp_all add: assms(7))
  have "instance_item env ?nr ?id (int b) (int e') t = Ret (instance_text env ?nr ?id b e' t)"
    if "t \<in> set (a_tasks app)" for t
    using that assms(8) by (simp add: instance_item_def instance_ports_range instance_text_def)
  then have items: "instance_list (instance_item env ?nr ?id (int b) (int e')) (a_tasks app) =
      Ret (map (instance_text env ?nr ?id b e') (a_tasks app))"
    by (rule instance_list_map)
  have "v1Instances env mc n api r = Ret (ok_body (concat (map (\<lambda>s. s @ nl)
      (sort (map (instance_text env ?nr ?id b e') (a_tasks app))))))"
    using assms(1-4,6) items by (simp add: v1Instances_def Let_def e' del: map_map)
  then show ?thesis by (intro exI conjI) (assumption, simp_all)
qed

text \<open>
  A range with a negative first port is not refused: the request panics as soon as the
  application has a task (the server drops the connection).
\<close>

theorem v1Instances_negative_panics:
  assumes "mc (ac_MarathonIP api) (ac_MarathonPort api) = Inr m" and "mc_getApp m n (rq_appId r) = Inr (Some app)"
    and "parseRange (query_get r ''portIndex'') = (b, e, None)" and "b < 0"
    and "e < int (length (a_ports app))" and "a_tasks app \<noteq> []"
  shows "v1Instances env mc n api r = Panic IndexOutOfRange"
proof -
  define e' where "e' = (if e < 0 then int (length (a_ports app)) - 1 else e)"
  have "b \<le> e'" using assms(4) by (simp add: e'_def)
  then have "instance_ports t b e' = Panic IndexOutOfRange" for t
    using assms(4) by (subst instance_ports.simps) (simp add: go_nth_int_def)
  then have "instance_list (instance_item env nr wid b e') (a_tasks app) = Panic IndexOutOfRange" for nr wid
    by (intro instance_list_panics [OF assms(6)]) (simp add: instance_item_def)
  with assms(1-3,5,6) show ?thesis by (simp add: v1Instances_def Let_def e'_def [symmetric])
qed

lemma instance_ports_panic: "instance_ports task i e = Panic p \<Longrightarrow> p = IndexOutOfRange"
proof (induction task i e rule: instance_ports.induct)
  case (1 task i e)
  then show ?case
    by (subst (asm) instance_ports.simps) (auto simp: go_bind_eq_Panic go_nth_int_def split: if_splits)
qed

lemma instance_list_panic:
  "(\<And>t p. item t = Panic p \<Longrightarrow> p = q) \<Longrightarrow> instance_list item ts = Panic p \<Longrightarrow> p = q"
  by (induction ts) (auto simp: go_bind_eq_Panic)

lemma all_from:
  assumes "b \<le> (e::int)"
  shows "P b \<and> (\<forall>i. b + 1 \<le> i \<and> i \<le> e \<longrightarrow> P i) \<longleftrightarrow> (\<forall>i. b \<le> i \<and> i \<le> e \<longrightarrow> P i)"
proof (intro iffI allI impI)
  fix i
  assume p: "P b \<and> (\<forall>i. b + 1 \<le> i \<and> i \<le> e \<longrightarrow> P i)" and i: "b \<le> i \<and> i \<le> e"
  show "P i"
  proof (cases "i = b")
    case False
    with i have "b + 1 \<le> i" by simp
    with p i show ?thesis by simp
  qed (use p in simp)
qed (use assms in auto)

text \<open>The loop over the ports returns if and only if the task has all of them.\<close>

lemma instance_ports_returns:
  "returns (instance_ports task b e) \<longleftrightarrow> (\<forall>i. b \<le> i \<and> i \<le> e \<longrightarrow> 0 \<le> i \<and> i < int (length (t_ports task)))"
proof (induction task b e rule: instance_ports.induct)
  case (1 task b e)
  show ?case
  proof (cases "b \<le> e")
    case False
    then show ?thesis by (subst instance_ports.simps) auto
  next
    case True
    have "returns (instance_ports task b e) \<longleftrightarrow>
        (0 \<le> b \<and> b < int (length (t_ports task))) \<and> returns (instance_ports task (b + 1) e)"
      using True by (subst instance_ports.simps) (auto simp: returns_iff go_bind_eq_Ret go_nth_int_eq_Ret)
    also have "\<dots> \<longleftrightarrow> (0 \<le> b \<and> b < int (length (t_ports task))) \<and>
        (\<forall>i. b + 1 \<le> i \<and> i \<le> e \<longrightarrow> 0 \<le> i \<and> i < int (length (t_ports task)))"
    proof (cases "0 \<le> b \<and> b < int (length (t_ports task))")
      case in_range: True
      then have "go_nth_int (t_ports task) b = Ret (t_ports task ! nat b)" by (simp add: go_nth_int_def)
      from "1.IH" [OF True this] show ?thesis by simp
    next
      case False
      then show ?thesis by blast
    qed
    also have "\<dots> \<longleftrightarrow> (\<forall>i. b \<le> i \<and> i \<le> e \<longrightarrow> 0 \<le> i \<and> i < int (length (t_ports task)))"
      by (rule all_from [OF True])
    finally show ?thesis .
  qed
qed

lemma instance_list_returns: "returns (instance_list item ts) \<longleftrightarrow> (\<forall>t\<in>set ts. returns (item t))"
  by (induction ts) (auto simp: returns_iff go_bind_eq_Ret)

text \<open>What Marathon answers to a question for one application.\<close>

datatype answer = Failed | Missing | Found marathon_app

definition ask_app :: "marathon_client \<Rightarrow> nat \<Rightarrow> api_config \<Rightarrow> string \<Rightarrow> answer" where
  "ask_app mc n api appID =
     (case mc (ac_MarathonIP api) (ac_MarathonPort api) of
        Inl e \<Rightarrow> Failed
      | Inr m \<Rightarrow> (case mc_getApp m n appID of Inl e \<Rightarrow> Failed | Inr None \<Rightarrow> Missing | Inr (Some app) \<Rightarrow> Found app))"

text \<open>The lines of a body, each of which ends with a line break.\<close>

definition body_lines :: "string \<Rightarrow> string list" where
  "body_lines body = butlast (split_str (CHR 0x0A) body)"

lemma body_lines_concat:
  "(\<forall>l\<in>set ls. CHR 0x0A \<notin> set l) \<Longrightarrow> body_lines (concat (map (\<lambda>l. l @ nl) ls)) = ls"
proof -
  have "(\<forall>l\<in>set ls. CHR 0x0A \<notin> set l) \<Longrightarrow> split_str (CHR 0x0A) (concat (map (\<lambda>l. l @ nl) ls)) = ls @ [[]]"
    by (induction ls) (auto simp: split_str_Cons_sep)
  then show "(\<forall>l\<in>set ls. CHR 0x0A \<notin> set l) \<Longrightarrow> body_lines (concat (map (\<lambda>l. l @ nl) ls)) = ls"
    by (simp add: body_lines_def)
qed

lemma uint_str_no_nl: "CHR 0x0A \<notin> set (uint_str p)"
  by (simp add: uint_str_def nat_str_free)

lemma apps_lines:
  assumes "\<forall>app\<in>set apps. CHR 0x0A \<notin> set (a_id app)"
  shows "body_lines (join_str nl (sort (map a_id apps)) @ nl) = (if apps = [] then [[]] else sort (map a_id apps))"
proof -
  have join: "xs \<noteq> [] \<Longrightarrow> join_str nl xs @ nl = concat (map (\<lambda>l. l @ nl) xs)" for xs
    by (induction xs rule: join_str.induct [of _ nl]) auto
  show ?thesis
  proof (cases "apps = []")
    case True
    then show ?thesis by (simp add: body_lines_def)
  next
    case False
    then have "sort (map a_id apps) \<noteq> []" by (metis length_0_conv length_map length_sort)
    from join [OF this] assms body_lines_concat [of "sort (map a_id apps)"] False show ?thesis by simp
  qed
qed

lemma port_lines: "body_lines (concat (map (\<lambda>port. uint_str port @ nl) ports)) = map uint_str ports"
  using body_lines_concat [of "map uint_str ports"] by (simp add: uint_str_no_nl comp_def)

lemma instance_item_outcome:
  "returns (instance_item env nr wid b e t) \<longleftrightarrow> returns (instance_ports t b e)"
  "instance_item env nr wid b e t = Panic p \<Longrightarrow> p = IndexOutOfRange"
  by (auto simp: instance_item_def returns_iff go_bind_eq_Ret go_bind_eq_Panic dest: instance_ports_panic)

lemma length_instance_list: "instance_list item ts = Ret items \<Longrightarrow> length items = length ts"
  by (induction ts arbitrary: items) (auto simp: go_bind_eq_Ret)

lemma instances_outcome:
  "if \<forall>t\<in>set ts. \<forall>i. b \<le> i \<and> i \<le> e \<longrightarrow> 0 \<le> i \<and> i < int (length (t_ports t))
   then \<exists>items. instance_list (instance_item env nr wid b e) ts = Ret items \<and> length items = length ts
   else instance_list (instance_item env nr wid b e) ts = Panic IndexOutOfRange"
proof (cases "instance_list (instance_item env nr wid b e) ts")
  case (Ret items)
  then have "returns (instance_list (instance_item env nr wid b e) ts)" by simp
  with Ret length_instance_list [OF Ret] show ?thesis
    unfolding instance_list_returns instance_item_outcome instance_ports_returns by simp
next
  case (Panic p)
  then have "\<not> returns (instance_list (instance_item env nr wid b e) ts)" by simp
  moreover have "p = IndexOutOfRange"
    using Panic by (rule instance_list_panic [rotated]) (rule instance_item_outcome(2))
  ultimately show ?thesis using Panic
    unfolding instance_list_returns instance_item_outcome instance_ports_returns by simp
qed

text \<open>
  C40. What each route answers, by what Marathon answers: an unreachable Marathon is a 500 and an
  unknown application a 404. The list of applications has one line per application, sorted, and the
  service ports one line per port, in their order. For the instances a range that does not parse is
  a 400 before Marathon is asked, one that ends behind the last port a 400 too, an application
  without tasks a 204; otherwise the answer is a 200, or a panic with an index error if and only if
  some task lacks a port of the range (or the range starts below zero).
\<close>

theorem api_answers:
  "v0Ping api r = ok_body (''pong'' @ nl) \<and> v0Version api r = ok_body (''api '' @ ac_Version api @ nl) \<and>
   (case mc (ac_MarathonIP api) (ac_MarathonPort api) of
      Inl e \<Rightarrow> v1Apps mc n api r = status_only 500
    | Inr m \<Rightarrow> (case mc_getApps m n of
        Inl e \<Rightarrow> v1Apps mc n api r = status_only 500
      | Inr apps \<Rightarrow> \<exists>body. v1Apps mc n api r = ok_body body \<and>
          ((\<forall>app\<in>set apps. CHR 0x0A \<notin> set (a_id app)) \<longrightarrow>
             body_lines body = (if apps = [] then [[]] else sort (map a_id apps))))) \<and>
   (case ask_app mc n api (rq_appId r) of
      Failed \<Rightarrow> v1ServicePorts mc n api r = status_only 500
    | Missing \<Rightarrow> v1ServicePorts mc n api r = status_only 404
    | Found app \<Rightarrow> \<exists>body. v1ServicePorts mc n api r = ok_body body \<and> body_lines body = map uint_str (a_ports app)) \<and>
   (case parseRange (query_get r ''portIndex'') of (b, e, err) \<Rightarrow>
      if err \<noteq> None then v1Instances env mc n api r = Ret (status_only 400)
      else (case ask_app mc n api (rq_appId r) of
          Failed \<Rightarrow> v1Instances env mc n api r = Ret (status_only 500)
        | Missing \<Rightarrow> v1Instances env mc n api r = Ret (status_only 404)
        | Found app \<Rightarrow>
            let k = int (length (a_ports app)); last = (if e < 0 then k - 1 else e) in
            if k \<le> e then v1Instances env mc n api r = Ret (status_only 400)
            else if a_tasks app = [] then v1Instances env mc n api r = Ret (status_only 204)
            else if \<forall>t\<in>set (a_tasks app). \<forall>i. b \<le> i \<and> i \<le> last \<longrightarrow> 0 \<le> i \<and> i < int (length (t_ports t))
            then \<exists>items. v1Instances env mc n api r = Ret (ok_body (concat (map (\<lambda>s. s @ nl) items))) \<and>
              sorted items \<and> length items = length (a_tasks app)
            else v1Instances env mc n api r = Panic IndexOutOfRange))"
proof (intro conjI)
  show "case mc (ac_MarathonIP api) (ac_MarathonPort api) of
      Inl e \<Rightarrow> v1Apps mc n api r = status_only 500
    | Inr m \<Rightarrow> (case mc_getApps m n of
        Inl e \<Rightarrow> v1Apps mc n api r = status_only 500
      | Inr apps \<Rightarrow> \<exists>body. v1Apps mc n api r = ok_body body \<and>
          ((\<forall>app\<in>set apps. CHR 0x0A \<notin> set (a_id app)) \<longrightarrow>
             body_lines body = (if apps = [] then [[]] else sort (map a_id apps))))"
    by (auto simp: v1Apps_def apps_lines split: sum.split) (auto simp: body_lines_def intro!: exI [of _ nl])
  show "case ask_app mc n api (rq_appId r) of
      Failed \<Rightarrow> v1ServicePorts mc n api r = status_only 500
    | Missing \<Rightarrow> v1ServicePorts mc n api r = status_only 404
    | Found app \<Rightarrow> \<exists>body. v1ServicePorts mc n api r = ok_body body \<and> body_lines body = map uint_str (a_ports app)"
    by (auto simp: v1ServicePorts_def ask_app_def port_lines split: sum.split option.split)
  show "case parseRange (query_get r ''portIndex'') of (b, e, err) \<Rightarrow>
      if err \<noteq> None then v1Instances env mc n api r = Ret (status_only 400)
      else (case ask_app mc n api (rq_appId r) of
          Failed \<Rightarrow> v1Instances env mc n api r = Ret (status_only 500)
        | Missing \<Rightarrow> v1Instances env mc n api r = Ret (status_only 404)
        | Found app \<Rightarrow>
            let k = int (length (a_ports app)); last = (if e < 0 then k - 1 else e) in
            if k \<le> e then v1Instances env mc n api r = Ret (status_only 400)
            else if a_tasks app = [] then v1Instances env mc n api r = Ret (status_only 204)
            else if \<forall>t\<in>set (a_tasks app). \<forall>i. b \<le> i \<and> i \<le> last \<longrightarrow> 0 \<le> i \<and> i < int (length (t_ports t))
            then \<exists>items. v1Instances env mc n api r = Ret (ok_body (concat (map (\<lambda>s. s @ nl) items))) \<and>
              sorted items \<and> length items = length (a_tasks app)
            else v1Instances env mc n api r = Panic IndexOutOfRange)"
  proof -
    obtain b e err where p: "parseRange (query_get r ''portIndex'') = (b, e, err)" by (metis prod_cases3)
    show ?thesis
    proof (cases "err = None \<and> (\<exists>app. ask_app mc n api (rq_appId r) = Found app)")
      case False
      then show ?thesis
        by (auto simp: p v1Instances_def ask_app_def Let_def split: sum.splits option.splits)
    next
      case True
      then obtain app where a: "ask_app mc n api (rq_appId r) = Found app" and "err = None" by auto
      then obtain m where m: "mc (ac_MarathonIP api) (ac_MarathonPort api) = Inr m"
        "mc_getApp m n (rq_appId r) = Inr (Some app)" by (auto simp: ask_app_def split: sum.splits option.splits)
      define k where "k = int (length (a_ports app))"
      define last where "last = (if e < 0 then k - 1 else e)"
      let ?items = "instance_list (instance_item env (query_get r ''noresolve'' = ''1'')
        (query_get r ''withid'' = ''1'') b last) (a_tasks app)"
      have v: "v1Instances env mc n api r = (if k \<le> e then Ret (status_only 400)
          else if a_tasks app = [] then Ret (status_only 204)
          else go_bind ?items (\<lambda>items. Ret (ok_body (concat (map (\<lambda>entry. entry @ nl) (sort items))))))"
        using p m \<open>err = None\<close> by (simp add: v1Instances_def k_def last_def Let_def)
      note items = instances_outcome [of "a_tasks app" b last env "query_get r ''noresolve'' = ''1''" "query_get r ''withid'' = ''1''"]
      show ?thesis
        using items by (auto simp: p a v Let_def \<open>err = None\<close> simp flip: k_def last_def split: if_splits)
    qed
  qed
qed (simp_all add: v0Ping_def v0Version_def)

text \<open>
  The list of applications: the body of a successful request has the ids of all applications
  that Marathon reports, sorted, one per line (an id has no line break), and nothing else.
\<close>

theorem v1Apps_lists:
  assumes "mc (ac_MarathonIP api) (ac_MarathonPort api) = Inr m" and "mc_getApps m n = Inr apps"
    and "apps \<noteq> []" and "\<forall>app\<in>set apps. CHR 0x0A \<notin> set (a_id app)"
  shows "\<exists>ids. v1Apps mc n api r = ok_body (join_str nl ids @ nl) \<and> split_str (CHR 0x0A) (join_str nl ids) = ids \<and>
    sorted ids \<and> mset ids = mset (map a_id apps)"
proof (intro exI conjI)
  show "v1Apps mc n api r = ok_body (join_str nl (sort (map a_id apps)) @ nl)"
    using assms(1,2) by (simp add: v1Apps_def)
  show "split_str (CHR 0x0A) (join_str nl (sort (map a_id apps))) = sort (map a_id apps)"
    using assms(3,4) by (intro split_join_str) (auto simp: set_empty [symmetric] simp del: set_empty)
qed simp_all

section \<open>An example\<close>

definition api_example :: api_config where
  "api_example = NewAPI ''0.13.0'' ''127.0.0.1'' 8080 ''0.0.0.0'' 8082"

definition inst_app :: marathon_app where
  "inst_app = \<lparr>a_id = ''/web'', a_ports = [80], a_portDefs = [], a_labels = [],
     a_tasks = [\<lparr>t_id = ''t2'', t_appId = ''/web'', t_host = ''slave2'', t_ports = [31002], t_slaveId = [],
                 t_state = None, t_healthResults = []\<rparr>,
                \<lparr>t_id = ''t1'', t_appId = ''/web'', t_host = ''slave1'', t_ports = [31001], t_slaveId = [],
                 t_state = None, t_healthResults = []\<rparr>],
     a_healthChecks = [], a_docker = None\<rparr>"

definition inst_marathon :: marathon_client where
  "inst_marathon ip port = Inr \<lparr>mc_getApps = (\<lambda>n. Inr [inst_app]), mc_getApp = (\<lambda>n aid. Inr (Some inst_app))\<rparr>"

theorem v1Instances_lists_witness:
  "\<exists>items. v1Instances example_env inst_marathon 0 api_example \<lparr>rq_appId = ''/web'', rq_query = [(''noresolve'', ''1'')]\<rparr> =
      Ret (ok_body (concat (map (\<lambda>s. s @ nl) items))) \<and> sorted items \<and>
    mset items = {# ''slave1:31001'', ''slave2:31002'' #}"
proof -
  let ?r = "\<lparr>rq_appId = ''/web'', rq_query = [(''noresolve'', ''1'')]\<rparr>"
  have p: "parseRange (query_get ?r ''portIndex'') = (int 0, 0, None)"
    by (simp add: query_get_def parseRange_def)
  have t: "image_mset (instance_text example_env True False 0 0) (mset (a_tasks inst_app)) =
      {# ''slave1:31001'', ''slave2:31002'' #}"
    by (simp add: inst_app_def instance_text_def resolveIPAddr_def ports_text_def go_eval)
  have "query_get ?r ''noresolve'' = ''1''" "query_get ?r ''withid'' \<noteq> ''1''" by (simp_all add: query_get_def)
  with v1Instances_lists [of inst_marathon api_example "\<lparr>mc_getApps = (\<lambda>n. Inr [inst_app]),
      mc_getApp = (\<lambda>n aid. Inr (Some inst_app))\<rparr>" 0 ?r inst_app 0 0 0 example_env, OF _ _ p] t
  show ?thesis by (simp add: inst_marathon_def inst_app_def)
qed

theorem v1Instances_negative_panics_witness:
  "v1Instances example_env inst_marathon 0 api_example \<lparr>rq_appId = ''/web'', rq_query = [(''portIndex'', ''-1'')]\<rparr> =
     Panic IndexOutOfRange"
  by (rule v1Instances_negative_panics [where b = "- 1" and e = "- 1" and app = inst_app])
    (simp_all add: inst_marathon_def query_get_def parseRange_negative, simp_all add: inst_app_def)

theorem v1Apps_lists_witness:
  "\<exists>ids. v1Apps inst_marathon 0 api_example \<lparr>rq_appId = [], rq_query = []\<rparr> = ok_body (join_str nl ids @ nl) \<and>
     split_str (CHR 0x0A) (join_str nl ids) = ids \<and> sorted ids \<and> mset ids = {# ''/web'' #}"
  using v1Apps_lists [of inst_marathon api_example "\<lparr>mc_getApps = (\<lambda>n. Inr [inst_app]),
      mc_getApp = (\<lambda>n aid. Inr (Some inst_app))\<rparr>" 0 "[inst_app]"]
  by (simp add: inst_marathon_def inst_app_def)

theorem api_answers_witness:
  "(\<exists>body. v1ServicePorts inst_marathon 0 api_example \<lparr>rq_appId = ''/web'', rq_query = []\<rparr> = ok_body body \<and>
     body_lines body = [''80'']) \<and>
   (\<exists>body. v1Apps inst_marathon 0 api_example \<lparr>rq_appId = ''/web'', rq_query = []\<rparr> = ok_body body \<and>
     body_lines body = [''/web''])"
proof -
  have a: "ask_app inst_marathon 0 api_example ''/web'' = Found inst_app"
    by (simp add: ask_app_def inst_marathon_def)
  have "a_ports inst_app = [80]" "a_id inst_app = ''/web''" by (simp_all add: inst_app_def)
  moreover have "uint_str 80 = ''80''" by (simp add: go_eval)
  ultimately show ?thesis
    using api_answers [of api_example "\<lparr>rq_appId = ''/web'', rq_query = []\<rparr>" inst_marathon 0 example_env] a
    by (simp add: inst_marathon_def)
qed

end
