(* ===== verification/Handler.thy ===== *)
theory Handler
  imports Marathon
begin

text \<open>
  The interface \<open>mmsdHandler\<close> of src/main.go, by which the service drives the four managers:
  \<open>Apply\<close> with all applications, \<open>Update\<close> with one application after an event of a task, and
  \<open>Remove\<close> with an application that lost a task, or with none when it was destroyed. Each
  returns the new state of the manager and an error, or panics.

  A manager fulfils the locale \<open>mmsd_handler\<close> with an invariant of its state that all three
  operations keep. A manager whose \<open>Apply\<close> rebuilds everything from its argument also fulfils
  \<open>resetting_handler\<close>: what its clients see after an \<open>Apply\<close> does not depend on the calls
  before it.
\<close>

type_synonym 's handler_result = "('s \<times> go_error option) go"

datatype handler_call = CallApply "marathon_app list" | CallUpdate marathon_app string
  | CallRemove string string "marathon_app option"

primrec handler_step :: "('s \<Rightarrow> marathon_app list \<Rightarrow> 's handler_result)
    \<Rightarrow> ('s \<Rightarrow> marathon_app \<Rightarrow> string \<Rightarrow> 's handler_result)
    \<Rightarrow> ('s \<Rightarrow> string \<Rightarrow> string \<Rightarrow> marathon_app option \<Rightarrow> 's handler_result)
    \<Rightarrow> 's \<Rightarrow> handler_call \<Rightarrow> 's handler_result" where
  "handler_step ap up rem s (CallApply apps) = ap s apps"
| "handler_step ap up rem s (CallUpdate app tid) = up s app tid"
| "handler_step ap up rem s (CallRemove aid tid app) = rem s aid tid app"

text \<open>A sequence of calls; the service logs the errors and goes on.\<close>

definition handler_run :: "('s \<Rightarrow> marathon_app list \<Rightarrow> 's handler_result)
    \<Rightarrow> ('s \<Rightarrow> marathon_app \<Rightarrow> string \<Rightarrow> 's handler_result)
    \<Rightarrow> ('s \<Rightarrow> string \<Rightarrow> string \<Rightarrow> marathon_app option \<Rightarrow> 's handler_result)
    \<Rightarrow> 's \<Rightarrow> handler_call list \<Rightarrow> 's go" where
  "handler_run ap up rem =
     go_fold (\<lambda>s call. go_bind (handler_step ap up rem s call) (\<lambda>(s', err). Ret s'))"

text \<open>The applications that a call hands over.\<close>

primrec call_apps :: "handler_call \<Rightarrow> marathon_app list" where
  "call_apps (CallApply apps) = apps"
| "call_apps (CallUpdate app taskID) = [app]"
| "call_apps (CallRemove appID taskID appo) = (case appo of Some app \<Rightarrow> [app] | None \<Rightarrow> [])"

locale mmsd_handler =
  fixes Apply :: "'s \<Rightarrow> marathon_app list \<Rightarrow> 's handler_result"
    and Update :: "'s \<Rightarrow> marathon_app \<Rightarrow> string \<Rightarrow> 's handler_result"
    and Remove :: "'s \<Rightarrow> string \<Rightarrow> string \<Rightarrow> marathon_app option \<Rightarrow> 's handler_result"
    and inv :: "'s \<Rightarrow> bool"
  assumes Apply_inv: "inv s \<Longrightarrow> Apply s apps = Ret (s', err) \<Longrightarrow> inv s'"
    and Update_inv: "inv s \<Longrightarrow> Update s app tid = Ret (s', err) \<Longrightarrow> inv s'"
    and Remove_inv: "inv s \<Longrightarrow> Remove s aid tid appo = Ret (s', err) \<Longrightarrow> inv s'"
begin

lemma step_inv: "inv s \<Longrightarrow> handler_step Apply Update Remove s call = Ret (s', err) \<Longrightarrow> inv s'"
  by (cases call) (auto intro: Apply_inv Update_inv Remove_inv)

lemma run_inv: "inv s \<Longrightarrow> handler_run Apply Update Remove s calls = Ret s' \<Longrightarrow> inv s'"
  unfolding handler_run_def
  by (erule go_fold_invariant) (auto simp: go_run intro: step_inv)

lemma run_snoc:
  "handler_run Apply Update Remove s (calls @ [call]) = Ret s' \<longleftrightarrow>
     (\<exists>t err. handler_run Apply Update Remove s calls = Ret t \<and>
        handler_step Apply Update Remove t call = Ret (s', err))"
  by (auto simp: handler_run_def go_run)

end

locale resetting_handler = mmsd_handler Apply Update Remove inv
  for Apply :: "'s \<Rightarrow> marathon_app list \<Rightarrow> 's handler_result"
    and Update Remove inv +
  fixes config :: "'s \<Rightarrow> 'c" and view :: "'s \<Rightarrow> 'v"
  assumes Apply_resets: "config s = config t \<Longrightarrow> inv s \<Longrightarrow> inv t \<Longrightarrow>
      Apply s apps = Ret (s', e1) \<Longrightarrow> Apply t apps = Ret (t', e2) \<Longrightarrow> view s' = view t' \<and> e1 = e2"
    and Apply_config: "Apply s apps = Ret (s', err) \<Longrightarrow> config s' = config s"
    and Update_config: "Update s app tid = Ret (s', err) \<Longrightarrow> config s' = config s"
    and Remove_config: "Remove s aid tid appo = Ret (s', err) \<Longrightarrow> config s' = config s"
begin

lemma step_config:
  "handler_step Apply Update Remove s call = Ret (s', err) \<Longrightarrow> config s' = config s"
  by (cases call) (auto dest: Apply_config Update_config Remove_config)

lemma run_config: "handler_run Apply Update Remove s calls = Ret s' \<Longrightarrow> config s' = config s"
  unfolding handler_run_def
  by (erule go_fold_invariant) (auto simp: go_run dest: step_config)

text \<open>Whatever happened before, a final \<open>Apply\<close> brings the manager to the same view.\<close>

lemma reset_forgets:
  assumes "inv s" and run: "handler_run Apply Update Remove s (calls @ [CallApply apps]) = Ret s1"
    and once: "Apply s apps = Ret (s2, e2)"
  shows "view s1 = view s2"
proof -
  from run obtain t e1 where t: "handler_run Apply Update Remove s calls = Ret t"
    and a: "Apply t apps = Ret (s1, e1)" by (auto simp: run_snoc)
  have "inv t" and "config t = config s"
    using run_inv [OF assms(1) t] run_config [OF t] by auto
  then show ?thesis using Apply_resets [of t s apps s1 e1 s2 e2] assms(1) a once by auto
qed

end

end
