(* ===== verification/Dns_Manager.thy ===== *)
theory Dns_Manager
  imports Helper Handler "HOL-Library.Log_Nat"
begin

text \<open>
  DNS based service discovery, src/dns_manager.go. The database maps a reversed application id
  to the resolved addresses of its tasks and to the application itself. The program stores a
  pointer there and shares the object with the other managers (one of which sorts its tasks in
  place), so the model stores a reference into a heap of applications, and the operations take
  the heap as an argument.

  A query is answered by \<open>dnsHandler\<close>. The DNS library is not under src/: the model starts at
  the parsed questions and ends at the answer and extra sections of the reply. The database is
  guarded by a mutex that \<open>Apply\<close> releases between its parts, so queries can be answered in
  between; \<open>dns_step\<close> is that interleaving, one step per critical section.
\<close>

type_synonym app_ref = nat
type_synonym app_heap = "marathon_app list"

record app_entry =
  ae_ipAddresses :: "8 word list list"
  ae_app :: app_ref

record dns_manager =
  dm_verbose :: bool
  dm_serviceAddr :: string
  dm_servicePort :: uint
  dm_baseName :: string
  dm_dnsTTL :: int
  dm_pushSRV :: bool
  dm_db :: "(string, app_entry) gomap"

definition makeDnsNameFromAppId :: "string \<Rightarrow> string" where
  "makeDnsNameFromAppId appID =
     (let parts = tl (split_str CHR ''/'' appID);
          reversedParts = map (\<lambda>i. parts ! (length parts - i - 1)) [0..<length parts] in
      join_str ''.'' reversedParts)"

fun resolve_tasks :: "host_env \<Rightarrow> marathon_task list \<Rightarrow> go_error + 8 word list list" where
  "resolve_tasks env [] = Inr []"
| "resolve_tasks env (task # tasks) =
     (case env_resolveIP env (t_host task) of
        None \<Rightarrow> Inl ''resolve''
      | Some ip \<Rightarrow>
         (case resolve_tasks env tasks of
            Inl err \<Rightarrow> Inl err
          | Inr ips \<Rightarrow> Inr (ip_bytes ip # ips)))"

definition updateApp :: "host_env \<Rightarrow> app_heap \<Rightarrow> dns_manager \<Rightarrow> app_ref
    \<Rightarrow> dns_manager handler_result" where
  "updateApp env heap m ref =
     go_bind (go_nth heap ref) (\<lambda>app.
       case resolve_tasks env (a_tasks app) of
         Inl err \<Rightarrow> Ret (m, Some err)
       | Inr ips \<Rightarrow>
           go_bind (gm_put (dm_db m) (makeDnsNameFromAppId (a_id app))
             \<lparr>ae_ipAddresses = ips, ae_app = ref\<rparr>) (\<lambda>db. Ret (m\<lparr>dm_db := db\<rparr>, None)))"

fun updateApps :: "host_env \<Rightarrow> app_heap \<Rightarrow> dns_manager \<Rightarrow> app_ref list
    \<Rightarrow> dns_manager handler_result" where
  "updateApps env heap m [] = Ret (m, None)"
| "updateApps env heap m (ref # refs) =
     go_bind (updateApp env heap m ref) (\<lambda>(m', err).
       case err of Some e \<Rightarrow> Ret (m', Some e) | None \<Rightarrow> updateApps env heap m' refs)"

definition dns_clear :: "dns_manager \<Rightarrow> dns_manager" where
  "dns_clear m = m\<lparr>dm_db := gm_make\<rparr>"

definition dns_ApplyRefs :: "host_env \<Rightarrow> app_heap \<Rightarrow> dns_manager \<Rightarrow> app_ref list
    \<Rightarrow> dns_manager handler_result" where
  "dns_ApplyRefs env heap m refs = updateApps env heap (dns_clear m) refs"

definition dns_RemoveRef :: "host_env \<Rightarrow> app_heap \<Rightarrow> dns_manager \<Rightarrow> string \<Rightarrow> app_ref option
    \<Rightarrow> dns_manager handler_result" where
  "dns_RemoveRef env heap m appID refo =
     (case refo of
        None \<Rightarrow> Ret (m\<lparr>dm_db := gm_delete (dm_db m) (makeDnsNameFromAppId appID)\<rparr>, None)
      | Some ref \<Rightarrow> updateApp env heap m ref)"

section \<open>Queries\<close>

datatype qtype = TypeA | TypeSRV | OtherType nat

datatype rr =
    RR_A (rr_ttl: "32 word") (rr_name: string) (rr_ip: "8 word list option")
  | RR_SRV (rr_ttl: "32 word") (rr_name: string) (rr_port: "16 word") (rr_target: string)
      (rr_weight: "16 word") (rr_priority: "16 word")

record dns_reply =
  rp_answer :: "rr list"
  rp_extra :: "rr list"

text \<open>
  \<open>uint32(DnsTTL.Seconds())\<close>. A duration is a number of nanoseconds; \<open>Seconds\<close> adds the whole seconds
  and the rest divided by 1e9 as 64-bit floats, and the conversion drops the fraction. A float here
  is its value in units of \<open>2 ^ -83\<close>, in which every float from one nanosecond up is an integer:
  \<open>round53 n d\<close> rounds the quotient to 53 significant bits, ties to even. Negative durations are
  symmetric; beyond 32 bits the language leaves the conversion open, and the low bits are taken.
\<close>

definition round_even :: "int \<Rightarrow> int \<Rightarrow> int" where
  "round_even n d =
     (let q = n div d; r = n mod d in
      if 2 * r < d \<or> 2 * r = d \<and> even q then q else q + 1)"

definition round53 :: "int \<Rightarrow> int \<Rightarrow> int" where
  "round53 n d = (let u = 2 ^ (nat (bitlen (n div d)) - 53) in round_even n (d * u) * u)"

definition seconds :: "int \<Rightarrow> int" where
  "seconds d = round53 (d div 1000000000 * 2 ^ 83 + round53 (d mod 1000000000 * 2 ^ 83) 1000000000) 1"

definition ttl_seconds :: "int \<Rightarrow> 32 word" where
  "ttl_seconds d = word_of_int (sgn d * (seconds \<bar>d\<bar> div 2 ^ 83))"

text \<open>\<open>net.IP.To4\<close>: four bytes, or the last four of an IPv4-mapped address, or nil.\<close>

definition To4 :: "8 word list \<Rightarrow> 8 word list option" where
  "To4 ip =
     (if length ip = 4 then Some ip
      else if length ip = 16 \<and> take 10 ip = replicate 10 0 \<and> ip ! 10 = 0xFF \<and> ip ! 11 = 0xFF
        then Some (drop 12 ip)
      else None)"

definition makeAllA :: "dns_manager \<Rightarrow> app_entry \<Rightarrow> rr list" where
  "makeAllA m entry =
     map (\<lambda>ip. RR_A (ttl_seconds (dm_dnsTTL m)) (dm_baseName m) (To4 ip)) (ae_ipAddresses entry)"

definition makeAllSRV :: "app_heap \<Rightarrow> dns_manager \<Rightarrow> app_entry \<Rightarrow> rr list go" where
  "makeAllSRV heap m entry =
     go_bind (go_nth heap (ae_app entry)) (\<lambda>app.
       Ret (concat (map (\<lambda>task. map (\<lambda>port.
              RR_SRV (ttl_seconds (dm_dnsTTL m)) (dm_baseName m) (ucast port)
                (t_host task @ ''.'') 1 1) (t_ports task)) (a_tasks app))))"

definition dnsHandler :: "app_heap \<Rightarrow> dns_manager \<Rightarrow> (string \<times> qtype) list \<Rightarrow> dns_reply go" where
  "dnsHandler heap m questions =
     go_bind (go_nth questions 0) (\<lambda>(qname, qt).
       let name = trim_suffix qname (''.'' @ dm_baseName m) in
       case gm_get (dm_db m) name of
         None \<Rightarrow> Ret \<lparr>rp_answer = [], rp_extra = []\<rparr>
       | Some entry \<Rightarrow>
          (case qt of
             TypeSRV \<Rightarrow>
               go_bind (makeAllSRV heap m entry) (\<lambda>srv. Ret \<lparr>rp_answer = srv, rp_extra = []\<rparr>)
           | TypeA \<Rightarrow>
               if dm_pushSRV m then
                 go_bind (makeAllSRV heap m entry) (\<lambda>srv.
                   Ret \<lparr>rp_answer = makeAllA m entry, rp_extra = srv\<rparr>)
               else Ret \<lparr>rp_answer = makeAllA m entry, rp_extra = []\<rparr>
           | OtherType n \<Rightarrow> Ret \<lparr>rp_answer = [], rp_extra = []\<rparr>))"

section \<open>The time to live\<close>

lemma round_even_bounds:
  assumes "0 < d"
  shows "2 * (round_even n d * d) \<le> 2 * n + d" and "n div d \<le> round_even n d"
proof -
  define q r where "q = n div d" and "r = n mod d"
  have n: "n = q * d + r" by (simp add: q_def r_def)
  have r: "0 \<le> r" "r < d" using assms by (simp_all add: r_def)
  show "n div d \<le> round_even n d" by (simp add: round_even_def Let_def)
  show "2 * (round_even n d * d) \<le> 2 * n + d"
    unfolding round_even_def Let_def q_def [symmetric] r_def [symmetric]
    using n r by (auto simp: algebra_simps)
qed

lemma round53_upper:
  assumes "0 < d" and "0 \<le> n" and "n div d < 2 ^ (53 + k)"
  shows "2 * (round53 n d * d) \<le> 2 * n + d * 2 ^ k"
proof -
  let ?u = "2 ^ (nat (bitlen (n div d)) - 53) :: int"
  have "bitlen (n div d) \<le> int (53 + k)" using assms(3) by (simp add: bitlen_le_iff_power nat_add_distrib)
  then have "nat (bitlen (n div d)) - 53 \<le> k" by linarith
  then have u: "?u \<le> 2 ^ k" by (intro power_increasing) auto
  have "0 < d * ?u" using assms(1) by simp
  from round_even_bounds(1) [OF this, of n]
  have "2 * (round53 n d * d) \<le> 2 * n + d * ?u" by (simp add: round53_def Let_def algebra_simps)
  also have "\<dots> \<le> 2 * n + d * 2 ^ k" using u assms(1) by simp
  finally show ?thesis .
qed

lemma round53_lower:
  assumes "0 \<le> n" and "n < 2 ^ (53 + k)" and "2 ^ k dvd b" and "b \<le> n"
  shows "b \<le> round53 n 1"
proof -
  let ?j = "nat (bitlen n) - 53"
  have "bitlen n \<le> int (53 + k)" using assms(1,2) by (simp add: bitlen_le_iff_power nat_add_distrib)
  then have "?j \<le> k" by linarith
  then have "(2::int) ^ ?j dvd b" using assms(3) by (meson dvd_trans le_imp_power_dvd)
  then obtain c where b: "b = c * 2 ^ ?j" by (auto simp: dvd_def mult.commute)
  have "c = b div 2 ^ ?j" by (simp add: b)
  also have "\<dots> \<le> n div 2 ^ ?j" using assms(4) by (rule zdiv_mono1) simp
  also have "\<dots> \<le> round_even n (2 ^ ?j)" by (rule round_even_bounds(2)) simp
  finally show ?thesis by (simp add: b round53_def Let_def)
qed

text \<open>Below \<open>2 ^ 24\<close> seconds, some 194 days, the result is the number of whole seconds; above, a
  duration just short of a second can be rounded up.\<close>

lemma ttl_seconds_whole:
  assumes "0 \<le> d" and "d < 2 ^ 24 * 1000000000"
  shows "ttl_seconds d = word_of_int (d div 1000000000)"
proof -
  let ?s = "d div 1000000000" and ?r = "d mod 1000000000"
  let ?f = "round53 (?r * 2 ^ 83) 1000000000"
  let ?n = "?s * 2 ^ 83 + ?f"
  have r: "0 \<le> ?r" "?r \<le> 999999999" using pos_mod_bound [of 1000000000 d] by auto
  have s: "0 \<le> ?s" "?s < 2 ^ 24" using assms by (auto simp: div_less_iff_less_mult)
  have q: "?r * 2 ^ 83 div 1000000000 < 2 ^ (53 + 30)"
    using r by (simp add: div_less_iff_less_mult)
  have "2 * (?f * 1000000000) \<le> 2 * (?r * 2 ^ 83) + 1000000000 * 2 ^ 30"
    using round53_upper [OF _ _ q] r by simp
  then have f: "?f \<le> 2 ^ 83 - 9671406000000000" using r(2) by simp
  have f0: "0 \<le> ?f"
  proof -
    have "0 \<le> ?r * 2 ^ 83 div (1000000000 * u)" if "0 < u" for u :: int
      using r that by (simp add: pos_imp_zdiv_nonneg_iff)
    then show ?thesis
      unfolding round53_def Let_def
      by (intro mult_nonneg_nonneg order_trans [OF _ round_even_bounds(2)]) simp_all
  qed
  have n: "0 \<le> ?n" "?n < 2 ^ (53 + 54)" using s f f0 by auto
  have "2 * (round53 ?n 1 * 1) \<le> 2 * ?n + 1 * 2 ^ 54" using n by (intro round53_upper) auto
  then have "round53 ?n 1 < (?s + 1) * 2 ^ 83" using f by simp
  moreover have "?s * 2 ^ 83 \<le> round53 ?n 1"
    using f0 by (intro round53_lower [OF n]) (auto intro: dvd_mult le_imp_power_dvd)
  ultimately have "seconds d div 2 ^ 83 = ?s"
    unfolding seconds_def by (intro int_div_pos_eq [where r = "round53 ?n 1 - ?s * 2 ^ 83"]) auto
  then show ?thesis using assms(1) by (cases "d = 0") (simp_all add: ttl_seconds_def sgn_if)
qed

lemma ttl_seconds_rounds_up: "ttl_seconds 33554432999999999 = 33554433"
  by code_simp

section \<open>Names\<close>

lemma makeDnsName_rev:
  "makeDnsNameFromAppId appID = join_str ''.'' (rev (tl (split_str CHR ''/'' appID)))"
proof -
  have "map (\<lambda>i. parts ! (length parts - i - 1)) [0..<length parts] = rev parts" for parts :: "string list"
    by (rule nth_equalityI) (auto simp: rev_nth)
  then show ?thesis by (simp add: makeDnsNameFromAppId_def Let_def)
qed

text \<open>An absolute application id with the given path components.\<close>

definition app_path :: "string list \<Rightarrow> string" where
  "app_path segs = CHR ''/'' # join_str ''/'' segs"

lemma makeDnsName_path:
  "segs \<noteq> [] \<Longrightarrow> \<forall>s\<in>set segs. CHR ''/'' \<notin> set s \<Longrightarrow>
   makeDnsNameFromAppId (app_path segs) = join_str ''.'' (rev segs)"
  by (simp add: makeDnsName_rev app_path_def split_join_str)

text \<open>
  Names in the DNS are the application's path components in reverse order, and different
  applications have different names as long as no component holds a dot.
\<close>

theorem makeDnsName_injective:
  assumes "segs \<noteq> []" and "segs' \<noteq> []"
    and "\<forall>s\<in>set segs \<union> set segs'. CHR ''/'' \<notin> set s \<and> CHR ''.'' \<notin> set s"
  shows "split_str CHR ''.'' (makeDnsNameFromAppId (app_path segs)) = rev segs \<and>
    (makeDnsNameFromAppId (app_path segs) = makeDnsNameFromAppId (app_path segs') \<longrightarrow> segs = segs')"
proof -
  have 1: "split_str CHR ''.'' (makeDnsNameFromAppId (app_path s)) = rev s"
    if "s \<noteq> []" "\<forall>x\<in>set s. CHR ''/'' \<notin> set x \<and> CHR ''.'' \<notin> set x" for s
    using that by (simp add: makeDnsName_path split_join_str)
  show ?thesis using 1 [of segs] 1 [of segs'] assms by (metis Un_iff rev_is_rev_conv)
qed

theorem makeDnsName_injective_witness:
  "makeDnsNameFromAppId ''/path/to/application'' = ''application.to.path'' \<and>
   split_str CHR ''.'' (makeDnsNameFromAppId (app_path [''path'', ''to'', ''application''])) =
     [''application'', ''to'', ''path'']"
  using makeDnsName_injective [of "[''path'', ''to'', ''application'']" "[''x'']"]
  by (simp add: makeDnsName_rev)

section \<open>What the database promises\<close>

text \<open>
  The specification: a database is a map from names to the addresses and the application behind
  them, and an \<open>Apply\<close> is a pass over the applications that stops at the first one with a task
  whose host does not resolve.
\<close>

type_synonym dns_view = "string \<Rightarrow> (8 word list list \<times> marathon_app) option"

definition db_view :: "app_heap \<Rightarrow> dns_manager \<Rightarrow> dns_view" where
  "db_view heap m name =
     map_option (\<lambda>e. (ae_ipAddresses e, heap ! ae_app e)) (gm_get (dm_db m) name)"

fun view_apps :: "host_env \<Rightarrow> dns_view \<Rightarrow> marathon_app list \<Rightarrow> dns_view \<times> go_error option" where
  "view_apps env V [] = (V, None)"
| "view_apps env V (app # apps) =
     (case resolve_tasks env (a_tasks app) of
        Inl err \<Rightarrow> (V, Some err)
      | Inr ips \<Rightarrow> view_apps env (V(makeDnsNameFromAppId (a_id app) \<mapsto> (ips, app))) apps)"

definition dns_ok :: "host_env \<Rightarrow> app_heap \<Rightarrow> dns_manager \<Rightarrow> bool" where
  "dns_ok env heap m \<longleftrightarrow>
     (\<forall>name e. gm_get (dm_db m) name = Some e \<longrightarrow>
        ae_app e < length heap \<and> makeDnsNameFromAppId (a_id (heap ! ae_app e)) = name \<and>
        resolve_tasks env (a_tasks (heap ! ae_app e)) = Inr (ae_ipAddresses e))"

lemma dns_ok_clear [simp]: "dns_ok env heap (dns_clear m)"
  by (simp add: dns_ok_def dns_clear_def)

lemma db_view_clear [simp]: "db_view heap (dns_clear m) = Map.empty"
  by (simp add: db_view_def dns_clear_def fun_eq_iff)

lemma dns_ok_heap: "dns_ok env heap m \<Longrightarrow> dns_ok env (heap @ apps) m"
  by (fastforce simp: dns_ok_def nth_append)

lemma db_view_heap:
  assumes "dns_ok env heap m"
  shows "db_view (heap @ apps) m = db_view heap m"
proof
  fix name
  show "db_view (heap @ apps) m name = db_view heap m name"
    using assms by (cases "gm_get (dm_db m) name") (auto simp: db_view_def dns_ok_def nth_append)
qed

lemma updateApp_Inr:
  assumes "dm_db m \<noteq> None" and "ref < length heap"
    and "resolve_tasks env (a_tasks (heap ! ref)) = Inr ips"
  obtains db where "updateApp env heap m ref = Ret (m\<lparr>dm_db := db\<rparr>, None)" and "db \<noteq> None"
    and "gm_get db = (gm_get (dm_db m))(makeDnsNameFromAppId (a_id (heap ! ref)) \<mapsto>
           \<lparr>ae_ipAddresses = ips, ae_app = ref\<rparr>)"
proof -
  obtain db where db: "gm_put (dm_db m) (makeDnsNameFromAppId (a_id (heap ! ref)))
      \<lparr>ae_ipAddresses = ips, ae_app = ref\<rparr> = Ret db" "db \<noteq> None"
    using gm_put_returns [OF assms(1)] by blast
  show thesis
    by (rule that [of db]) (use assms db in \<open>auto simp: updateApp_def go_nth_def gm_get_put [OF db(1)]\<close>)
qed

lemma updateApp_Inl:
  "ref < length heap \<Longrightarrow> resolve_tasks env (a_tasks (heap ! ref)) = Inl err \<Longrightarrow>
   updateApp env heap m ref = Ret (m, Some err)"
  by (simp add: updateApp_def go_nth_def)

lemma updateApp_ok:
  assumes "dns_ok env heap m" and "updateApp env heap m ref = Ret (m', err)"
  shows "dns_ok env heap m'"
proof -
  from assms(2) have ref: "ref < length heap"
    by (auto simp: updateApp_def go_bind_eq_Ret go_nth_eq_Ret)
  show ?thesis
  proof (cases "resolve_tasks env (a_tasks (heap ! ref))")
    case (Inl e)
    with updateApp_Inl [OF ref] assms show ?thesis by simp
  next
    case (Inr ips)
    show ?thesis
    proof (cases "dm_db m = None")
      case True
      with Inr ref assms(2) show ?thesis by (simp add: updateApp_def go_nth_def)
    next
      case False
      from updateApp_Inr [OF False ref Inr] obtain db where
        u: "updateApp env heap m ref = Ret (m\<lparr>dm_db := db\<rparr>, None)" and
        g: "gm_get db = (gm_get (dm_db m))(makeDnsNameFromAppId (a_id (heap ! ref)) \<mapsto>
           \<lparr>ae_ipAddresses = ips, ae_app = ref\<rparr>)" by blast
      from u assms(2) have "m' = m\<lparr>dm_db := db\<rparr>" by simp
      with assms(1) Inr ref g show ?thesis by (auto simp: dns_ok_def)
    qed
  qed
qed

lemma updateApps_refines:
  assumes "dm_db m \<noteq> None" and "set refs \<subseteq> {..<length heap}"
  shows "\<exists>m' err. updateApps env heap m refs = Ret (m', err) \<and> dm_db m' \<noteq> None \<and>
    (db_view heap m', err) = view_apps env (db_view heap m) (map ((!) heap) refs) \<and>
    m'\<lparr>dm_db := gm_make\<rparr> = m\<lparr>dm_db := gm_make\<rparr>"
  using assms
proof (induction refs arbitrary: m)
  case (Cons ref refs)
  then have ref: "ref < length heap" by simp
  show ?case
  proof (cases "resolve_tasks env (a_tasks (heap ! ref))")
    case (Inl e)
    with updateApp_Inl [OF ref] Cons.prems show ?thesis by simp
  next
    case (Inr ips)
    from updateApp_Inr [OF Cons.prems(1) ref Inr] obtain db where
      u: "updateApp env heap m ref = Ret (m\<lparr>dm_db := db\<rparr>, None)" and n: "db \<noteq> None" and
      g: "gm_get db = (gm_get (dm_db m))(makeDnsNameFromAppId (a_id (heap ! ref)) \<mapsto>
           \<lparr>ae_ipAddresses = ips, ae_app = ref\<rparr>)" by blast
    have "db_view heap (m\<lparr>dm_db := db\<rparr>) =
        (db_view heap m)(makeDnsNameFromAppId (a_id (heap ! ref)) \<mapsto> (ips, heap ! ref))"
      by (simp add: db_view_def fun_eq_iff g)
    with Cons.IH [of "m\<lparr>dm_db := db\<rparr>"] n Cons.prems(2) u Inr show ?thesis by (simp del: fun_upd_apply)
  qed
qed simp

lemma updateApps_ok:
  "dns_ok env heap m \<Longrightarrow> updateApps env heap m refs = Ret (m', err) \<Longrightarrow> dns_ok env heap m'"
  by (induction refs arbitrary: m)
    (auto simp: go_bind_eq_Ret split: option.splits dest: updateApp_ok)

section \<open>The operations as a handler\<close>

text \<open>
  Marathon hands over fresh objects for every call, which are allocated at the end of the heap.
\<close>

type_synonym dns_state = "dns_manager \<times> app_heap"

definition dns_Apply :: "host_env \<Rightarrow> dns_state \<Rightarrow> marathon_app list \<Rightarrow> dns_state handler_result" where
  "dns_Apply env s apps =
     (let heap = snd s @ apps in
      go_bind (dns_ApplyRefs env heap (fst s) [length (snd s)..<length heap])
        (\<lambda>(m, err). Ret ((m, heap), err)))"

definition dns_Update :: "host_env \<Rightarrow> dns_state \<Rightarrow> marathon_app \<Rightarrow> string \<Rightarrow> dns_state handler_result" where
  "dns_Update env s app taskID =
     (let heap = snd s @ [app] in
      go_bind (updateApp env heap (fst s) (length (snd s))) (\<lambda>(m, err). Ret ((m, heap), err)))"

definition dns_Remove :: "host_env \<Rightarrow> dns_state \<Rightarrow> string \<Rightarrow> string \<Rightarrow> marathon_app option
    \<Rightarrow> dns_state handler_result" where
  "dns_Remove env s appID taskID appo =
     (case appo of
        None \<Rightarrow> go_bind (dns_RemoveRef env (snd s) (fst s) appID None)
                 (\<lambda>(m, err). Ret ((m, snd s), err))
      | Some app \<Rightarrow>
          let heap = snd s @ [app] in
          go_bind (dns_RemoveRef env heap (fst s) appID (Some (length (snd s))))
            (\<lambda>(m, err). Ret ((m, heap), err)))"

lemma map_nth_alloc: "map ((!) (heap @ apps)) [length heap..<length (heap @ apps)] = apps"
  by (rule nth_equalityI) (auto simp: nth_append)

lemma updateApp_keeps:
  "updateApp env heap m ref = Ret (m', err) \<Longrightarrow> m'\<lparr>dm_db := gm_make\<rparr> = m\<lparr>dm_db := gm_make\<rparr>"
  unfolding updateApp_def
  by (cases "go_nth heap ref"; cases "resolve_tasks env (a_tasks (heap ! ref))")
    (auto simp: go_bind_eq_Ret go_nth_eq_Ret)

lemma dns_ok_delete:
  "dns_ok env heap m \<Longrightarrow> dns_ok env heap (m\<lparr>dm_db := gm_delete (dm_db m) name\<rparr>)"
  by (simp add: dns_ok_def gm_get_delete)

lemma dns_RemoveRef_ok:
  "dns_ok env heap m \<Longrightarrow> dns_RemoveRef env heap m aid refo = Ret (m', err) \<Longrightarrow> dns_ok env heap m'"
  by (cases refo) (auto simp: dns_RemoveRef_def intro: updateApp_ok dns_ok_delete)

lemma dns_RemoveRef_keeps:
  "dns_RemoveRef env heap m aid refo = Ret (m', err) \<Longrightarrow>
   m'\<lparr>dm_db := gm_make\<rparr> = m\<lparr>dm_db := gm_make\<rparr>"
  by (cases refo) (auto simp: dns_RemoveRef_def dest: updateApp_keeps)

text \<open>
  \<open>Apply\<close> implements the specification: whatever the database held before, it then holds
  exactly the applications up to the first one with a host that does not resolve, and it returns
  that error. It never panics, and the settings of the manager stay.
\<close>

theorem dns_Apply_refines:
  "\<exists>m' err. dns_Apply env (m, heap) apps = Ret ((m', heap @ apps), err) \<and>
     (db_view (heap @ apps) m', err) = view_apps env Map.empty apps \<and>
     m'\<lparr>dm_db := gm_make\<rparr> = m\<lparr>dm_db := gm_make\<rparr>"
proof -
  have nn: "dm_db (dns_clear m) \<noteq> None"
    and sub: "set [length heap..<length (heap @ apps)] \<subseteq> {..<length (heap @ apps)}"
    by (auto simp: dns_clear_def)
  from updateApps_refines [OF nn sub, of env] obtain m' err where
    u: "updateApps env (heap @ apps) (dns_clear m) [length heap..<length (heap @ apps)] = Ret (m', err)"
      "(db_view (heap @ apps) m', err) = view_apps env Map.empty apps"
      "m'\<lparr>dm_db := gm_make\<rparr> = (dns_clear m)\<lparr>dm_db := gm_make\<rparr>"
    by (auto simp only: map_nth_alloc db_view_clear)
  then have "dns_Apply env (m, heap) apps = Ret ((m', heap @ apps), err)"
    by (simp add: dns_Apply_def dns_ApplyRefs_def Let_def)
  with u show ?thesis by (auto simp: dns_clear_def)
qed

definition dns_inv :: "host_env \<Rightarrow> dns_state \<Rightarrow> bool" where
  "dns_inv env s = dns_ok env (snd s) (fst s)"

definition dns_config :: "dns_state \<Rightarrow> dns_manager" where
  "dns_config s = (fst s)\<lparr>dm_db := gm_make\<rparr>"

definition dns_seen :: "dns_state \<Rightarrow> dns_view" where
  "dns_seen s = db_view (snd s) (fst s)"

interpretation dns: resetting_handler "dns_Apply env" "dns_Update env" "dns_Remove env" "dns_inv env"
    dns_config dns_seen
proof unfold_locales
  fix s s' t t' :: dns_state and apps app tid aid appo and err e1 e2 :: "go_error option"
  obtain m heap where s: "s = (m, heap)" by (cases s)
  obtain n heap2 where t: "t = (n, heap2)" by (cases t)
  show "dns_inv env s \<Longrightarrow> dns_Apply env s apps = Ret (s', err) \<Longrightarrow> dns_inv env s'"
    by (auto simp: dns_inv_def dns_Apply_def dns_ApplyRefs_def Let_def go_bind_eq_Ret
        intro: updateApps_ok [OF dns_ok_clear])
  show "dns_inv env s \<Longrightarrow> dns_Update env s app tid = Ret (s', err) \<Longrightarrow> dns_inv env s'"
    by (auto simp: dns_inv_def dns_Update_def Let_def go_bind_eq_Ret
        intro: updateApp_ok [OF dns_ok_heap])
  show "dns_inv env s \<Longrightarrow> dns_Remove env s aid tid appo = Ret (s', err) \<Longrightarrow> dns_inv env s'"
    by (cases appo) (auto simp: dns_inv_def dns_Remove_def Let_def go_bind_eq_Ret
        intro: dns_RemoveRef_ok dns_RemoveRef_ok [OF dns_ok_heap])
  show "dns_Apply env s apps = Ret (s', err) \<Longrightarrow> dns_config s' = dns_config s"
    using dns_Apply_refines [of env m heap apps] by (auto simp: s dns_config_def)
  show "dns_Update env s app tid = Ret (s', err) \<Longrightarrow> dns_config s' = dns_config s"
    by (auto simp: dns_config_def dns_Update_def Let_def go_bind_eq_Ret dest: updateApp_keeps)
  show "dns_Remove env s aid tid appo = Ret (s', err) \<Longrightarrow> dns_config s' = dns_config s"
    by (cases appo) (auto simp: dns_config_def dns_Remove_def Let_def go_bind_eq_Ret
        dest: dns_RemoveRef_keeps)
  show "dns_Apply env s apps = Ret (s', e1) \<Longrightarrow> dns_Apply env t apps = Ret (t', e2) \<Longrightarrow>
      dns_seen s' = dns_seen t' \<and> e1 = e2"
    using dns_Apply_refines [of env m heap apps] dns_Apply_refines [of env n heap2 apps]
    by (auto simp: s t dns_seen_def dest: sym)
qed

section \<open>Answers after an Apply\<close>

abbreviation dns_name :: "marathon_app \<Rightarrow> string" where
  "dns_name app \<equiv> makeDnsNameFromAppId (a_id app)"

lemma view_apps_append:
  "view_apps env V (as @ bs) =
     (case view_apps env V as of (V', Some e) \<Rightarrow> (V', Some e) | (V', None) \<Rightarrow> view_apps env V' bs)"
  by (induction as arbitrary: V) (auto split: sum.splits)

lemma view_apps_resolved:
  assumes "\<forall>app\<in>set apps. resolve_tasks env (a_tasks app) = Inr (ips app)"
  shows "view_apps env V apps = (V ++ map_of (rev (map (\<lambda>app. (dns_name app, (ips app, app))) apps)), None)"
  using assms
proof (induction apps arbitrary: V)
  case (Cons app apps)
  then show ?case by (simp add: map_add_upd_left [symmetric] map_add_upd map_of_append
        del: map_of_append fun_upd_apply) (simp add: fun_eq_iff map_add_def split: option.split)
qed simp

lemma view_apps_unique:
  assumes "\<forall>app\<in>set apps. resolve_tasks env (a_tasks app) = Inr (ips app)"
    and "distinct (map dns_name apps)" and "view_apps env Map.empty apps = (V, err)"
  shows "err = None" and "app \<in> set apps \<Longrightarrow> V (dns_name app) = Some (ips app, app)"
    and "name \<notin> dns_name ` set apps \<Longrightarrow> V name = None"
proof -
  have V: "V = map_of (rev (map (\<lambda>app. (dns_name app, (ips app, app))) apps))" "err = None"
    using view_apps_resolved [OF assms(1), of Map.empty] assms(3) by auto
  show "err = None" by (rule V(2))
  have d: "distinct (map fst (rev (map (\<lambda>app. (dns_name app, (ips app, app))) apps)))"
    using assms(2) by (simp add: rev_map [symmetric] comp_def)
  show "app \<in> set apps \<Longrightarrow> V (dns_name app) = Some (ips app, app)"
    unfolding V(1) by (rule map_of_is_SomeI [OF d]) auto
  show "name \<notin> dns_name ` set apps \<Longrightarrow> V name = None"
    unfolding V(1) by (force simp: map_of_eq_None_iff)
qed

lemma db_view_Some:
  "db_view heap m name = Some (ips, app) \<longleftrightarrow>
     (\<exists>e. gm_get (dm_db m) name = Some e \<and> ae_ipAddresses e = ips \<and> heap ! ae_app e = app)"
  by (auto simp: db_view_def)

definition empty_reply :: dns_reply where
  "empty_reply = \<lparr>rp_answer = [], rp_extra = []\<rparr>"

definition srv_records :: "dns_manager \<Rightarrow> marathon_app \<Rightarrow> rr list" where
  "srv_records m app =
     [RR_SRV (ttl_seconds (dm_dnsTTL m)) (dm_baseName m) (ucast port) (t_host task @ ''.'') 1 1.
        task \<leftarrow> a_tasks app, port \<leftarrow> t_ports task]"

lemma dnsHandler_hit:
  assumes "db_view heap m name = Some (ips, app)" and "dns_ok env heap m"
  shows "dnsHandler heap m [(name @ ''.'' @ dm_baseName m, TypeA)] =
      Ret \<lparr>rp_answer = map (\<lambda>ip. RR_A (ttl_seconds (dm_dnsTTL m)) (dm_baseName m) (To4 ip)) ips,
           rp_extra = (if dm_pushSRV m then srv_records m app else [])\<rparr>"
    and "dnsHandler heap m [(name @ ''.'' @ dm_baseName m, TypeSRV)] =
      Ret \<lparr>rp_answer = srv_records m app, rp_extra = []\<rparr>"
proof -
  from assms(1) obtain e where e: "gm_get (dm_db m) name = Some e" "ae_ipAddresses e = ips"
    "heap ! ae_app e = app" by (auto simp: db_view_Some)
  with assms(2) have "ae_app e < length heap" by (simp add: dns_ok_def)
  with e have "makeAllSRV heap m e = Ret (srv_records m app)"
    by (simp add: makeAllSRV_def go_nth_def srv_records_def)
  with e show "dnsHandler heap m [(name @ ''.'' @ dm_baseName m, TypeA)] =
      Ret \<lparr>rp_answer = map (\<lambda>ip. RR_A (ttl_seconds (dm_dnsTTL m)) (dm_baseName m) (To4 ip)) ips,
           rp_extra = (if dm_pushSRV m then srv_records m app else [])\<rparr>"
    and "dnsHandler heap m [(name @ ''.'' @ dm_baseName m, TypeSRV)] =
      Ret \<lparr>rp_answer = srv_records m app, rp_extra = []\<rparr>"
    using trim_suffix_append [of name "''.'' @ dm_baseName m"]
    by (simp_all add: dnsHandler_def go_nth_def makeAllA_def)
qed

lemma dnsHandler_miss:
  "db_view heap m (trim_suffix qname (''.'' @ dm_baseName m)) = None \<Longrightarrow>
   dnsHandler heap m [(qname, qt)] = Ret empty_reply"
  by (simp add: dnsHandler_def go_nth_def db_view_def empty_reply_def)

text \<open>
  C1. After an \<open>Apply\<close> of applications with distinct names whose hosts all resolve, an A query
  for an application is answered with the addresses of its tasks in their order (and, if so
  configured, with the SRV records as extra), an SRV query with one record per port of every task,
  and every other name with an empty reply.
\<close>

theorem dns_answers_after_Apply:
  assumes "\<forall>app\<in>set apps. resolve_tasks env (a_tasks app) = Inr (ips app)"
    and "distinct (map dns_name apps)"
    and "dns_Apply env (m, heap) apps = Ret ((m', heap'), err)"
  shows "err = None \<and>
    (\<forall>app\<in>set apps.
       dnsHandler heap' m' [(dns_name app @ ''.'' @ dm_baseName m, TypeA)] =
         Ret \<lparr>rp_answer = map (\<lambda>ip. RR_A (ttl_seconds (dm_dnsTTL m)) (dm_baseName m) (To4 ip)) (ips app),
              rp_extra = (if dm_pushSRV m then srv_records m app else [])\<rparr> \<and>
       dnsHandler heap' m' [(dns_name app @ ''.'' @ dm_baseName m, TypeSRV)] =
         Ret \<lparr>rp_answer = srv_records m app, rp_extra = []\<rparr>) \<and>
    (\<forall>qname qt. trim_suffix qname (''.'' @ dm_baseName m) \<notin> dns_name ` set apps \<longrightarrow>
       dnsHandler heap' m' [(qname, qt)] = Ret empty_reply)"
proof -
  from dns_Apply_refines [of env m heap apps] assms(3)
  have V: "view_apps env Map.empty apps = (db_view heap' m', err)"
    and c: "m'\<lparr>dm_db := gm_make\<rparr> = m\<lparr>dm_db := gm_make\<rparr>" by auto
  have same: "dm_baseName m' = dm_baseName m" "dm_dnsTTL m' = dm_dnsTTL m" "dm_pushSRV m' = dm_pushSRV m"
    using arg_cong [OF c, of dm_baseName] arg_cong [OF c, of dm_dnsTTL] arg_cong [OF c, of dm_pushSRV]
    by simp_all
  have srv: "srv_records m' = srv_records m" by (simp add: srv_records_def fun_eq_iff same)
  have ok: "dns_ok env heap' m'"
    using assms(3) by (auto simp: dns_Apply_def dns_ApplyRefs_def Let_def go_bind_eq_Ret
        intro: updateApps_ok [OF dns_ok_clear])
  show ?thesis
    using view_apps_unique [OF assms(1,2) V] dnsHandler_hit [OF _ ok] dnsHandler_miss [of heap' m']
    by (simp add: same srv)
qed

lemma view_apps_dom: "fst (view_apps env V apps) name \<noteq> None \<Longrightarrow>
    V name \<noteq> None \<or> name \<in> dns_name ` set apps"
  by (induction apps arbitrary: V) (fastforce split: sum.splits if_splits)+

text \<open>
  If the host of a task of one application does not resolve, \<open>Apply\<close> fails, and that
  application and all after it are no longer answered, even if they were before the call.
\<close>

theorem dns_Apply_failure:
  assumes "resolve_tasks env (a_tasks bad) = Inl e"
    and "\<forall>app\<in>set before. resolve_tasks env (a_tasks app) = Inr (ips app)"
    and "dns_Apply env (m, heap) (before @ bad # after) = Ret ((m', heap'), err)"
    and "app \<in> set (bad # after)" and "dns_name app \<notin> dns_name ` set before"
  shows "err = Some e \<and>
    dnsHandler heap' m' [(dns_name app @ ''.'' @ dm_baseName m, qt)] = Ret empty_reply"
proof -
  from dns_Apply_refines [of env m heap "before @ bad # after"] assms(3)
  have V: "view_apps env Map.empty (before @ bad # after) = (db_view heap' m', err)"
    and c: "m'\<lparr>dm_db := gm_make\<rparr> = m\<lparr>dm_db := gm_make\<rparr>" by auto
  have base: "dm_baseName m' = dm_baseName m" using arg_cong [OF c, of dm_baseName] by simp
  have "view_apps env Map.empty before = (db_view heap' m', None) \<and> err = Some e"
    using V assms(1) view_apps_resolved [OF assms(2), of Map.empty]
    by (auto simp: view_apps_append split: prod.splits option.splits)
  with view_apps_dom [of env Map.empty before "dns_name app"] assms(5)
  have "err = Some e" and "db_view heap' m' (dns_name app) = None" by auto
  with dnsHandler_miss [of heap' m' "dns_name app @ ''.'' @ dm_baseName m" qt]
    trim_suffix_append [of "dns_name app" "''.'' @ dm_baseName m"] base
  show ?thesis by simp
qed

section \<open>Queries during an Apply\<close>

text \<open>
  The state between two critical sections: the manager, and the applications \<open>Apply\<close> has still
  to insert, or \<open>None\<close> when no \<open>Apply\<close> is running. \<open>dns_clear\<close> begins an \<open>Apply\<close>.
\<close>

inductive dns_step :: "host_env \<Rightarrow> app_heap \<Rightarrow> dns_manager \<times> app_ref list option
    \<Rightarrow> dns_manager \<times> app_ref list option \<Rightarrow> bool" for env heap where
  begin_apply: "dns_step env heap (m, None) (dns_clear m, Some refs)"
| insert: "updateApp env heap m ref = Ret (m', None) \<Longrightarrow>
    dns_step env heap (m, Some (ref # refs)) (m', Some refs)"
| fail: "updateApp env heap m ref = Ret (m', Some e) \<Longrightarrow>
    dns_step env heap (m, Some (ref # refs)) (m', None)"
| finish: "dns_step env heap (m, Some []) (m, None)"

code_pred (modes: i \<Rightarrow> i \<Rightarrow> i \<Rightarrow> i \<Rightarrow> bool) dns_step .

inductive_simps dns_step_idle: "dns_step env heap (m, None) s"
inductive_simps dns_step_last: "dns_step env heap (m, Some []) s"
inductive_simps dns_step_next: "dns_step env heap (m, Some (ref # refs)) s"
inductive_cases dns_step_cases: "dns_step env heap s t"

text \<open>The steps of a running \<open>Apply\<close>, up to its end.\<close>

definition apply_step :: "host_env \<Rightarrow> app_heap \<Rightarrow> dns_manager \<times> app_ref list option
    \<Rightarrow> dns_manager \<times> app_ref list option \<Rightarrow> bool" where
  "apply_step env heap s t \<longleftrightarrow> snd s \<noteq> None \<and> dns_step env heap s t"

lemma apply_step_final: "(apply_step env heap)\<^sup>*\<^sup>* (m, None) s \<longleftrightarrow> s = (m, None)"
  by (auto elim: converse_rtranclpE simp: apply_step_def)

lemma updateApps_Cons_Ret:
  "updateApps env heap m (ref # refs) = Ret (m', err) \<longleftrightarrow>
     (\<exists>m1. updateApp env heap m ref = Ret (m1, None) \<and> updateApps env heap m1 refs = Ret (m', err)) \<or>
     (\<exists>e. updateApp env heap m ref = Ret (m', Some e) \<and> err = Some e)"
proof (cases "updateApp env heap m ref")
  case (Ret r)
  then show ?thesis by (cases r; cases "snd r") auto
qed simp

lemma apply_steps_unfold:
  "(apply_step env heap)\<^sup>*\<^sup>* (m, Some refs) (m', None) \<longleftrightarrow>
     (\<exists>s. apply_step env heap (m, Some refs) s \<and> (apply_step env heap)\<^sup>*\<^sup>* s (m', None))"
  (is "?L \<longleftrightarrow> ?R")
proof
  assume ?L
  then show ?R by (rule converse_rtranclpE) auto
next
  assume ?R
  then show ?L by (blast intro: converse_rtranclp_into_rtranclp)
qed

lemma apply_steps_run:
  "(apply_step env heap)\<^sup>*\<^sup>* (m, Some refs) (m', None) \<longleftrightarrow>
     (\<exists>err. updateApps env heap m refs = Ret (m', err))"
proof (induction refs arbitrary: m)
  case Nil
  show ?case by (subst apply_steps_unfold) (auto simp: apply_step_def [of _ _ "(m, _)"] dns_step_last apply_step_final)
next
  case (Cons ref refs)
  have "(apply_step env heap)\<^sup>*\<^sup>* (m, Some (ref # refs)) (m', None) \<longleftrightarrow>
      (\<exists>s. apply_step env heap (m, Some (ref # refs)) s \<and> (apply_step env heap)\<^sup>*\<^sup>* s (m', None))"
    by (rule apply_steps_unfold)
  also have "\<dots> \<longleftrightarrow> (\<exists>m1. updateApp env heap m ref = Ret (m1, None) \<and>
        (apply_step env heap)\<^sup>*\<^sup>* (m1, Some refs) (m', None)) \<or>
      (\<exists>e. updateApp env heap m ref = Ret (m', Some e))"
    by (auto simp: apply_step_def [of _ _ "(m, _)"] dns_step_next apply_step_final)
  finally show ?case
    by (auto simp: Cons.IH updateApps_Cons_Ret simp del: updateApps.simps)
qed

lemma apply_steps_prefix:
  assumes "updateApps env heap m ins = Ret (m1, None)"
  shows "(apply_step env heap)\<^sup>*\<^sup>* (m, Some (ins @ todo)) (m1, Some todo)"
  using assms
proof (induction ins arbitrary: m)
  case (Cons ref refs)
  then obtain m2 where u: "updateApp env heap m ref = Ret (m2, None)"
    and r: "updateApps env heap m2 refs = Ret (m1, None)"
    by (auto simp: go_bind_eq_Ret split: option.splits)
  have "apply_step env heap (m, Some ((ref # refs) @ todo)) (m2, Some (refs @ todo))"
    using u by (auto simp: apply_step_def dns_step_next)
  with Cons.IH [OF r] show ?case by (rule converse_rtranclp_into_rtranclp [rotated])
qed simp

lemma updateApp_names:
  assumes "updateApp env heap m ref = Ret (m', err)"
  shows "dom (gm_get (dm_db m')) \<subseteq> insert (dns_name (heap ! ref)) (dom (gm_get (dm_db m)))"
proof -
  from assms have ref: "ref < length heap" by (auto simp: updateApp_def go_bind_eq_Ret go_nth_eq_Ret)
  show ?thesis
  proof (cases "resolve_tasks env (a_tasks (heap ! ref))")
    case (Inl e)
    with updateApp_Inl [OF ref] assms show ?thesis by auto
  next
    case (Inr ips)
    with ref assms show ?thesis
      by (auto simp: updateApp_def go_nth_def go_bind_eq_Ret dest!: gm_get_put)
  qed
qed

lemma apply_step_names:
  assumes "apply_step env heap (m, Some refs) (m1, p)"
  shows "(\<forall>refs1. p = Some refs1 \<longrightarrow> set refs1 \<subseteq> set refs) \<and>
    dom (gm_get (dm_db m1)) \<subseteq> dom (gm_get (dm_db m)) \<union> (\<lambda>ref. dns_name (heap ! ref)) ` set refs"
proof (cases refs)
  case Nil
  with assms show ?thesis by (auto simp: apply_step_def dns_step_last)
next
  case (Cons ref rest)
  with assms obtain err where "updateApp env heap m ref = Ret (m1, err)" and "p = None \<or> p = Some rest"
    by (auto simp: apply_step_def dns_step_next)
  with updateApp_names [OF this(1)] Cons show ?thesis by auto
qed

lemma apply_steps_names:
  assumes "(apply_step env heap)\<^sup>*\<^sup>* (m, Some refs) (m1, p)"
  shows "(\<forall>refs1. p = Some refs1 \<longrightarrow> set refs1 \<subseteq> set refs) \<and>
    dom (gm_get (dm_db m1)) \<subseteq> dom (gm_get (dm_db m)) \<union> (\<lambda>ref. dns_name (heap ! ref)) ` set refs"
  using assms
proof (induction "(m1, p)" arbitrary: m1 p rule: rtranclp_induct)
  case base
  then show ?case by simp
next
  case (step y m1 p)
  obtain m2 q where y: "y = (m2, q)" by (cases y)
  with step.hyps(2) obtain refs2 where q: "q = Some refs2" by (cases q) (auto simp: apply_step_def)
  with step y have "set refs2 \<subseteq> set refs" and
    "dom (gm_get (dm_db m2)) \<subseteq> dom (gm_get (dm_db m)) \<union> (\<lambda>ref. dns_name (heap ! ref)) ` set refs"
    by auto
  with apply_step_names [of env heap m2 refs2 m1 p] step.hyps(2) y q show ?case by blast
qed

text \<open>
  C28. The interleaving agrees with the sequential model: the runs of an \<open>Apply\<close> that is
  interrupted between its critical sections end in exactly the state \<open>dns_ApplyRefs\<close> returns, and
  at no point in between is an application answered that is not one of the new ones.
\<close>

theorem dns_apply_interleaved:
  "((apply_step env heap)\<^sup>*\<^sup>* (dns_clear m, Some refs) (m', None) \<longleftrightarrow>
     (\<exists>err. dns_ApplyRefs env heap m refs = Ret (m', err))) \<and>
   ((apply_step env heap)\<^sup>*\<^sup>* (dns_clear m, Some refs) (m1, p) \<longrightarrow>
     trim_suffix qname (''.'' @ dm_baseName m1) \<notin> (\<lambda>ref. dns_name (heap ! ref)) ` set refs \<longrightarrow>
     dnsHandler heap m1 [(qname, qt)] = Ret empty_reply)"
proof (intro conjI impI)
  show "(apply_step env heap)\<^sup>*\<^sup>* (dns_clear m, Some refs) (m', None) \<longleftrightarrow>
     (\<exists>err. dns_ApplyRefs env heap m refs = Ret (m', err))"
    by (simp add: apply_steps_run dns_ApplyRefs_def)
  assume "(apply_step env heap)\<^sup>*\<^sup>* (dns_clear m, Some refs) (m1, p)"
    and n: "trim_suffix qname (''.'' @ dm_baseName m1) \<notin> (\<lambda>ref. dns_name (heap ! ref)) ` set refs"
  from apply_steps_names [OF this(1)]
  have "dom (gm_get (dm_db m1)) \<subseteq> (\<lambda>ref. dns_name (heap ! ref)) ` set refs"
    by (auto simp: dns_clear_def)
  with n have "db_view heap m1 (trim_suffix qname (''.'' @ dm_baseName m1)) = None"
    by (auto simp: db_view_def)
  then show "dnsHandler heap m1 [(qname, qt)] = Ret empty_reply" by (rule dnsHandler_miss)
qed

text \<open>
  Applying the same applications again is not seamless: after the database is cleared, an
  application that was answered before is answered with an empty reply until its turn comes, and
  such a state is reached for every application of the list.
\<close>

theorem dns_apply_window:
  assumes "updateApps env heap (dns_clear m) ins = Ret (m1, None)"
    and "dns_name (heap ! ref) \<notin> (\<lambda>r. dns_name (heap ! r)) ` set ins"
  shows "\<exists>m1. (dns_step env heap)\<^sup>*\<^sup>* (m, None) (m1, Some (ref # todo)) \<and>
    dnsHandler heap m1 [(dns_name (heap ! ref) @ ''.'' @ dm_baseName m1, qt)] = Ret empty_reply"
proof (intro exI conjI)
  have steps: "(apply_step env heap)\<^sup>*\<^sup>* (dns_clear m, Some (ins @ ref # todo)) (m1, Some (ref # todo))"
    by (rule apply_steps_prefix [OF assms(1)])
  have "(dns_step env heap)\<^sup>*\<^sup>* (dns_clear m, Some (ins @ ref # todo)) (m1, Some (ref # todo))"
    by (rule rtranclp_mono [THEN predicate2D, OF _ steps]) (auto simp: apply_step_def)
  then show "(dns_step env heap)\<^sup>*\<^sup>* (m, None) (m1, Some (ref # todo))"
    using begin_apply by (rule converse_rtranclp_into_rtranclp [rotated])
  have "(apply_step env heap)\<^sup>*\<^sup>* (dns_clear m, Some (ins @ [])) (m1, Some [])"
    by (rule apply_steps_prefix [OF assms(1)])
  from apply_steps_names [OF this] assms(2) have "db_view heap m1 (dns_name (heap ! ref)) = None"
    by (force simp: db_view_def dns_clear_def)
  then show "dnsHandler heap m1 [(dns_name (heap ! ref) @ ''.'' @ dm_baseName m1, qt)] = Ret empty_reply"
    using dnsHandler_miss [of heap m1 "dns_name (heap ! ref) @ ''.'' @ dm_baseName m1" qt] by simp
qed

section \<open>An example\<close>

definition dns_start :: dns_manager where
  "dns_start = \<lparr>dm_verbose = False, dm_serviceAddr = ''0.0.0.0'', dm_servicePort = 53,
     dm_baseName = ''mmsd.'', dm_dnsTTL = 5000000000, dm_pushSRV = False, dm_db = None\<rparr>"

definition web_task :: "string \<Rightarrow> string \<Rightarrow> marathon_task" where
  "web_task tid host = \<lparr>t_id = tid, t_appId = ''/web'', t_host = host, t_ports = [31080],
     t_slaveId = [], t_state = None, t_healthResults = []\<rparr>"

definition web_app :: "string \<Rightarrow> marathon_task list \<Rightarrow> marathon_app" where
  "web_app aid tasks = \<lparr>a_id = aid, a_ports = [80],
     a_portDefs = [\<lparr>pd_port = 80, pd_protocol = ''tcp'', pd_labels = []\<rparr>], a_labels = [],
     a_tasks = tasks, a_healthChecks = [], a_docker = None\<rparr>"

lemmas dns_eval = dns_start_def web_task_def web_app_def example_env_def makeDnsName_rev
  dns_Apply_def dns_ApplyRefs_def dns_clear_def updateApp_def go_nth_def gm_put_def gm_make_def
  upt_rec

abbreviation web_db :: dns_manager where
  "web_db \<equiv> dns_start\<lparr>dm_db := Some [(''web'', \<lparr>ae_ipAddresses = [[10, 0, 0, 1], [10, 0, 0, 2]], ae_app = 0\<rparr>)]\<rparr>"

abbreviation two_webs :: marathon_app where
  "two_webs \<equiv> web_app ''/web'' [web_task ''t1'' ''slave1'', web_task ''t2'' ''slave2'']"

lemma dns_Apply_example:
  "dns_Apply example_env (dns_start, []) [two_webs] = Ret ((web_db, [two_webs]), None)"
  by (simp add: dns_eval)

theorem dns_answers_after_Apply_witness:
  "dnsHandler [two_webs] web_db [(''web.mmsd.'', TypeA)] =
     Ret \<lparr>rp_answer = [RR_A 5 ''mmsd.'' (Some [10, 0, 0, 1]), RR_A 5 ''mmsd.'' (Some [10, 0, 0, 2])],
          rp_extra = []\<rparr> \<and>
   dnsHandler [two_webs] web_db [(''db.mmsd.'', TypeA)] = Ret empty_reply"
proof -
  have n: "dns_name two_webs = ''web''" by (simp add: dns_eval)
  have r: "\<forall>app\<in>set [two_webs].
      resolve_tasks example_env (a_tasks app) = Inr ((\<lambda>_. [[10, 0, 0, 1], [10, 0, 0, 2]]) app)"
    by (simp add: dns_eval)
  have t: "trim_suffix ''db.mmsd.'' (''.'' @ dm_baseName dns_start) = ''db''"
    using trim_suffix_append [of "''db''" "''.mmsd.''"] by (simp add: dns_start_def)
  show ?thesis
    using dns_answers_after_Apply [OF r _ dns_Apply_example] t n
    by (simp add: dns_start_def To4_def ttl_seconds_whole)
qed

lemma dns_Apply_failing:
  "dns_Apply example_env (web_db, [two_webs]) [web_app ''/bad'' [web_task ''t3'' ''nowhere''], two_webs] =
     Ret ((web_db\<lparr>dm_db := gm_make\<rparr>,
       [two_webs, web_app ''/bad'' [web_task ''t3'' ''nowhere''], two_webs]), Some ''resolve'')"
  by (simp add: dns_eval)

theorem dns_Apply_failure_witness:
  "dnsHandler [two_webs, web_app ''/bad'' [web_task ''t3'' ''nowhere''], two_webs]
     (web_db\<lparr>dm_db := gm_make\<rparr>) [(''web.mmsd.'', TypeA)] = Ret empty_reply"
proof -
  have n: "dns_name two_webs = ''web''" by (simp add: dns_eval)
  have r: "resolve_tasks example_env (a_tasks (web_app ''/bad'' [web_task ''t3'' ''nowhere''])) = Inl ''resolve''"
    by (simp add: dns_eval)
  show ?thesis
    using dns_Apply_failure [OF r, where before = "[]" and after = "[two_webs]" and app = two_webs
        and qt = TypeA, simplified, OF dns_Apply_failing] n
    by (simp add: dns_start_def)
qed

theorem dns_apply_interleaved_witness:
  "(apply_step example_env [two_webs])\<^sup>*\<^sup>* (dns_clear dns_start, Some [0]) (web_db, None) \<and>
   dnsHandler [two_webs] (dns_clear dns_start) [(''db.mmsd.'', TypeA)] = Ret empty_reply"
proof
  have "dns_ApplyRefs example_env [two_webs] dns_start [0] = Ret (web_db, None)"
    by (simp add: dns_eval)
  then show "(apply_step example_env [two_webs])\<^sup>*\<^sup>* (dns_clear dns_start, Some [0]) (web_db, None)"
    using dns_apply_interleaved by blast
  have t: "trim_suffix ''db.mmsd.'' (''.'' @ dm_baseName (dns_clear dns_start)) = ''db''"
    using trim_suffix_append [of "''db''" "''.mmsd.''"] by (simp add: dns_start_def dns_clear_def)
  have "dns_name two_webs = ''web''" by (simp add: dns_eval)
  then show "dnsHandler [two_webs] (dns_clear dns_start) [(''db.mmsd.'', TypeA)] = Ret empty_reply"
    using dns_apply_interleaved [of example_env "[two_webs]" dns_start "[0]" _ "dns_clear dns_start"
        "Some [0]" "''db.mmsd.''" TypeA] t
    by simp
qed

theorem dns_apply_window_witness:
  "dnsHandler [two_webs] web_db [(''web.mmsd.'', TypeSRV)] \<noteq> Ret empty_reply \<and>
   (\<exists>m1. (dns_step example_env [two_webs])\<^sup>*\<^sup>* (web_db, None) (m1, Some [0]) \<and>
      dnsHandler [two_webs] m1 [(''web.'' @ dm_baseName m1, TypeSRV)] = Ret empty_reply)"
proof
  have t: "trim_suffix ''web.mmsd.'' ''.mmsd.'' = ''web''"
    using trim_suffix_append [of "''web''" "''.mmsd.''"] by simp
  show "dnsHandler [two_webs] web_db [(''web.mmsd.'', TypeSRV)] \<noteq> Ret empty_reply"
    by (simp add: dnsHandler_def t makeAllSRV_def empty_reply_def dns_eval gm_get_def)
  have n: "dns_name two_webs = ''web''" by (simp add: dns_eval)
  show "\<exists>m1. (dns_step example_env [two_webs])\<^sup>*\<^sup>* (web_db, None) (m1, Some [0]) \<and>
      dnsHandler [two_webs] m1 [(''web.'' @ dm_baseName m1, TypeSRV)] = Ret empty_reply"
    using dns_apply_window [where env = example_env and heap = "[two_webs]" and m = web_db and ins = "[]"
        and ref = 0 and todo = "[]" and qt = TypeSRV and ?m1.0 = "dns_clear web_db"] n
    by simp
qed

section \<open>Every sequence of calls\<close>

text \<open>The specification of all three operations, on the abstract database.\<close>

definition view_update :: "host_env \<Rightarrow> dns_view \<Rightarrow> marathon_app \<Rightarrow> dns_view" where
  "view_update env V app = fst (view_apps env V [app])"

fun view_call :: "host_env \<Rightarrow> dns_view \<Rightarrow> handler_call \<Rightarrow> dns_view" where
  "view_call env V (CallApply apps) = fst (view_apps env Map.empty apps)"
| "view_call env V (CallUpdate app taskID) = view_update env V app"
| "view_call env V (CallRemove appID taskID (Some app)) = view_update env V app"
| "view_call env V (CallRemove appID taskID None) = V(makeDnsNameFromAppId appID := None)"

lemma updateApp_view:
  assumes "dm_db m \<noteq> None" and "dns_ok env heap m"
  obtains m' err where "updateApp env (heap @ [app]) m (length heap) = Ret (m', err)" and "dm_db m' \<noteq> None"
    and "db_view (heap @ [app]) m' = view_update env (db_view heap m) app"
proof -
  have "\<exists>m' err. updateApps env (heap @ [app]) m [length heap] = Ret (m', err) \<and> dm_db m' \<noteq> None \<and>
      (db_view (heap @ [app]) m', err) = view_apps env (db_view (heap @ [app]) m) [app]"
    using updateApps_refines [of m "[length heap]" "heap @ [app]" env] assms(1) by (auto simp: nth_append)
  moreover have "updateApps env (heap @ [app]) m [length heap] = updateApp env (heap @ [app]) m (length heap)"
    by (cases "updateApp env (heap @ [app]) m (length heap)") (auto split: option.split)
  ultimately show thesis
    using that db_view_heap [OF assms(2), of "[app]"] by (auto simp: view_update_def) (metis fst_conv)
qed

definition dns_live :: "host_env \<Rightarrow> dns_state \<Rightarrow> bool" where
  "dns_live env s \<longleftrightarrow> dm_db (fst s) \<noteq> None \<and> dns_inv env s"

lemma dns_step_Apply:
  "\<exists>s' err. dns_Apply env s apps = Ret (s', err) \<and> dns_live env s' \<and>
     dns_seen s' = fst (view_apps env Map.empty apps)"
proof -
  obtain m heap where s: "s = (m, heap)" by (cases s)
  let ?refs = "[length heap..<length (heap @ apps)]"
  have nn: "dm_db (dns_clear m) \<noteq> None" and sub: "set ?refs \<subseteq> {..<length (heap @ apps)}"
    by (auto simp: dns_clear_def)
  from updateApps_refines [OF nn sub, of env] obtain m' err where
    u: "updateApps env (heap @ apps) (dns_clear m) ?refs = Ret (m', err)" "dm_db m' \<noteq> None"
      "(db_view (heap @ apps) m', err) = view_apps env Map.empty apps"
    by (auto simp only: map_nth_alloc db_view_clear)
  from updateApps_ok [OF dns_ok_clear u(1)] u(2) have "dns_live env (m', heap @ apps)"
    by (simp add: dns_live_def dns_inv_def)
  moreover have "dns_seen (m', heap @ apps) = fst (view_apps env Map.empty apps)"
    using u(3) by (metis dns_seen_def fst_conv snd_conv)
  moreover have "dns_Apply env s apps = Ret ((m', heap @ apps), err)"
    using u(1) by (simp add: s dns_Apply_def dns_ApplyRefs_def Let_def)
  ultimately show ?thesis by blast
qed

lemma dns_step_update:
  assumes "dns_live env (m, heap)"
  shows "\<exists>m' err. updateApp env (heap @ [app]) m (length heap) = Ret (m', err) \<and> dns_live env (m', heap @ [app]) \<and>
     dns_seen (m', heap @ [app]) = view_update env (dns_seen (m, heap)) app"
proof -
  from assms have db: "dm_db m \<noteq> None" and ok: "dns_ok env heap m" by (auto simp: dns_live_def dns_inv_def)
  obtain m' err where u: "updateApp env (heap @ [app]) m (length heap) = Ret (m', err)" "dm_db m' \<noteq> None"
    "db_view (heap @ [app]) m' = view_update env (db_view heap m) app"
    by (rule updateApp_view [OF db ok])
  from updateApp_ok [OF dns_ok_heap [OF ok] u(1)] u show ?thesis
    by (auto simp: dns_live_def dns_inv_def dns_seen_def)
qed

lemma dns_step_call:
  assumes "dns_live env s"
  shows "\<exists>s' err. handler_step (dns_Apply env) (dns_Update env) (dns_Remove env) s call = Ret (s', err) \<and>
     dns_live env s' \<and> dns_seen s' = view_call env (dns_seen s) call"
proof -
  obtain m heap where s: "s = (m, heap)" by (cases s)
  show ?thesis
  proof (cases call)
    case (CallApply apps)
    with dns_step_Apply [of env s apps] show ?thesis by auto
  next
    case (CallUpdate app tid)
    with dns_step_update [OF assms [unfolded s], of app] show ?thesis by (auto simp: s dns_Update_def)
  next
    case (CallRemove aid tid appo)
    show ?thesis
    proof (cases appo)
      case None
      have "dns_seen (m\<lparr>dm_db := gm_delete (dm_db m) name\<rparr>, heap) = (dns_seen (m, heap))(name := None)" for name
        by (simp add: dns_seen_def db_view_def fun_eq_iff gm_get_delete)
      with assms None CallRemove show ?thesis
        by (auto simp: s dns_Remove_def dns_RemoveRef_def dns_live_def dns_inv_def gm_delete_def [of "Some _"] intro: dns_ok_delete)
    next
      case (Some app)
      with CallRemove dns_step_update [OF assms [unfolded s], of app] show ?thesis
        by (auto simp: s dns_Remove_def dns_RemoveRef_def)
    qed
  qed
qed

text \<open>
  C15. The whole life of the DNS manager: from whatever state, after an \<open>Apply\<close> every further
  sequence of calls returns, and the database is at its end exactly what the abstract specification
  of the same calls gives: an application that resolves replaces the entry of its name, one that
  does not leaves it alone, a destroyed one loses it, and an \<open>Apply\<close> starts afresh.
\<close>

theorem dns_run_refines:
  "\<exists>s'. handler_run (dns_Apply env) (dns_Update env) (dns_Remove env) s (CallApply apps # calls) = Ret s' \<and>
     dns_seen s' = foldl (view_call env) Map.empty (CallApply apps # calls)"
proof -
  let ?run = "handler_run (dns_Apply env) (dns_Update env) (dns_Remove env)"
  have run: "\<exists>s'. ?run s calls = Ret s' \<and> dns_seen s' = foldl (view_call env) (dns_seen s) calls"
    if "dns_live env s" for s
    using that
  proof (induction calls arbitrary: s)
    case (Cons call calls)
    from dns_step_call [OF Cons.prems, of call] obtain s1 err where
      "handler_step (dns_Apply env) (dns_Update env) (dns_Remove env) s call = Ret (s1, err)"
      "dns_live env s1" "dns_seen s1 = view_call env (dns_seen s) call" by blast
    with Cons.IH [of s1] show ?case by (simp add: handler_run_def)
  qed (simp add: handler_run_def)
  from dns_step_Apply [of env s apps] obtain s1 err where
    "dns_Apply env s apps = Ret (s1, err)" "dns_live env s1" "dns_seen s1 = fst (view_apps env Map.empty apps)" by blast
  with run [of s1] show ?thesis by (simp add: handler_run_def)
qed

section \<open>The servers\<close>

text \<open>
  \<open>Setup\<close> registers the query handler for the base name and starts two goroutines, each of which
  makes a server, stores it in the manager and blocks in the library's \<open>ListenAndServe\<close>; when that
  fails, the program ends. An event is the start of one goroutine or such a failure. \<open>Shutdown\<close>
  passes the two fields, which may still be nil, to the library, the parameter \<open>shutdown\<close>.
\<close>

record dns_server =
  srv_Addr :: string
  srv_Net :: string

record dns_servers =
  ds_handled :: "string list"
  ds_udpServer :: "dns_server option"
  ds_tcpServer :: "dns_server option"

datatype server_event = UdpStarts | TcpStarts | ListenFails go_error

definition new_server :: "dns_manager \<Rightarrow> string \<Rightarrow> dns_server" where
  "new_server m net = \<lparr>srv_Addr = dm_serviceAddr m @ '':'' @ uint_str (dm_servicePort m), srv_Net = net\<rparr>"

definition dns_Setup :: "dns_manager \<Rightarrow> dns_servers" where
  "dns_Setup m = \<lparr>ds_handled = [dm_baseName m], ds_udpServer = None, ds_tcpServer = None\<rparr>"

fun server_step :: "dns_manager \<Rightarrow> dns_servers \<Rightarrow> server_event \<Rightarrow> dns_servers go" where
  "server_step m s UdpStarts = Ret (s\<lparr>ds_udpServer := Some (new_server m ''udp'')\<rparr>)"
| "server_step m s TcpStarts = Ret (s\<lparr>ds_tcpServer := Some (new_server m ''tcp'')\<rparr>)"
| "server_step m s (ListenFails err) = Panic LogFatal"

definition dns_Shutdown :: "(dns_server option \<Rightarrow> 'r go) \<Rightarrow> dns_servers \<Rightarrow> unit go" where
  "dns_Shutdown shutdown s =
     go_bind (shutdown (ds_udpServer s)) (\<lambda>_. go_bind (shutdown (ds_tcpServer s)) (\<lambda>_. Ret ()))"

definition dns_Log :: "dns_manager \<Rightarrow> string \<Rightarrow> string list" where
  "dns_Log m msg = (if dm_verbose m then [''[dns]: '' @ msg @ nl] else [])"

text \<open>
  In whatever order the goroutines run, both servers listen on the configured address, one for each
  protocol; until then a field is nil exactly as long as its goroutine has not run.
\<close>

lemma server_run:
  "go_fold (server_step m) s es = Ret s' \<Longrightarrow>
   ds_udpServer s' = (if UdpStarts \<in> set es then Some (new_server m ''udp'') else ds_udpServer s) \<and>
   ds_tcpServer s' = (if TcpStarts \<in> set es then Some (new_server m ''tcp'') else ds_tcpServer s)"
proof (induction es arbitrary: s)
  case (Cons e es)
  then show ?case by (cases e) auto
qed simp

lemma shutdown_after_start:
  assumes "go_fold (server_step m) (dns_Setup m) es = Ret s'" and "{UdpStarts, TcpStarts} \<subseteq> set es"
  shows "dns_Shutdown shutdown s' =
    go_bind (shutdown (Some (new_server m ''udp''))) (\<lambda>_. go_bind (shutdown (Some (new_server m ''tcp''))) (\<lambda>_. Ret ()))"
  using server_run [OF assms(1)] assms(2) by (simp add: dns_Shutdown_def)

lemma shutdown_before_start:
  assumes "go_fold (server_step m) (dns_Setup m) es = Ret s'" and "UdpStarts \<notin> set es"
    and "shutdown None = Panic NilDereference"
  shows "dns_Shutdown shutdown s' = Panic NilDereference"
  using server_run [OF assms(1)] assms(2,3) by (simp add: dns_Shutdown_def dns_Setup_def)

end
