(* ===== verification/Udp_Manager.thy ===== *)
theory Udp_Manager
  imports Helper Udp_Proxy Handler
begin

text \<open>
  The manager of UDP services, src/udp_manager.go. It keeps a frontend per service name in
  \<open>um_servers\<close>; a pointer to a frontend is its name there. The record \<open>udp_state\<close> extends the
  manager by the bound sockets of the operating system and by the list of the running goroutines of
  \<open>Serve\<close>. Each is an entry, the address of the socket that it reads: \<open>go fe.Serve()\<close> adds one, and
  closing a frontend ends all those that read its socket, since their next read fails. (The other
  way a goroutine can end, a read that fails on an open socket, is in \<open>Udp_Schedule\<close>.)

  The properties are: synchronisation of the backends with the tasks that are alive (through the
  contract \<open>backend_pool\<close>), the invariant of the table of servers under every call of the
  service (\<open>mmsd_handler\<close>), and what goes wrong: destroyed applications keep their frontends,
  every update starts one more goroutine per port, and a failed bind crashes the program.
\<close>

record udp_manager =
  um_enabled :: bool
  um_verbose :: bool
  um_bindAddr :: string
  um_servers :: "(string, frontend) gomap"

record udp_state = udp_manager +
  us_socks :: sockets
  us_serving :: "string list"

text \<open>\<open>fe.Close()\<close>: the socket is closed, and the goroutines that read it return.\<close>

definition close_server :: "frontend \<Rightarrow> udp_state \<Rightarrow> udp_state" where
  "close_server fe st =
     st\<lparr>us_socks := CloseFrontend fe (us_socks st), us_serving := removeAll (fe_addr fe) (us_serving st)\<rparr>"

definition NewUdpManager :: "string \<Rightarrow> bool \<Rightarrow> bool \<Rightarrow> udp_manager" where
  "NewUdpManager bindAddr verbose enabled =
     \<lparr>um_enabled = enabled, um_verbose = verbose, um_bindAddr = bindAddr, um_servers = gm_make\<rparr>"

definition udp_SetEnabled :: "udp_state \<Rightarrow> bool \<Rightarrow> udp_state" where
  "udp_SetEnabled st v = (if v \<noteq> um_enabled st then st\<lparr>um_enabled := v\<rparr> else st)"

definition frontend_sched :: "marathon_app \<Rightarrow> scheduler" where
  "frontend_sched app =
     (if label (a_labels app) ''lb-mode'' = ''multicast'' then Multicast
      else if label (a_labels app) ''lb-mode'' = ''roundrobin'' then RoundRobin
      else RoundRobin)"

definition GetFrontend :: "udp_env \<Rightarrow> udp_state \<Rightarrow> marathon_app \<Rightarrow> nat
    \<Rightarrow> ((go_error + string) \<times> udp_state) go" where
  "GetFrontend ue st app portIndex =
     go_bind (go_nth (a_portDefs app) portIndex) (\<lambda>pd.
     go_bind (PrettifyAppId (a_id app) portIndex (pd_port pd)) (\<lambda>name.
       case gm_get (um_servers st) name of
         Some server \<Rightarrow> Ret (Inr name, st)
       | None \<Rightarrow>
          (case NewFrontend ue (us_socks st) name
                  (um_bindAddr st @ '':'' @ uint_str (pd_port pd)) (frontend_sched app) of
             (Inl err, socks) \<Rightarrow> Ret (Inl err, st\<lparr>us_socks := socks\<rparr>)
           | (Inr fe, socks) \<Rightarrow>
               go_bind (gm_put (um_servers st) name fe) (\<lambda>servers.
                 Ret (Inr name, st\<lparr>um_servers := servers, us_socks := socks\<rparr>)))))"

definition removeApp :: "udp_state \<Rightarrow> string \<Rightarrow> udp_state" where
  "removeApp st appID =
     foldl (\<lambda>st name.
         (case gm_get (um_servers st) name of
            Some fe \<Rightarrow> (close_server fe st)\<lparr>um_servers := gm_delete (um_servers st) name\<rparr>
          | None \<Rightarrow> st))
       st (filter (prefix appID) (gm_keys (um_servers st)))"

definition backend_name :: "marathon_task \<Rightarrow> string" where
  "backend_name task = t_host task @ ''-'' @ t_id task"

definition backend_addr :: "marathon_task \<Rightarrow> uint \<Rightarrow> string" where
  "backend_addr task port = t_host task @ '':'' @ uint_str port"

definition add_task :: "udp_env \<Rightarrow> host_env \<Rightarrow> nat \<Rightarrow> frontend \<Rightarrow> marathon_task \<Rightarrow> frontend go" where
  "add_task ue env portIndex fe task =
     (if env_isAlive env task then
        go_bind (go_nth (t_ports task) portIndex) (\<lambda>port.
          case AddBackend ue fe (backend_name task) (backend_addr task port) of
            (Inl err, fe') \<Rightarrow> Ret fe'
          | (Inr be, fe') \<Rightarrow> Ret (touch_at fe' be))
      else Ret fe)"

definition apply_port :: "udp_env \<Rightarrow> host_env \<Rightarrow> marathon_app \<Rightarrow> udp_state \<Rightarrow> nat \<Rightarrow> udp_state go" where
  "apply_port ue env app st portIndex =
     (if GetTransportProtocol app portIndex = ''udp'' then
        go_bind (GetFrontend ue st app portIndex) (\<lambda>(res, st1).
          case res of
            Inl err \<Rightarrow> Panic NilDereference
          | Inr name \<Rightarrow>
             (case gm_get (um_servers st1) name of
                None \<Rightarrow> Panic NilDereference
              | Some fe \<Rightarrow>
                  go_bind (go_fold (add_task ue env portIndex) (ClearTouch fe) (a_tasks app)) (\<lambda>fe1.
                  go_bind (gm_put (um_servers st1) name (RemoveUntouched fe1)) (\<lambda>servers.
                    Ret (st1\<lparr>um_servers := servers, us_serving := fe_addr fe # us_serving st1\<rparr>)))))
      else Ret st)"

definition applyApp :: "udp_env \<Rightarrow> host_env \<Rightarrow> udp_state \<Rightarrow> marathon_app \<Rightarrow> udp_state go" where
  "applyApp ue env st app = go_fold (apply_port ue env app) st [0..<length (a_ports app)]"

definition udp_Apply :: "udp_env \<Rightarrow> host_env \<Rightarrow> udp_state \<Rightarrow> marathon_app list
    \<Rightarrow> udp_state handler_result" where
  "udp_Apply ue env st apps =
     go_bind (go_fold (applyApp ue env) st apps) (\<lambda>st'. Ret (st', None))"

definition udp_Update :: "udp_env \<Rightarrow> host_env \<Rightarrow> udp_state \<Rightarrow> marathon_app \<Rightarrow> string
    \<Rightarrow> udp_state handler_result" where
  "udp_Update ue env st app taskID = go_bind (applyApp ue env st app) (\<lambda>st'. Ret (st', None))"

definition udp_Remove :: "udp_env \<Rightarrow> host_env \<Rightarrow> udp_state \<Rightarrow> string \<Rightarrow> string
    \<Rightarrow> marathon_app option \<Rightarrow> udp_state handler_result" where
  "udp_Remove ue env st appID taskID appo =
     (case appo of
        Some app \<Rightarrow> go_bind (applyApp ue env st app) (\<lambda>st'. Ret (st', None))
      | None \<Rightarrow> Ret (removeApp st appID, None))"

section \<open>The invariant\<close>

text \<open>
  Every entry of the table is a frontend of that name with backends of different names, on a
  socket of its own; the names are service names, so they hold no slash. Every goroutine of \<open>Serve\<close>
  reads a bound socket.
\<close>

definition server_ok :: "udp_state \<Rightarrow> string \<Rightarrow> frontend \<Rightarrow> bool" where
  "server_ok st name fe \<longleftrightarrow> fe_name fe = name \<and> CHR ''/'' \<notin> set name \<and>
     distinct (fe_names fe) \<and> fe_addr fe \<in> set (us_socks st)"

definition udp_ok :: "udp_state \<Rightarrow> bool" where
  "udp_ok st \<longleftrightarrow> um_servers st \<noteq> None \<and> set (us_serving st) \<subseteq> set (us_socks st) \<and>
     (\<forall>name fe. gm_get (um_servers st) name = Some fe \<longrightarrow> server_ok st name fe) \<and>
     (\<forall>a b fe ge. gm_get (um_servers st) a = Some fe \<longrightarrow> gm_get (um_servers st) b = Some ge \<longrightarrow>
        fe_addr fe = fe_addr ge \<longrightarrow> a = b)"

lemma udp_okD: "udp_ok st \<Longrightarrow> gm_get (um_servers st) name = Some fe \<Longrightarrow> server_ok st name fe"
  unfolding udp_ok_def by blast

lemma udp_ok_addr:
  "udp_ok st \<Longrightarrow> gm_get (um_servers st) a = Some fe \<Longrightarrow> gm_get (um_servers st) b = Some ge \<Longrightarrow>
   fe_addr fe = fe_addr ge \<Longrightarrow> a = b"
  unfolding udp_ok_def by blast

lemma udp_okI:
  assumes "um_servers st \<noteq> None" and "set (us_serving st) \<subseteq> set (us_socks st)"
    and "\<And>name fe. gm_get (um_servers st) name = Some fe \<Longrightarrow> server_ok st name fe"
    and "\<And>a b fe ge. gm_get (um_servers st) a = Some fe \<Longrightarrow> gm_get (um_servers st) b = Some ge \<Longrightarrow>
      fe_addr fe = fe_addr ge \<Longrightarrow> a = b"
  shows "udp_ok st"
  using assms unfolding udp_ok_def by blast

lemma GetFrontend_cases:
  assumes "GetFrontend ue st app i = Ret (res, st')"
  obtains (known) name fe where "res = Inr name" "st' = st" "gm_get (um_servers st) name = Some fe"
      "i < length (a_portDefs app)" "PrettifyAppId (a_id app) i (pd_port (a_portDefs app ! i)) = Ret name"
  | (failed) err where "res = Inl err" "st' = st"
  | (new) name fe servers where "res = Inr name" "gm_get (um_servers st) name = None"
      "gm_put (um_servers st) name fe = Ret servers"
      "st' = st\<lparr>um_servers := servers, us_socks := fe_addr fe # us_socks st\<rparr>"
      "fe_name fe = name" "fe_backends fe = []" "fe_addr fe \<notin> set (us_socks st)"
      "i < length (a_portDefs app)" "PrettifyAppId (a_id app) i (pd_port (a_portDefs app ! i)) = Ret name"
proof -
  from assms obtain name where i: "i < length (a_portDefs app)"
    and n: "PrettifyAppId (a_id app) i (pd_port (a_portDefs app ! i)) = Ret name"
    and c: "(case gm_get (um_servers st) name of
         Some server \<Rightarrow> Ret (Inr name, st)
       | None \<Rightarrow>
          (case NewFrontend ue (us_socks st) name
                  (um_bindAddr st @ '':'' @ uint_str (pd_port (a_portDefs app ! i))) (frontend_sched app) of
             (Inl err, socks) \<Rightarrow> Ret (Inl err, st\<lparr>us_socks := socks\<rparr>)
           | (Inr fe, socks) \<Rightarrow>
               go_bind (gm_put (um_servers st) name fe) (\<lambda>servers.
                 Ret (Inr name, st\<lparr>um_servers := servers, us_socks := socks\<rparr>)))) = Ret (res, st')"
    unfolding GetFrontend_def go_bind_eq_Ret go_nth_eq_Ret by blast
  show thesis
  proof (cases "gm_get (um_servers st) name")
    case (Some fe)
    with c have "res = Inr name" "st' = st" by auto
    with Some i n show thesis by (intro known)
  next
    case None
    obtain r socks where nf: "NewFrontend ue (us_socks st) name
        (um_bindAddr st @ '':'' @ uint_str (pd_port (a_portDefs app ! i))) (frontend_sched app) = (r, socks)"
      by (metis surj_pair)
    show thesis
    proof (cases r)
      case (Inl err)
      with nf have "socks = us_socks st" using NewFrontend_Inl by blast
      with None c nf Inl show thesis by (intro failed) auto
    next
      case (Inr fe)
      with None c nf obtain servers where "gm_put (um_servers st) name fe = Ret servers"
        "res = Inr name" "st' = st\<lparr>um_servers := servers, us_socks := socks\<rparr>"
        by (auto simp: go_run)
      with None i n NewFrontend_Inr [OF nf [unfolded Inr]] show thesis by (intro new) auto
    qed
  qed
qed

section \<open>Synchronising a frontend with the tasks\<close>

definition wanted_backends :: "host_env \<Rightarrow> nat \<Rightarrow> marathon_task list \<Rightarrow> (string \<times> string) list" where
  "wanted_backends env i tasks =
     map (\<lambda>t. (backend_name t, backend_addr t (t_ports t ! i))) (filter (env_isAlive env) tasks)"

lemma add_tasks_fold:
  "go_fold (add_task ue env i) fe tasks = Ret fe1 \<Longrightarrow>
     fe1 = foldl (\<lambda>f (n, a). case AddBackend ue f n a of (Inr i, f') \<Rightarrow> touch_at f' i | (Inl e, f') \<Rightarrow> f')
             fe (wanted_backends env i tasks)"
proof (induction tasks arbitrary: fe)
  case (Cons t tasks)
  from Cons.prems obtain f where f: "add_task ue env i fe t = Ret f"
    and rest: "go_fold (add_task ue env i) f tasks = Ret fe1" by (auto simp: go_run)
  from Cons.IH [OF rest] f show ?case
    by (auto simp: add_task_def wanted_backends_def go_run
        split: if_splits prod.splits sum.splits)
qed (simp add: wanted_backends_def)

lemma add_tasks_sync:
  "go_fold (add_task ue env i) (ClearTouch fe) tasks = Ret fe1 \<Longrightarrow>
     RemoveUntouched fe1 = sync_frontend ue fe (wanted_backends env i tasks)"
  using add_tasks_fold by (fastforce simp: sync_frontend_def sync_pool_def)

lemma AddBackend_frame:
  "AddBackend ue f n a = (r, f') \<Longrightarrow>
     fe_name f' = fe_name f \<and> fe_addr f' = fe_addr f \<and> fe_scheduler f' = fe_scheduler f"
  by (auto simp: AddBackend_def split: option.splits sum.splits)

lemma sync_frame:
  "fe_name (sync_frontend ue fe ps) = fe_name fe \<and> fe_addr (sync_frontend ue fe ps) = fe_addr fe \<and>
   fe_scheduler (sync_frontend ue fe ps) = fe_scheduler fe"
proof -
  let ?step = "\<lambda>f (n, a). case AddBackend ue f n a of (Inr i, f') \<Rightarrow> touch_at f' i | (Inl e, f') \<Rightarrow> f'"
  have "fe_name (foldl ?step f ps) = fe_name f \<and> fe_addr (foldl ?step f ps) = fe_addr f \<and>
      fe_scheduler (foldl ?step f ps) = fe_scheduler f" for f
  proof (induction ps arbitrary: f)
    case (Cons p ps)
    obtain n a where p: "p = (n, a)" by (cases p)
    obtain r f' where r: "AddBackend ue f n a = (r, f')" by (cases "AddBackend ue f n a")
    from Cons.IH [of "case r of Inl e \<Rightarrow> f' | Inr i \<Rightarrow> touch_at f' i"] AddBackend_frame [OF r] show ?case
      by (cases r) (auto simp: p r touch_at_def)
  qed simp
  then show ?thesis
    by (simp add: sync_frontend_def sync_pool_def RemoveUntouched_def ClearTouch_def)
qed

definition service_name :: "marathon_app \<Rightarrow> nat \<Rightarrow> string go" where
  "service_name app i =
     go_bind (go_nth (a_portDefs app) i) (\<lambda>pd. PrettifyAppId (a_id app) i (pd_port pd))"

definition old_names :: "udp_state \<Rightarrow> string \<Rightarrow> string set" where
  "old_names st name =
     (case gm_get (um_servers st) name of None \<Rightarrow> {} | Some fe \<Rightarrow> set (fe_names fe))"

text \<open>The names of the backends that a frontend must have: those of the tasks that are alive.\<close>

definition live_names :: "udp_env \<Rightarrow> host_env \<Rightarrow> nat \<Rightarrow> marathon_task list \<Rightarrow> string set \<Rightarrow> string set" where
  "live_names ue env i tasks old =
     {backend_name t | t. t \<in> set tasks \<and> env_isAlive env t \<and>
        (backend_name t \<in> old \<or> ue_resolve ue (backend_addr t (t_ports t ! i)) \<noteq> None)}"

lemma sync_live_names:
  "distinct (fe_names fe) \<Longrightarrow>
     distinct (fe_names (sync_frontend ue fe (wanted_backends env i tasks))) \<and>
     set (fe_names (sync_frontend ue fe (wanted_backends env i tasks))) =
       live_names ue env i tasks (set (fe_names fe))"
  using sync_frontend_names [of fe ue "wanted_backends env i tasks"]
  by (auto simp: wanted_backends_def live_names_def)

lemma apply_port_Ret:
  assumes "udp_ok st" and "apply_port ue env app st i = Ret st'"
    and "GetTransportProtocol app i = ''udp''"
  shows "\<exists>name fe. service_name app i = Ret name \<and> server_ok st' name fe \<and>
    gm_get (um_servers st') = (gm_get (um_servers st))(name \<mapsto> fe) \<and> um_servers st' \<noteq> None \<and>
    set (fe_names fe) = live_names ue env i (a_tasks app) (old_names st name) \<and>
    us_serving st' = fe_addr fe # us_serving st \<and> set (us_socks st) \<subseteq> set (us_socks st') \<and>
    (case gm_get (um_servers st) name of
       Some f \<Rightarrow> fe_addr fe = fe_addr f | None \<Rightarrow> fe_addr fe \<notin> set (us_socks st))"
proof -
  from assms(2,3) obtain res st1 where g: "GetFrontend ue st app i = Ret (res, st1)"
    by (auto simp: apply_port_def go_run)
  from g show ?thesis
  proof (cases rule: GetFrontend_cases)
    case (known name fe)
    from assms(2,3) known g obtain fe1 servers where
      f: "go_fold (add_task ue env i) (ClearTouch fe) (a_tasks app) = Ret fe1"
      and p: "gm_put (um_servers st) name (RemoveUntouched fe1) = Ret servers"
      and st': "st' = st\<lparr>um_servers := servers, us_serving := fe_addr fe # us_serving st\<rparr>"
      by (auto simp: apply_port_def go_run)
    from udp_okD [OF assms(1) known(3)] have ok: "server_ok st name fe" .
    then have "distinct (fe_names fe)" by (simp add: server_ok_def)
    note s = sync_live_names [OF this, of ue env i "a_tasks app"] add_tasks_sync [OF f]
    have "service_name app i = Ret name" using known(4,5) by (simp add: service_name_def go_nth_def)
    moreover have "server_ok st' name (RemoveUntouched fe1)"
      using ok s sync_frame by (simp add: server_ok_def st')
    moreover have "old_names st name = set (fe_names fe)" by (simp add: old_names_def known(3))
    moreover have "fe_addr (RemoveUntouched fe1) = fe_addr fe" using s sync_frame by simp
    ultimately show ?thesis using gm_get_put [OF p] gm_put_not_nil [OF p] s known(3)
      by (auto simp: st')
  next
    case (failed err)
    with assms(2,3) g show ?thesis by (simp add: apply_port_def)
  next
    case (new name fe servers1)
    from gm_get_put [OF new(3)] have "gm_get servers1 name = Some fe" by simp
    with assms(2,3) new(1,4) g obtain fe1 servers where
      f: "go_fold (add_task ue env i) (ClearTouch fe) (a_tasks app) = Ret fe1"
      and p: "gm_put servers1 name (RemoveUntouched fe1) = Ret servers"
      and st': "st' = st\<lparr>um_servers := servers, us_socks := fe_addr fe # us_socks st,
                        us_serving := fe_addr fe # us_serving st\<rparr>"
      by (auto simp: apply_port_def go_run)
    have "distinct (fe_names fe)" using new(6) by (simp add: fe_names_def)
    note s = sync_live_names [OF this, of ue env i "a_tasks app"] add_tasks_sync [OF f]
    have "service_name app i = Ret name" using new(8,9) by (simp add: service_name_def go_nth_def)
    moreover have "server_ok st' name (RemoveUntouched fe1)"
      using s sync_frame new(5) PrettifyAppId_no_slash [OF new(9)] by (simp add: server_ok_def st')
    moreover have "old_names st name = set (fe_names fe)"
      using new(2,6) by (simp add: old_names_def fe_names_def)
    moreover have "fe_addr (RemoveUntouched fe1) \<notin> set (us_socks st)"
      "fe_addr (RemoveUntouched fe1) = fe_addr fe"
      using s sync_frame new(7) by simp_all
    ultimately show ?thesis
      using gm_get_put [OF new(3)] gm_get_put [OF p] gm_put_not_nil [OF p] s new(2) by (auto simp: st')
  qed
qed

lemma apply_port_skip:
  "GetTransportProtocol app i \<noteq> ''udp'' \<Longrightarrow> apply_port ue env app st i = Ret st"
  by (simp add: apply_port_def)

lemma udp_ok_apply_port:
  assumes ok: "udp_ok st" and "apply_port ue env app st i = Ret st'"
  shows "udp_ok st'"
proof (cases "GetTransportProtocol app i = ''udp''")
  case True
  from apply_port_Ret [OF assms True] obtain name fe where
    s: "server_ok st' name fe" and g: "gm_get (um_servers st') = (gm_get (um_servers st))(name \<mapsto> fe)"
    and nil: "um_servers st' \<noteq> None" and socks: "set (us_socks st) \<subseteq> set (us_socks st')"
    and serving: "us_serving st' = fe_addr fe # us_serving st"
    and addr: "case gm_get (um_servers st) name of
       Some f \<Rightarrow> fe_addr fe = fe_addr f | None \<Rightarrow> fe_addr fe \<notin> set (us_socks st)" by blast
  have own: "n = name" if "gm_get (um_servers st) n = Some f" "fe_addr f = fe_addr fe" for n f
  proof (cases "gm_get (um_servers st) name")
    case None
    with addr that(2) udp_okD [OF ok that(1)] show ?thesis by (simp add: server_ok_def)
  next
    case (Some h)
    with addr that(2) udp_ok_addr [OF ok that(1) Some] show ?thesis by simp
  qed
  show ?thesis
  proof (rule udp_okI [OF nil])
    show "set (us_serving st') \<subseteq> set (us_socks st')"
      using ok s socks serving by (auto simp: udp_ok_def server_ok_def)
    show "server_ok st' n f" if "gm_get (um_servers st') n = Some f" for n f
      using that s udp_okD [OF ok, of n f] socks by (auto simp: g server_ok_def split: if_splits)
    show "a = b" if "gm_get (um_servers st') a = Some f" "gm_get (um_servers st') b = Some h"
      "fe_addr f = fe_addr h" for a b f h
      using that own [of a f] own [of b h] udp_ok_addr [OF ok, of a f b h]
      by (auto simp: g split: if_splits)
  qed
next
  case False
  with assms show ?thesis by (simp add: apply_port_skip)
qed

lemma udp_ok_close:
  assumes ok: "udp_ok st" and n: "gm_get (um_servers st) name = Some fe"
  shows "udp_ok ((close_server fe st)\<lparr>um_servers := gm_delete (um_servers st) name\<rparr>)"
proof (rule udp_okI)
  let ?st = "(close_server fe st)\<lparr>um_servers := gm_delete (um_servers st) name\<rparr>"
  show "um_servers ?st \<noteq> None" using n by (cases "um_servers st") (auto simp: gm_delete_def)
  show "set (us_serving ?st) \<subseteq> set (us_socks ?st)"
    using ok by (auto simp: udp_ok_def close_server_def CloseFrontend_def)
  show "server_ok ?st m f" if "gm_get (um_servers ?st) m = Some f" for m f
    using that udp_okD [OF ok, of m f] udp_ok_addr [OF ok _ n, of m f]
    by (auto simp: gm_get_delete server_ok_def close_server_def CloseFrontend_def split: if_splits)
  show "a = b" if "gm_get (um_servers ?st) a = Some f" "gm_get (um_servers ?st) b = Some h"
    "fe_addr f = fe_addr h" for a b f h
    using that udp_ok_addr [OF ok, of a f b h] by (auto simp: gm_get_delete split: if_splits)
qed

lemma udp_ok_removeApp:
  assumes "udp_ok st" shows "udp_ok (removeApp st appID)"
proof -
  let ?step = "\<lambda>st name. case gm_get (um_servers st) name of
      Some fe \<Rightarrow> (close_server fe st)\<lparr>um_servers := gm_delete (um_servers st) name\<rparr>
    | None \<Rightarrow> st"
  have "udp_ok s \<Longrightarrow> udp_ok (foldl ?step s ns)" for s ns
    by (induction ns arbitrary: s) (auto split: option.split intro: udp_ok_close)
  with assms show ?thesis by (simp add: removeApp_def)
qed

lemma udp_ok_applyApp: "udp_ok st \<Longrightarrow> applyApp ue env st app = Ret st' \<Longrightarrow> udp_ok st'"
  unfolding applyApp_def by (erule go_fold_invariant) (auto intro: udp_ok_apply_port)

lemma removeApp_absent:
  assumes "udp_ok st"
  shows "removeApp st (CHR ''/'' # rest) = st"
proof -
  have "\<not> prefix (CHR ''/'' # rest) name" if "name \<in> set (gm_keys (um_servers st))" for name
  proof -
    from that obtain fe where "gm_get (um_servers st) name = Some fe"
      by (auto simp: set_gm_keys)
    from udp_okD [OF assms this] have "CHR ''/'' \<notin> set name" by (simp add: server_ok_def)
    then show ?thesis by (auto simp: prefix_def)
  qed
  then have "filter (prefix (CHR ''/'' # rest)) (gm_keys (um_servers st)) = []"
    by (simp add: filter_empty_conv)
  then show ?thesis by (simp add: removeApp_def)
qed

interpretation udp: mmsd_handler "udp_Apply ue env" "udp_Update ue env" "udp_Remove ue env" udp_ok
  for ue env
proof
  fix s s' :: udp_state and apps err app tid aid appo
  assume ok: "udp_ok s"
  show "udp_ok s'" if "udp_Apply ue env s apps = Ret (s', err)"
  proof -
    from that have "go_fold (applyApp ue env) s apps = Ret s'" by (auto simp: udp_Apply_def go_run)
    then show ?thesis using ok by (rule go_fold_invariant) (rule udp_ok_applyApp)
  qed
  show "udp_ok s'" if "udp_Update ue env s app tid = Ret (s', err)"
    using that ok by (auto simp: udp_Update_def go_run intro: udp_ok_applyApp)
  show "udp_ok s'" if "udp_Remove ue env s aid tid appo = Ret (s', err)"
    using that ok by (auto simp: udp_Remove_def go_run split: option.splits
        intro: udp_ok_applyApp udp_ok_removeApp)
qed





text \<open>What a run over several ports leaves in the table, port by port.\<close>

lemma apply_ports:
  assumes "udp_ok st" and "go_fold (apply_port ue env app) st is = Ret st'" and "distinct is"
  shows "(\<forall>i\<in>set is. GetTransportProtocol app i = ''udp'' \<longrightarrow>
            (\<exists>name fe. service_name app i = Ret name \<and> gm_get (um_servers st') name = Some fe \<and>
               distinct (fe_names fe) \<and>
               set (fe_names fe) = live_names ue env i (a_tasks app) (old_names st name))) \<and>
    (\<forall>n. (\<forall>i\<in>set is. service_name app i \<noteq> Ret n) \<longrightarrow>
       gm_get (um_servers st') n = gm_get (um_servers st) n)"
  using assms
proof (induction "is" arbitrary: st)
  case (Cons i "is")
  from Cons.prems(2) obtain st1 where 1: "apply_port ue env app st i = Ret st1"
    and 2: "go_fold (apply_port ue env app) st1 is = Ret st'" by (auto simp: go_run)
  have d: "i \<notin> set is" "distinct is" using Cons.prems(3) by auto
  note IH = Cons.IH [OF udp_ok_apply_port [OF Cons.prems(1) 1] 2 d(2)]
  have other: "service_name app j \<noteq> Ret name" if "service_name app i = Ret name" "j \<in> set is" for j name
    using that d(1) unfolding service_name_def go_bind_eq_Ret by (metis PrettifyAppId_index)
  show ?case
  proof (cases "GetTransportProtocol app i = ''udp''")
    case False
    with 1 have "st1 = st" by (simp add: apply_port_skip)
    with IH False show ?thesis by simp
  next
    case True
    from apply_port_Ret [OF Cons.prems(1) 1 True] obtain name fe where
      n: "service_name app i = Ret name" and ok: "server_ok st1 name fe"
      and g: "gm_get (um_servers st1) = (gm_get (um_servers st))(name \<mapsto> fe)"
      and names: "set (fe_names fe) = live_names ue env i (a_tasks app) (old_names st name)" by blast
    have keep: "gm_get (um_servers st') name = Some fe" using IH other [OF n] g by auto
    have old: "old_names st1 m = old_names st m" if "m \<noteq> name" for m
      using that g by (simp add: old_names_def)
    have rest: "\<exists>m f. service_name app j = Ret m \<and> gm_get (um_servers st') m = Some f \<and>
        distinct (fe_names f) \<and>
        set (fe_names f) = live_names ue env j (a_tasks app) (old_names st m)"
      if "j \<in> set is" "GetTransportProtocol app j = ''udp''" for j
      using IH that other [OF n that(1)] old by metis
    have this_port: "distinct (fe_names fe)" using ok by (simp add: server_ok_def)
    show ?thesis
    proof (intro conjI ballI impI allI)
      fix j assume "j \<in> set (i # is)" and "GetTransportProtocol app j = ''udp''"
      then show "\<exists>m f. service_name app j = Ret m \<and> gm_get (um_servers st') m = Some f \<and>
        distinct (fe_names f) \<and>
        set (fe_names f) = live_names ue env j (a_tasks app) (old_names st m)"
        using rest n keep names this_port by auto
    next
      fix m assume "\<forall>j\<in>set (i # is). service_name app j \<noteq> Ret m"
      then show "gm_get (um_servers st') m = gm_get (um_servers st) m" using IH n g by auto
    qed
  qed
qed simp

lemma applyApp_grows:
  assumes "udp_ok st" and "applyApp ue env st app = Ret st'"
  shows "dom (gm_get (um_servers st)) \<subseteq> dom (gm_get (um_servers st'))"
proof -
  have "udp_ok st' \<and> dom (gm_get (um_servers st)) \<subseteq> dom (gm_get (um_servers st'))"
    using assms(2) unfolding applyApp_def
  proof (rule go_fold_invariant)
    fix s i s'
    assume s: "udp_ok s \<and> dom (gm_get (um_servers st)) \<subseteq> dom (gm_get (um_servers s))"
      and a: "apply_port ue env app s i = Ret s'"
    then have "dom (gm_get (um_servers s)) \<subseteq> dom (gm_get (um_servers s'))"
      using apply_port_Ret [of s ue env app i s'] by (cases "GetTransportProtocol app i = ''udp''")
        (auto simp: apply_port_skip)
    with s a udp_ok_apply_port [of s ue env app i s']
    show "udp_ok s' \<and> dom (gm_get (um_servers st)) \<subseteq> dom (gm_get (um_servers s'))" by blast
  qed (use assms(1) in simp)
  then show ?thesis ..
qed

section \<open>Properties\<close>

text \<open>
  C9. After an application has been applied, the frontend of each of its UDP ports exists and
  its backends are, each once, the tasks that are alive, except those that are new and whose
  address does not resolve; frontends of other services are untouched.
\<close>

theorem applyApp_synchronises:
  assumes "udp_ok st" and "applyApp ue env st app = Ret st'"
  shows "(\<forall>i. i < length (a_ports app) \<longrightarrow> GetTransportProtocol app i = ''udp'' \<longrightarrow>
            (\<exists>name fe. service_name app i = Ret name \<and> gm_get (um_servers st') name = Some fe \<and>
               distinct (fe_names fe) \<and>
               set (fe_names fe) = live_names ue env i (a_tasks app) (old_names st name))) \<and>
    (\<forall>n. (\<forall>i<length (a_ports app). service_name app i \<noteq> Ret n) \<longrightarrow>
       gm_get (um_servers st') n = gm_get (um_servers st) n)"
  using apply_ports [OF assms(1) assms(2) [unfolded applyApp_def]] by simp

text \<open>
  The table of UDP servers keeps its invariant under every sequence of calls of the service
  that does not crash: names and entries agree, backends are distinct and every frontend has a
  bound socket that no other frontend uses.
\<close>

theorem udp_run_ok:
  assumes "udp_ok st"
    and "handler_run (udp_Apply ue env) (udp_Update ue env) (udp_Remove ue env) st calls = Ret st'"
  shows "udp_ok st'"
  by (rule udp.run_inv [OF assms])

lemma udp_Apply_grows:
  assumes "udp_ok st" and "udp_Apply ue env st apps = Ret (st', err)"
  shows "dom (gm_get (um_servers st)) \<subseteq> dom (gm_get (um_servers st'))"
proof -
  from assms(2) have "go_fold (applyApp ue env) st apps = Ret st'"
    by (auto simp: udp_Apply_def go_run)
  then have "udp_ok st' \<and> dom (gm_get (um_servers st)) \<subseteq> dom (gm_get (um_servers st'))"
    by (rule go_fold_invariant) (use assms(1) applyApp_grows udp_ok_applyApp in \<open>blast+\<close>)
  then show ?thesis ..
qed

definition absolute_call :: "handler_call \<Rightarrow> bool" where
  "absolute_call call \<longleftrightarrow>
     (case call of CallRemove aid _ None \<Rightarrow> aid \<noteq> [] \<and> hd aid = CHR ''/'' | _ \<Rightarrow> True)"

lemma udp_step_grows:
  assumes ok: "udp_ok st" and "absolute_call call"
    and s: "handler_step (udp_Apply ue env) (udp_Update ue env) (udp_Remove ue env) st call = Ret (st', err)"
  shows "dom (gm_get (um_servers st)) \<subseteq> dom (gm_get (um_servers st'))"
proof (cases call)
  case (CallApply apps)
  with s udp_Apply_grows [OF ok] show ?thesis by simp
next
  case (CallUpdate app tid)
  with s have "applyApp ue env st app = Ret st'" by (simp add: udp_Update_def go_bind_eq_Ret)
  then show ?thesis by (rule applyApp_grows [OF ok])
next
  case (CallRemove aid tid appo)
  show ?thesis
  proof (cases appo)
    case None
    with assms(2) CallRemove obtain rest where "aid = CHR ''/'' # rest"
      by (cases aid) (auto simp: absolute_call_def)
    with s None CallRemove show ?thesis by (simp add: udp_Remove_def removeApp_absent [OF ok])
  next
    case (Some app)
    with s CallRemove have "applyApp ue env st app = Ret st'"
      by (simp add: udp_Remove_def go_bind_eq_Ret)
    then show ?thesis by (rule applyApp_grows [OF ok])
  qed
qed

text \<open>
  C31. UDP frontends are never removed. Application ids start with a slash, but the names of the
  servers hold no slash, so the prefix test of \<open>removeApp\<close> never matches; and \<open>Apply\<close> does not
  drop frontends of applications that are gone. Every name that was ever in the table stays.
\<close>

theorem udp_frontends_stay:
  assumes "udp_ok st" and "\<forall>call\<in>set calls. absolute_call call"
    and "handler_run (udp_Apply ue env) (udp_Update ue env) (udp_Remove ue env) st calls = Ret st'"
  shows "dom (gm_get (um_servers st)) \<subseteq> dom (gm_get (um_servers st'))"
proof -
  have "udp_ok st' \<and> dom (gm_get (um_servers st)) \<subseteq> dom (gm_get (um_servers st'))"
    using assms(3) unfolding handler_run_def
  proof (rule go_fold_invariant)
    fix s call s'
    assume "call \<in> set calls" and s: "udp_ok s \<and> dom (gm_get (um_servers st)) \<subseteq> dom (gm_get (um_servers s))"
      and "go_bind (handler_step (udp_Apply ue env) (udp_Update ue env) (udp_Remove ue env) s call)
             (\<lambda>(s', err). Ret s') = Ret s'"
    then obtain err where
      "handler_step (udp_Apply ue env) (udp_Update ue env) (udp_Remove ue env) s call = Ret (s', err)"
      and "absolute_call call" using assms(2) by (auto simp: go_bind_eq_Ret)
    then show "udp_ok s' \<and> dom (gm_get (um_servers st)) \<subseteq> dom (gm_get (um_servers s'))"
      using s udp.step_inv udp_step_grows by blast
  qed (use assms(1) in simp)
  then show ?thesis ..
qed





text \<open>
  A UDP port that cannot be bound crashes the program: the error is logged, but the nil
  frontend is still served in a goroutine.
\<close>

theorem udp_bind_failure_panics:
  assumes "GetTransportProtocol app i = ''udp''" and "i < length (a_portDefs app)"
    and "service_name app i = Ret name" and "gm_get (um_servers st) name = None"
    and "NewFrontend ue (us_socks st) name
          (um_bindAddr st @ '':'' @ uint_str (pd_port (a_portDefs app ! i))) (frontend_sched app) =
         (Inl err, socks)"
  shows "apply_port ue env app st i = Panic NilDereference"
  using assms by (auto simp: apply_port_def GetFrontend_def service_name_def go_nth_def)

section \<open>An example\<close>

definition dns_app :: "marathon_task list \<Rightarrow> marathon_app" where
  "dns_app tasks =
     \<lparr>a_id = ''/infra/dns'', a_ports = [53],
      a_portDefs = [\<lparr>pd_port = 53, pd_protocol = ''udp'', pd_labels = []\<rparr>], a_labels = [],
      a_tasks = tasks, a_healthChecks = [], a_docker = None\<rparr>"

definition dns_task :: marathon_task where
  "dns_task = \<lparr>t_id = ''t1'', t_appId = ''/infra/dns'', t_host = ''slave1'', t_ports = [31053],
      t_slaveId = [], t_state = None, t_healthResults = []\<rparr>"

definition udp_start :: udp_state where
  "udp_start = udp_manager.extend (NewUdpManager ''0.0.0.0'' False True)
     \<lparr>us_socks = [], us_serving = []\<rparr>"

definition dns_frontend :: frontend where
  "dns_frontend =
     \<lparr>fe_name = ''infra.dns-0-53'', fe_addr = ''0.0.0.0:53'', fe_scheduler = RoundRobin,
      fe_backends = [\<lparr>be_name = ''slave1-t1'', be_addr = ''slave1:31053'', be_sent = 0, be_recv = 0,
                      be_touched = True\<rparr>],
      fe_timeout = 1000000000\<rparr>"

definition udp_serving_dns :: udp_state where
  "udp_serving_dns =
     udp_start\<lparr>um_servers := Some [(''infra.dns-0-53'', dns_frontend)], us_socks := [''0.0.0.0:53''],
               us_serving := [''0.0.0.0:53'']\<rparr>"

lemma udp_start_ok: "udp_ok udp_start"
  by (simp add: udp_ok_def udp_start_def NewUdpManager_def udp_manager.extend_def)

lemmas udp_eval = udp_start_def NewUdpManager_def udp_manager.extend_def dns_app_def dns_task_def
  GetTransportProtocol_def GetFrontend_def PrettifyAppId_def replace_ch_def NewFrontend_def
  ListenUDP_def example_udp_def gm_make_def gm_get_def gm_put_def go_nth_def frontend_sched_def
  ClearTouch_def RemoveUntouched_def add_task_def AddBackend_def NewBackend_def touch_at_def
  Touch_def backend_name_def backend_addr_def example_env_def

lemma applyApp_example: "applyApp example_udp example_env udp_start (dns_app [dns_task]) = Ret udp_serving_dns"
  by (simp add: applyApp_def apply_port_def udp_eval udp_serving_dns_def dns_frontend_def go_eval)


lemma applyApp_dead:
  "applyApp example_udp example_env udp_serving_dns (dns_app []) =
     Ret (udp_serving_dns\<lparr>um_servers := Some [(''infra.dns-0-53'', dns_frontend\<lparr>fe_backends := []\<rparr>)],
            us_serving := ''0.0.0.0:53'' # us_serving udp_serving_dns\<rparr>)"
  by (simp add: applyApp_def apply_port_def udp_eval udp_serving_dns_def dns_frontend_def go_eval)

theorem applyApp_synchronises_witness:
  "\<exists>fe. gm_get (um_servers udp_serving_dns) ''infra.dns-0-53'' = Some fe \<and>
     set (fe_names fe) = live_names example_udp example_env 0 [dns_task] {}"
proof -
  have "old_names udp_start ''infra.dns-0-53'' = {}"
    by (simp add: old_names_def udp_start_def NewUdpManager_def udp_manager.extend_def)
  moreover have "service_name (dns_app [dns_task]) 0 = Ret ''infra.dns-0-53''"
    by (simp add: service_name_def udp_eval go_eval)
  moreover have "GetTransportProtocol (dns_app [dns_task]) 0 = ''udp''" "a_ports (dns_app [dns_task]) = [53]"
    "a_tasks (dns_app [dns_task]) = [dns_task]"
    by (simp_all add: GetTransportProtocol_def dns_app_def)
  ultimately show ?thesis
    using applyApp_synchronises [OF udp_start_ok applyApp_example] by auto
qed

lemma run_example: "handler_run (udp_Apply example_udp example_env) (udp_Update example_udp example_env)
    (udp_Remove example_udp example_env) udp_start
    [CallApply [dns_app [dns_task]], CallRemove ''/infra/dns'' '''' None] = Ret udp_serving_dns"
proof -
  have "udp_ok udp_serving_dns"
    by (rule udp_ok_applyApp [OF udp_start_ok applyApp_example])
  then show ?thesis
    by (simp add: handler_run_def udp_Apply_def applyApp_example udp_Remove_def removeApp_absent)
qed

theorem udp_run_ok_witness: "udp_ok udp_serving_dns"
  by (rule udp_run_ok [OF udp_start_ok run_example])

theorem udp_frontends_stay_witness:
  "handler_run (udp_Apply example_udp example_env) (udp_Update example_udp example_env)
     (udp_Remove example_udp example_env) udp_serving_dns [CallRemove ''/infra/dns'' '''' None] =
     Ret udp_serving_dns \<and>
   ''infra.dns-0-53'' \<in> dom (gm_get (um_servers udp_serving_dns))"
proof -
  have ok: "udp_ok udp_serving_dns"
    by (rule udp_ok_applyApp [OF udp_start_ok applyApp_example])
  then have r: "handler_run (udp_Apply example_udp example_env) (udp_Update example_udp example_env)
     (udp_Remove example_udp example_env) udp_serving_dns [CallRemove ''/infra/dns'' '''' None] =
     Ret udp_serving_dns"
    by (simp add: handler_run_def udp_Remove_def removeApp_absent)
  have "''infra.dns-0-53'' \<in> dom (gm_get (um_servers udp_serving_dns))"
    by (simp add: udp_serving_dns_def gm_get_def domIff)
  with udp_frontends_stay [OF ok _ r] r show ?thesis by (auto simp: absolute_call_def)
qed


theorem udp_bind_failure_panics_witness:
  "apply_port example_udp example_env (dns_app [dns_task]) (udp_start\<lparr>us_socks := [''0.0.0.0:53'']\<rparr>) 0 =
     Panic NilDereference"
  by (rule udp_bind_failure_panics [where name = "''infra.dns-0-53''" and err = "''listen''"
        and socks = "[''0.0.0.0:53'']"])
    (simp_all add: service_name_def udp_eval go_eval)

end
