(* ===== verification/Files_Manager.thy ===== *)
theory Files_Manager
  imports Helper Handler
begin

text \<open>
  The files of service instances, src/files_manager.go. For every port of every application the
  manager keeps one text file \<open><service>.instances\<close> in its base directory, with a header that
  describes the service and one line per task. A file is written under a temporary name and
  renamed when its contents differ from the present file.

  The state of the manager is its configuration with the file system it writes to. The only
  errors of the model are those the operating system reports for a path (\<open>fs_deny\<close>); as in the
  source, the results of the renames and removals are ignored.
\<close>

record files_manager =
  fm_enabled :: bool
  fm_verbose :: bool
  fm_basePath :: string

record files_state = files_manager +
  fm_fs :: file_system

definition fm_SetEnabled :: "files_state \<Rightarrow> bool \<Rightarrow> files_state" where
  "fm_SetEnabled m b = (if b \<noteq> fm_enabled m then m\<lparr>fm_enabled := b\<rparr> else m)"

definition crlf :: string where
  "crlf = cr @ nl"

definition instance_line :: "nat \<Rightarrow> marathon_task \<Rightarrow> string" where
  "instance_line portIndex task =
     (if length (t_ports task) \<le> portIndex then []
      else t_host task @ '':'' @ uint_str (t_ports task ! portIndex) @ nl)"

definition file_text :: "string \<Rightarrow> nat \<Rightarrow> marathon_app \<Rightarrow> string go" where
  "file_text appId portIndex app =
     go_bind (go_nth (a_ports app) portIndex) (\<lambda>port.
       Ret (''Service-Name: '' @ appId @ crlf @
            ''Service-Port: '' @ uint_str port @ crlf @
            ''Service-Transport-Proto: '' @ GetTransportProtocol app portIndex @ crlf @
            ''Service-Application-Proto: '' @ GetApplicationProtocol app portIndex @ crlf @
            (if length (GetHealthCheckProtocol app portIndex) \<noteq> 0
             then ''Health-Check-Proto: '' @ GetApplicationProtocol app portIndex @ crlf else []) @
            crlf @ concat (map (instance_line portIndex) (a_tasks app))))"

definition writeFile :: "file_system \<Rightarrow> string \<Rightarrow> string \<Rightarrow> nat \<Rightarrow> marathon_app
    \<Rightarrow> (file_system \<times> go_error option) go" where
  "writeFile fs filename appId portIndex app =
     go_bind (file_text appId portIndex app) (\<lambda>b.
       let (written, fs') = fs_write fs filename b in
       Ret (fs', if written then None else Some ''write''))"

definition cfg_path :: "string \<Rightarrow> string \<Rightarrow> string" where
  "cfg_path basePath app_id = path_join basePath (app_id @ ''.instances'')"

definition tmp_path :: "string \<Rightarrow> string" where
  "tmp_path cfgfile = cfgfile @ ''.tmp''"

text \<open>Replacing the file by the temporary one, when they differ.\<close>

definition install :: "file_system \<Rightarrow> string \<Rightarrow> string \<Rightarrow> file_system" where
  "install fs tmpfile cfgfile =
     (if \<not> fs_exists fs cfgfile then snd (fs_rename fs tmpfile cfgfile)
      else if \<not> FileIsIdentical fs tmpfile cfgfile then snd (fs_rename fs tmpfile cfgfile)
      else snd (fs_remove fs tmpfile))"

fun write_ports :: "string \<Rightarrow> marathon_app \<Rightarrow> file_system \<Rightarrow> string list \<Rightarrow> nat \<Rightarrow> uint list
    \<Rightarrow> (file_system \<times> string list \<times> go_error option) go" where
  "write_ports basePath app fs files portIndex [] = Ret (fs, files, None)"
| "write_ports basePath app fs files portIndex (port # ports) =
     go_bind (PrettifyAppId (a_id app) portIndex port) (\<lambda>app_id.
       let cfgfile = cfg_path basePath app_id in
       go_bind (writeFile fs (tmp_path cfgfile) app_id portIndex app) (\<lambda>(fs', err).
         case err of
           Some e \<Rightarrow> Ret (fs', files, Some e)
         | None \<Rightarrow> write_ports basePath app (install fs' (tmp_path cfgfile) cfgfile)
                    (files @ [cfgfile]) (Suc portIndex) ports))"

definition writeApp :: "string \<Rightarrow> file_system \<Rightarrow> marathon_app
    \<Rightarrow> (file_system \<times> string list \<times> go_error option) go" where
  "writeApp basePath fs app = write_ports basePath app fs [] 0 (a_ports app)"

definition collectFiles :: "string \<Rightarrow> file_system \<Rightarrow> string list option" where
  "collectFiles basePath fs = map_option (map (path_join basePath)) (fs_readdir fs basePath)"

fun writeApps :: "string \<Rightarrow> file_system \<Rightarrow> string list \<Rightarrow> marathon_app list
    \<Rightarrow> (file_system \<times> string list) go" where
  "writeApps basePath fs newFiles [] = Ret (fs, newFiles)"
| "writeApps basePath fs newFiles (app # apps) =
     go_bind (writeApp basePath fs app) (\<lambda>(fs', filenames, err).
       writeApps basePath fs' (newFiles @ filenames) apps)"

definition remove_all :: "file_system \<Rightarrow> string list \<Rightarrow> file_system" where
  "remove_all = foldl (\<lambda>fs p. snd (fs_remove fs p))"

definition files_Apply :: "files_state \<Rightarrow> marathon_app list \<Rightarrow> files_state handler_result" where
  "files_Apply m apps =
     (case fs_mkdir (fm_fs m) (fm_basePath m) of
        (False, fs1) \<Rightarrow> Ret (m\<lparr>fm_fs := fs1\<rparr>, Some ''mkdir'')
      | (True, fs1) \<Rightarrow>
         (case collectFiles (fm_basePath m) fs1 of
            None \<Rightarrow> Ret (m\<lparr>fm_fs := fs1\<rparr>, Some ''readdir'')
          | Some oldFiles \<Rightarrow>
              go_bind (writeApps (fm_basePath m) fs1 [] apps) (\<lambda>(fs2, newFiles).
                Ret (m\<lparr>fm_fs := remove_all fs2 (FindMissing oldFiles newFiles)\<rparr>, None))))"

definition files_Update :: "files_state \<Rightarrow> marathon_app \<Rightarrow> string \<Rightarrow> files_state handler_result" where
  "files_Update m app taskID =
     go_bind (writeApp (fm_basePath m) (fm_fs m) app) (\<lambda>(fs', _, err). Ret (m\<lparr>fm_fs := fs'\<rparr>, err))"

definition files_Remove :: "files_state \<Rightarrow> string \<Rightarrow> string \<Rightarrow> marathon_app option
    \<Rightarrow> files_state handler_result" where
  "files_Remove m appID taskID appo =
     (case appo of
        Some app \<Rightarrow>
          go_bind (writeApp (fm_basePath m) (fm_fs m) app) (\<lambda>(fs', _, err). Ret (m\<lparr>fm_fs := fs'\<rparr>, err))
      | None \<Rightarrow> Ret (m, None))"

section \<open>The files of an application\<close>

text \<open>The specification: the paths and contents that belong to an application.\<close>

definition service :: "marathon_app \<Rightarrow> nat \<Rightarrow> string" where
  "service app i = replace_ch CHR ''/'' ''.'' (tl (a_id app)) @ ''-'' @ nat_str i @ ''-'' @
     uint_str (a_ports app ! i)"

definition service_header :: "marathon_app \<Rightarrow> nat \<Rightarrow> string list" where
  "service_header app i =
     [''Service-Name: '' @ service app i,
      ''Service-Port: '' @ uint_str (a_ports app ! i),
      ''Service-Transport-Proto: '' @ GetTransportProtocol app i,
      ''Service-Application-Proto: '' @ GetApplicationProtocol app i] @
     (if GetHealthCheckProtocol app i = [] then [] else [''Health-Check-Proto: '' @ GetApplicationProtocol app i])"

definition service_hosts :: "marathon_app \<Rightarrow> nat \<Rightarrow> string list" where
  "service_hosts app i =
     map (\<lambda>t. t_host t @ '':'' @ uint_str (t_ports t ! i)) (filter (\<lambda>t. i < length (t_ports t)) (a_tasks app))"

definition service_text :: "marathon_app \<Rightarrow> nat \<Rightarrow> string" where
  "service_text app i =
     concat (map (\<lambda>l. l @ crlf) (service_header app i)) @ crlf @ concat (map (\<lambda>l. l @ nl) (service_hosts app i))"

definition app_files :: "string \<Rightarrow> marathon_app \<Rightarrow> (string \<times> string) list" where
  "app_files basePath app =
     map (\<lambda>i. (cfg_path basePath (service app i), service_text app i)) [0..<length (a_ports app)]"

definition writable :: "file_system \<Rightarrow> string \<Rightarrow> bool" where
  "writable fs p \<longleftrightarrow> p \<notin> set (fs_deny fs) \<and> tmp_path p \<notin> set (fs_deny fs)"

lemma PrettifyAppId_service:
  "a_id app \<noteq> [] \<Longrightarrow> PrettifyAppId (a_id app) i (a_ports app ! i) = Ret (service app i)"
  by (simp add: PrettifyAppId_def service_def)

lemma service_hosts_lines:
  "concat (map (instance_line i) (a_tasks app)) = concat (map (\<lambda>l. l @ nl) (service_hosts app i))"
proof -
  have "concat (map (instance_line i) ts) = concat (map (\<lambda>l. l @ nl)
      (map (\<lambda>t. t_host t @ '':'' @ uint_str (t_ports t ! i)) (filter (\<lambda>t. i < length (t_ports t)) ts)))" for ts
    by (induction ts) (simp_all add: instance_line_def)
  then show ?thesis by (simp add: service_hosts_def)
qed

lemma file_text_service:
  "i < length (a_ports app) \<Longrightarrow> file_text (service app i) i app = Ret (service_text app i)"
  by (simp add: service_text_def service_header_def service_hosts_lines [symmetric] file_text_def go_nth_def)

lemma service_file_simple: "simple_name (service app i @ ''.instances'')"
  using PrettifyAppId_no_slash [of "CHR ''/'' # tl (a_id app)" i "a_ports app ! i" "service app i"]
  by (auto simp: simple_name_def PrettifyAppId_def service_def)

lemma cfg_path_in_dir: "basePath \<noteq> [] \<Longrightarrow> in_dir basePath (cfg_path basePath (service app i))"
  by (simp add: cfg_path_def in_dir_join service_file_simple)

lemma tmp_path_neq [simp]: "tmp_path p \<noteq> p"
  by (simp add: tmp_path_def)

lemma split_str_append_free:
  "c \<notin> set t \<Longrightarrow> split_str c (s @ t) = butlast (split_str c s) @ [last (split_str c s) @ t]"
  by (induction s) (auto simp: split_str_free split: list.splits)

lemma base_name_tmp: "base_name (tmp_path p) = base_name p @ ''.tmp''"
  by (simp add: base_name_def tmp_path_def split_str_append_free)

lemma tmp_not_cfg:
  assumes "basePath \<noteq> []"
  shows "tmp_path p \<noteq> cfg_path basePath (service app i)"
proof
  assume "tmp_path p = cfg_path basePath (service app i)"
  then have "base_name (tmp_path p) = service app i @ ''.instances''"
    using base_name_join [OF service_file_simple assms] by (simp add: cfg_path_def)
  then have "rev (base_name p @ ''.tmp'') = rev (service app i @ ''.instances'')"
    by (simp add: base_name_tmp)
  then show False by simp
qed

section \<open>Publishing files\<close>

text \<open>What is read after the files of a list have been published, the last one of a name winning.\<close>

definition publish :: "(string \<Rightarrow> string option) \<Rightarrow> (string \<times> string) list \<Rightarrow> string \<Rightarrow> string option" where
  "publish m L q =
     (case map_of (rev L) q of
        Some c \<Rightarrow> Some c
      | None \<Rightarrow> if q \<in> tmp_path ` fst ` set L then None else m q)"

lemma publish_Nil [simp]: "publish m [] = m"
  by (simp add: publish_def fun_eq_iff)

lemma publish_append:
  assumes "\<forall>p\<in>fst ` set (A @ B). \<forall>q\<in>fst ` set (A @ B). tmp_path p \<noteq> q"
  shows "publish (publish m A) B = publish m (A @ B)"
proof
  fix q
  show "publish (publish m A) B q = publish m (A @ B) q"
  proof (cases "q \<in> tmp_path ` fst ` set B")
    case True
    then have "q \<notin> fst ` set A" using assms by auto
    then have "map_of (rev A) q = None" by (force simp: map_of_eq_None_iff)
    with True show ?thesis by (auto simp: publish_def map_add_def split: option.split)
  next
    case False
    then show ?thesis
      by (auto simp: publish_def map_add_def image_Un split: option.split)
  qed
qed

lemma publish_one: "publish m [(p, c)] = m(tmp_path p := None, p \<mapsto> c)"
  by (auto simp: publish_def fun_eq_iff)

lemma write_install:
  assumes w: "fs_write s (tmp_path p) c = (b, s1)" and "writable s p"
  shows "b \<and> fs_read (install s1 (tmp_path p) p) = publish (fs_read s) [(p, c)] \<and>
    fs_deny (install s1 (tmp_path p) p) = fs_deny s"
proof -
  have ok: "tmp_path p \<notin> set (fs_deny s)" "p \<notin> set (fs_deny s)"
    using assms(2) by (simp_all add: writable_def)
  have d1: "fs_deny s1 = fs_deny s" by (rule fs_write_deny [OF w])
  obtain b2 s2 where mv: "fs_rename s1 (tmp_path p) p = (b2, s2)" by force
  obtain b3 s3 where rm: "fs_remove s1 (tmp_path p) = (b3, s3)" by force
  from fs.replace_atomic [OF ok tmp_path_neq w mv]
  have b: "b" and r2: "fs_read s2 = (fs_read s)(tmp_path p := None, p \<mapsto> c)" by auto
  have r3: "fs_read s3 = (fs_read s)(tmp_path p := None)" by (rule fs.write_discard [OF ok(1) w rm])
  have r1: "fs_read s1 = (fs_read s)(tmp_path p \<mapsto> c)" using fs.wr_ok [OF ok(1) w] by simp
  have same: "fs_read s p = Some c" if "FileIsIdentical s1 (tmp_path p) p"
    using that tmp_path_neq [of p, symmetric] by (auto simp: FileIsIdentical_eq r1 fun_upd_other)
  show ?thesis
    using b d1 mv rm r2 r3 same tmp_path_neq [of p] tmp_path_neq [of p, symmetric]
    by (auto simp: install_def publish_one fs_rename_deny [OF mv] fs_remove_deny [OF rm] fun_eq_iff)
qed

lemma write_ports_publishes:
  assumes "a_id app \<noteq> []" and "basePath \<noteq> []"
    and "\<forall>p\<in>fst ` set (app_files basePath app). writable s p"
    and "ports = drop i (a_ports app)" and "i \<le> length (a_ports app)"
  shows "\<exists>s'. write_ports basePath app s files i ports =
      Ret (s', files @ map fst (drop i (app_files basePath app)), None) \<and>
    fs_read s' = publish (fs_read s) (drop i (app_files basePath app)) \<and> fs_deny s' = fs_deny s"
  using assms(3-5)
proof (induction ports arbitrary: i s files)
  case Nil
  then show ?case by (simp add: app_files_def)
next
  case (Cons port ports)
  let ?p = "cfg_path basePath (service app i)" and ?c = "service_text app i"
  from Cons.prems have i: "i < length (a_ports app)" by (metis drop_all list.discI not_le)
  then have port: "port = a_ports app ! i" and rest: "ports = drop (Suc i) (a_ports app)"
    using Cons.prems(2) by (simp_all add: Cons_nth_drop_Suc [symmetric])
  have dr: "drop i (app_files basePath app) = (?p, ?c) # drop (Suc i) (app_files basePath app)"
    using i by (simp add: app_files_def Cons_nth_drop_Suc [symmetric])
  have "?p \<in> fst ` set (app_files basePath app)" using i by (force simp: app_files_def)
  then have wr: "writable s ?p" using Cons.prems(1) by blast
  obtain b s1 where w: "fs_write s (tmp_path ?p) ?c = (b, s1)" by force
  note wi = write_install [OF w wr]
  let ?s2 = "install s1 (tmp_path ?p) ?p"
  have step: "write_ports basePath app s files i (port # ports) =
      write_ports basePath app ?s2 (files @ [?p]) (Suc i) ports"
    using wi w i by (simp add: port PrettifyAppId_service [OF assms(1)] writeFile_def file_text_service Let_def)
  have "\<forall>p\<in>fst ` set (app_files basePath app). writable ?s2 p"
    using Cons.prems(1) wi by (simp add: writable_def)
  from Cons.IH [OF this rest, of "files @ [?p]"] i obtain s' where
    s': "write_ports basePath app ?s2 (files @ [?p]) (Suc i) ports =
      Ret (s', (files @ [?p]) @ map fst (drop (Suc i) (app_files basePath app)), None)"
    "fs_read s' = publish (fs_read ?s2) (drop (Suc i) (app_files basePath app))"
    "fs_deny s' = fs_deny ?s2" by auto
  have "publish (fs_read ?s2) (drop (Suc i) (app_files basePath app)) =
      publish (fs_read s) ([(?p, ?c)] @ drop (Suc i) (app_files basePath app))"
  proof -
    have "fs_read ?s2 = publish (fs_read s) [(?p, ?c)]" using wi by simp
    moreover have "\<forall>p\<in>fst ` set ([(?p, ?c)] @ drop (Suc i) (app_files basePath app)).
        \<forall>q\<in>fst ` set ([(?p, ?c)] @ drop (Suc i) (app_files basePath app)). tmp_path p \<noteq> q"
      using tmp_not_cfg [OF assms(2)] set_drop_subset [of "Suc i" "app_files basePath app"]
      by (fastforce simp: app_files_def)
    ultimately show ?thesis by (simp only: publish_append)
  qed
  with step s' wi dr show ?case by simp
qed

lemma writeApp_publishes:
  assumes "a_id app \<noteq> []" and "basePath \<noteq> []"
    and "\<forall>p\<in>fst ` set (app_files basePath app). writable s p"
  obtains s' where "writeApp basePath s app = Ret (s', map fst (app_files basePath app), None)"
    and "fs_read s' = publish (fs_read s) (app_files basePath app)" and "fs_deny s' = fs_deny s"
  using write_ports_publishes [OF assms, of "a_ports app" 0 "[]"] by (auto simp: writeApp_def)

section \<open>Apply\<close>

abbreviation all_files :: "string \<Rightarrow> marathon_app list \<Rightarrow> (string \<times> string) list" where
  "all_files basePath apps \<equiv> concat (map (app_files basePath) apps)"

lemma app_files_tmp:
  "basePath \<noteq> [] \<Longrightarrow> \<forall>p. \<forall>q\<in>fst ` set (all_files basePath apps). tmp_path p \<noteq> q"
  using tmp_not_cfg by (fastforce simp: app_files_def)

lemma writeApps_publishes:
  assumes "basePath \<noteq> []" and "\<forall>app\<in>set apps. a_id app \<noteq> []"
    and "\<forall>p\<in>fst ` set (all_files basePath apps). writable s p"
  shows "\<exists>s'. writeApps basePath s newFiles apps =
      Ret (s', newFiles @ map fst (all_files basePath apps)) \<and>
    fs_read s' = publish (fs_read s) (all_files basePath apps) \<and> fs_deny s' = fs_deny s"
  using assms(2,3)
proof (induction apps arbitrary: s newFiles)
  case (Cons app apps)
  from Cons.prems have "\<forall>p\<in>fst ` set (app_files basePath app). writable s p" by auto
  with writeApp_publishes [OF _ assms(1), of app s] Cons.prems(1) obtain s1 where
    s1: "writeApp basePath s app = Ret (s1, map fst (app_files basePath app), None)"
      "fs_read s1 = publish (fs_read s) (app_files basePath app)" "fs_deny s1 = fs_deny s" by auto
  from Cons.prems s1(3) have "\<forall>p\<in>fst ` set (all_files basePath apps). writable s1 p"
    by (auto simp: writable_def)
  from Cons.IH [OF _ this, of "newFiles @ map fst (app_files basePath app)"] Cons.prems(1) obtain s' where
    s': "writeApps basePath s1 (newFiles @ map fst (app_files basePath app)) apps =
        Ret (s', (newFiles @ map fst (app_files basePath app)) @ map fst (all_files basePath apps))"
      "fs_read s' = publish (fs_read s1) (all_files basePath apps)" "fs_deny s' = fs_deny s1" by auto
  have "publish (publish (fs_read s) (app_files basePath app)) (all_files basePath apps) =
      publish (fs_read s) (app_files basePath app @ all_files basePath apps)"
    using app_files_tmp [OF assms(1), of "app # apps"] by (intro publish_append) auto
  with s1 s' show ?case by simp
qed simp

lemma remove_all_read:
  "fs_read (remove_all s ps) = (\<lambda>q. if q \<in> set ps then None else fs_read s q)"
proof (induction ps arbitrary: s)
  case (Cons p ps)
  obtain b s1 where "fs_remove s p = (b, s1)" by force
  with Cons.IH [of s1] fs.rm_read [OF this] show ?case by (auto simp: remove_all_def fun_eq_iff)
qed (simp add: remove_all_def)

lemma set_FindMissing: "set (FindMissing xs ys) = set xs - set ys"
  by (auto simp: FindMissing_eq)

lemma fs_mkdir_ok:
  assumes "d \<notin> set (fs_deny s)"
  obtains s1 where "fs_mkdir s d = (True, s1)" and "fs_read s1 = fs_read s" and "fs_deny s1 = fs_deny s"
    and "d \<in> set (fs_dirs s1)"
  using assms by (simp add: fs_mkdir_def)

lemma collectFiles_set:
  "d \<in> set (fs_dirs s) \<Longrightarrow> \<exists>ps. collectFiles d s = Some ps \<and>
     set ps = {p. in_dir d p \<and> fs_read s p \<noteq> None}"
  using fs_readdir_paths [of s d] by (auto simp: collectFiles_def fs_readdir_def)

text \<open>The specification of the operations, on the contents of the paths.\<close>

type_synonym contents = "string \<Rightarrow> string option"

definition synchronise :: "string \<Rightarrow> contents \<Rightarrow> marathon_app list \<Rightarrow> contents" where
  "synchronise basePath D apps p =
     (case map_of (rev (all_files basePath apps)) p of
        Some text \<Rightarrow> Some text
      | None \<Rightarrow> if in_dir basePath p \<or> p \<in> tmp_path ` fst ` set (all_files basePath apps) then None else D p)"

lemma remove_all_deny: "fs_deny (remove_all s ps) = fs_deny s"
proof (induction ps arbitrary: s)
  case (Cons p ps)
  obtain b s1 where r: "fs_remove s p = (b, s1)" by force
  from Cons.IH [of s1] fs_remove_deny [OF r] r show ?case by (simp add: remove_all_def)
qed (simp add: remove_all_def)

lemma files_Apply_reads:
  assumes "fm_basePath m \<noteq> []" and "fm_basePath m \<notin> set (fs_deny (fm_fs m))"
    and "\<forall>app\<in>set apps. a_id app \<noteq> []"
    and "\<forall>p\<in>fst ` set (all_files (fm_basePath m) apps). writable (fm_fs m) p"
  shows "\<exists>m'. files_Apply m apps = Ret (m', None) \<and> fm_basePath m' = fm_basePath m \<and>
    fs_deny (fm_fs m') = fs_deny (fm_fs m) \<and>
    fs_read (fm_fs m') = synchronise (fm_basePath m) (fs_read (fm_fs m)) apps"
proof -
  let ?d = "fm_basePath m" and ?L = "all_files (fm_basePath m) apps"
  obtain s1 where mk: "fs_mkdir (fm_fs m) ?d = (True, s1)" "fs_read s1 = fs_read (fm_fs m)"
    "fs_deny s1 = fs_deny (fm_fs m)" "?d \<in> set (fs_dirs s1)" using fs_mkdir_ok [OF assms(2)] by blast
  from collectFiles_set [OF mk(4)] obtain old where
    old: "collectFiles ?d s1 = Some old" "set old = {p. in_dir ?d p \<and> fs_read s1 p \<noteq> None}" by blast
  have "\<forall>p\<in>fst ` set ?L. writable s1 p" using assms(4) mk(3) by (simp add: writable_def)
  from writeApps_publishes [OF assms(1,3) this, of "[]"] obtain s2 where
    s2: "writeApps ?d s1 [] apps = Ret (s2, map fst ?L)" "fs_read s2 = publish (fs_read s1) ?L"
    "fs_deny s2 = fs_deny s1" by auto
  let ?m' = "m\<lparr>fm_fs := remove_all s2 (FindMissing old (map fst ?L))\<rparr>"
  have a: "files_Apply m apps = Ret (?m', None)"
    using mk(1) old(1) s2(1) by (simp add: files_Apply_def)
  have "fs_read (fm_fs ?m') p = (case map_of (rev ?L) p of Some text \<Rightarrow> Some text
      | None \<Rightarrow> if in_dir ?d p \<or> p \<in> tmp_path ` fst ` set ?L then None else fs_read (fm_fs m) p)" for p
  proof (cases "map_of (rev ?L) p")
    case None
    then have "p \<notin> fst ` set ?L" by (simp add: map_of_eq_None_iff)
    with None show ?thesis
      by (auto simp: remove_all_read set_FindMissing old(2) s2(2) publish_def mk(2))
  next
    case (Some c)
    then have "p \<in> fst ` set ?L" by (force dest: map_of_SomeD)
    with Some show ?thesis
      by (auto simp: remove_all_read set_FindMissing s2(2) publish_def)
  qed
  then have "fs_read (fm_fs ?m') = synchronise ?d (fs_read (fm_fs m)) apps"
    by (simp add: fun_eq_iff synchronise_def)
  with a mk(3) s2(3) show ?thesis by (intro exI [of _ ?m']) (simp add: remove_all_deny)
qed

text \<open>
  C7. After a successful \<open>Apply\<close> the base directory holds exactly the instance files of the
  given applications, one for each port: the file \<open><application>-<index>-<port>.instances\<close>, whose
  text is a header of the service's name, port and protocols and then one line \<open>host:port\<close> for
  each task that has the port, in the order of the tasks (\<open>app_files\<close>, \<open>service_header\<close>,
  \<open>service_hosts\<close>). Everything else that was in the directory is gone, no temporary file is left,
  and files elsewhere are as before. Where two services have the same name the last one's text
  stays. The name and the value of \<open>Health-Check-Proto\<close> are the code's own and not those of the
  README: see \<open>file_departs_from_readme\<close>.
\<close>

theorem files_Apply_synchronises:
  assumes "fm_basePath m \<noteq> []" and "fm_basePath m \<notin> set (fs_deny (fm_fs m))"
    and "\<forall>app\<in>set apps. a_id app \<noteq> []"
    and "\<forall>p\<in>fst ` set (all_files (fm_basePath m) apps). writable (fm_fs m) p"
  shows "\<exists>m'. files_Apply m apps = Ret (m', None) \<and> fm_basePath m' = fm_basePath m \<and>
    (\<forall>p. fs_read (fm_fs m') p =
       (case map_of (rev (all_files (fm_basePath m) apps)) p of
          Some text \<Rightarrow> Some text
        | None \<Rightarrow> if in_dir (fm_basePath m) p \<or> p \<in> tmp_path ` fst ` set (all_files (fm_basePath m) apps)
                  then None else fs_read (fm_fs m) p))"
  using files_Apply_reads [OF assms] by (auto simp: synchronise_def)

section \<open>A file that cannot be written\<close>

lemma install_other:
  assumes "q \<noteq> tmp" and "q \<noteq> p"
  shows "fs_read (install s tmp p) q = fs_read s q \<and> fs_deny (install s tmp p) = fs_deny s"
proof -
  obtain b2 s2 where mv: "fs_rename s tmp p = (b2, s2)" by force
  obtain b3 s3 where rm: "fs_remove s tmp = (b3, s3)" by force
  have "fs_read s2 q = fs_read s q"
  proof (cases "fs_read s tmp = None \<or> p \<in> set (fs_deny s)")
    case True
    from fs.mv_fail [OF this] mv show ?thesis by simp
  next
    case False
    then obtain c where "fs_read s tmp = Some c" "p \<notin> set (fs_deny s)"
      by (cases "fs_read s tmp") auto
    from fs.mv_ok [OF this mv] assms show ?thesis by simp
  qed
  moreover have "fs_read s3 q = fs_read s q" using fs.rm_read [OF rm] assms by simp
  ultimately show ?thesis
    using mv rm by (simp add: install_def fs_rename_deny [OF mv] fs_remove_deny [OF rm])
qed

lemma service_inj: "service app i = service app j \<Longrightarrow> i = j"
  using PrettifyAppId_index [of "CHR ''/'' # tl (a_id app)" i "a_ports app ! i" "service app i"
      "CHR ''/'' # tl (a_id app)" j "a_ports app ! j"]
  by (simp add: PrettifyAppId_def service_def)

lemma cfg_path_inj:
  "basePath \<noteq> [] \<Longrightarrow> cfg_path basePath (service app i) = cfg_path basePath (service app j) \<longleftrightarrow> i = j"
  using path_join_inj [OF service_file_simple service_file_simple] service_inj
  by (fastforce simp: cfg_path_def)

lemma write_ports_fails:
  assumes "a_id app \<noteq> []" and "basePath \<noteq> []" and "i < length (a_ports app)"
    and "tmp_path (cfg_path basePath (service app i)) \<in> set (fs_deny s)"
    and "ports = drop k (a_ports app)" and "k \<le> i"
  shows "\<exists>s' files'. write_ports basePath app s files k ports = Ret (s', files', Some ''write'') \<and>
    set files' \<subseteq> set files \<union> (\<lambda>j. cfg_path basePath (service app j)) ` {k..<i} \<and>
    (\<forall>j\<ge>i. fs_read s' (cfg_path basePath (service app j)) = fs_read s (cfg_path basePath (service app j)))"
  using assms(4-)
proof (induction ports arbitrary: k s files)
  case Nil
  with assms(3) show ?case by simp
next
  case (Cons port ports)
  let ?cfg = "\<lambda>j. cfg_path basePath (service app j)"
  from Cons.prems assms(3) have k: "k < length (a_ports app)" by simp
  then have port: "port = a_ports app ! k" and rest: "ports = drop (Suc k) (a_ports app)"
    using Cons.prems(2) by (simp_all add: Cons_nth_drop_Suc [symmetric])
  obtain b s1 where w: "fs_write s (tmp_path (?cfg k)) (service_text app k) = (b, s1)" by force
  note eval = port PrettifyAppId_service [OF assms(1)] writeFile_def file_text_service [OF k] w Let_def
  show ?case
  proof (cases "tmp_path (?cfg k) \<in> set (fs_deny s)")
    case True
    with fs.wr_fail [OF True, of "service_text app k"] w show ?thesis by (auto simp: eval)
  next
    case False
    with Cons.prems have "k \<noteq> i" by auto
    with Cons.prems have ki: "Suc k \<le> i" by simp
    have b: "b" and r1: "fs_read s1 = (fs_read s)(tmp_path (?cfg k) \<mapsto> service_text app k)"
      using fs.wr_ok [OF False w] by auto
    let ?s2 = "install s1 (tmp_path (?cfg k)) (?cfg k)"
    have keep: "fs_read ?s2 (?cfg j) = fs_read s (?cfg j) \<and> fs_deny ?s2 = fs_deny s" if "j \<ge> i" for j
      using install_other [of "?cfg j" "tmp_path (?cfg k)" "?cfg k" s1] tmp_not_cfg [OF assms(2)]
        cfg_path_inj [OF assms(2), of app j k] that ki fs_write_deny [OF w]
      by (auto simp: r1 fun_upd_other tmp_not_cfg [OF assms(2), symmetric])
    from keep [of i] have "tmp_path (?cfg i) \<in> set (fs_deny ?s2)" using Cons.prems(1) by simp
    from Cons.IH [OF this rest ki, of "files @ [?cfg k]"] obtain s' files' where
      s': "write_ports basePath app ?s2 (files @ [?cfg k]) (Suc k) ports = Ret (s', files', Some ''write'')"
      "set files' \<subseteq> set (files @ [?cfg k]) \<union> ?cfg ` {Suc k..<i}"
      "\<forall>j\<ge>i. fs_read s' (?cfg j) = fs_read ?s2 (?cfg j)" by blast
    have "write_ports basePath app s files k (port # ports) = Ret (s', files', Some ''write'')"
      using s'(1) b by (simp add: eval)
    moreover have "set files' \<subseteq> set files \<union> ?cfg ` {k..<i}" using s'(2) ki by auto
    moreover have "\<forall>j\<ge>i. fs_read s' (?cfg j) = fs_read s (?cfg j)" using s'(3) keep by simp
    ultimately show ?thesis by blast
  qed
qed

text \<open>
  C33. A failed write loses data and is not reported: if the temporary file of one port cannot be
  written, \<open>Apply\<close> returns no error and removes the present files of that port and of all later
  ports of the application as superfluous.
\<close>

theorem files_Apply_write_failure:
  assumes "fm_basePath m \<noteq> []" and "fm_basePath m \<notin> set (fs_deny (fm_fs m))" and "a_id app \<noteq> []"
    and "i < length (a_ports app)"
    and "tmp_path (cfg_path (fm_basePath m) (service app i)) \<in> set (fs_deny (fm_fs m))"
  shows "\<exists>m'. files_Apply m [app] = Ret (m', None) \<and>
    (\<forall>j\<ge>i. fs_read (fm_fs m') (cfg_path (fm_basePath m) (service app j)) = None)"
proof -
  let ?d = "fm_basePath m" and ?cfg = "\<lambda>j. cfg_path (fm_basePath m) (service app j)"
  obtain s1 where mk: "fs_mkdir (fm_fs m) ?d = (True, s1)" "fs_deny s1 = fs_deny (fm_fs m)"
    "?d \<in> set (fs_dirs s1)" using fs_mkdir_ok [OF assms(2)] by blast
  from collectFiles_set [OF mk(3)] obtain old where
    old: "collectFiles ?d s1 = Some old" "set old = {p. in_dir ?d p \<and> fs_read s1 p \<noteq> None}" by blast
  from assms(5) mk(2) have "tmp_path (?cfg i) \<in> set (fs_deny s1)" by simp
  from write_ports_fails [OF assms(3,1,4) this, of "a_ports app" 0 "[]"] obtain s2 files' where
    s2: "writeApp ?d s1 app = Ret (s2, files', Some ''write'')" "set files' \<subseteq> ?cfg ` {0..<i}"
    "\<forall>j\<ge>i. fs_read s2 (?cfg j) = fs_read s1 (?cfg j)" by (auto simp: writeApp_def)
  let ?m' = "m\<lparr>fm_fs := remove_all s2 (FindMissing old files')\<rparr>"
  have "files_Apply m [app] = Ret (?m', None)"
    using mk(1) old(1) s2(1) by (simp add: files_Apply_def)
  moreover have "fs_read (fm_fs ?m') (?cfg j) = None" if "j \<ge> i" for j
  proof -
    have "?cfg j \<notin> set files'" using s2(2) that by (auto simp: cfg_path_inj [OF assms(1)])
    with s2(3) that old(2) cfg_path_in_dir [OF assms(1)] show ?thesis
      by (auto simp: remove_all_read set_FindMissing)
  qed
  ultimately show ?thesis by blast
qed

section \<open>Update and Remove\<close>

text \<open>
  An update of an application writes exactly its own instance files; every other path keeps
  its contents, so a file of a port that the application no longer has stays, as do the files of
  an application that was destroyed.
\<close>

theorem files_Update_frame:
  assumes "fm_basePath m \<noteq> []" and "a_id app \<noteq> []"
    and "\<forall>p\<in>fst ` set (app_files (fm_basePath m) app). writable (fm_fs m) p"
  shows "\<exists>m'. files_Update m app tid = Ret (m', None) \<and>
    files_Remove m aid tid (Some app) = Ret (m', None) \<and> files_Remove m aid tid None = Ret (m, None) \<and>
    (\<forall>i<length (a_ports app).
       fs_read (fm_fs m') (cfg_path (fm_basePath m) (service app i)) = Some (service_text app i)) \<and>
    (\<forall>p. p \<notin> fst ` set (app_files (fm_basePath m) app) \<longrightarrow>
       p \<notin> tmp_path ` fst ` set (app_files (fm_basePath m) app) \<longrightarrow>
       fs_read (fm_fs m') p = fs_read (fm_fs m) p)"
proof -
  let ?d = "fm_basePath m"
  from writeApp_publishes [OF assms(2,1,3)] obtain s' where
    s': "writeApp ?d (fm_fs m) app = Ret (s', map fst (app_files ?d app), None)"
    "fs_read s' = publish (fs_read (fm_fs m)) (app_files ?d app)" by blast
  have dist: "distinct (map fst (rev (app_files ?d app)))"
    using cfg_path_inj [OF assms(1)]
    by (simp add: app_files_def rev_map [symmetric] comp_def distinct_map inj_on_def)
  have "map_of (rev (app_files ?d app)) (cfg_path ?d (service app i)) = Some (service_text app i)"
    if "i < length (a_ports app)" for i
    using that by (intro map_of_is_SomeI [OF dist]) (auto simp: app_files_def)
  then have "\<forall>i<length (a_ports app).
      fs_read s' (cfg_path ?d (service app i)) = Some (service_text app i)"
    by (simp add: s'(2) publish_def)
  moreover have "fs_read s' p = fs_read (fm_fs m) p"
    if "p \<notin> fst ` set (app_files ?d app)" "p \<notin> tmp_path ` fst ` set (app_files ?d app)" for p
  proof -
    have "map_of (rev (app_files ?d app)) p = None" using that(1) by (simp add: map_of_eq_None_iff)
    with that(2) show ?thesis by (simp add: s'(2) publish_def)
  qed
  ultimately show ?thesis
    using s'(1) by (intro exI [of _ "m\<lparr>fm_fs := s'\<rparr>"]) (simp add: files_Update_def files_Remove_def)
qed

section \<open>The handler contract\<close>

lemma install_ok: "fs_ok s \<Longrightarrow> fs_ok (install s tmp p)"
  unfolding install_def
  by (cases "fs_rename s tmp p"; cases "fs_remove s tmp")
    (auto dest: fs_ok_rename fs_ok_remove)

lemma writeFile_ok:
  assumes "fs_ok s" and "writeFile s f aid i app = Ret (s', err)"
  shows "fs_ok s'"
proof -
  from assms(2) obtain c where c: "file_text aid i app = Ret c" by (auto simp: writeFile_def go_bind_eq_Ret)
  obtain b s1 where w: "fs_write s f c = (b, s1)" by force
  with fs_ok_write [OF assms(1) w] assms(2) c show ?thesis by (simp add: writeFile_def)
qed

lemma write_ports_ok:
  "fs_ok s \<Longrightarrow> write_ports d app s files i ports = Ret (s', files', err) \<Longrightarrow> fs_ok s'"
proof (induction ports arbitrary: s files i)
  case (Cons port ports)
  from Cons.prems(2) obtain aid s1 e where 1: "writeFile s (tmp_path (cfg_path d aid)) aid i app = Ret (s1, e)"
    and 2: "(case e of Some e \<Rightarrow> Ret (s1, files, Some e)
      | None \<Rightarrow> write_ports d app (install s1 (tmp_path (cfg_path d aid)) (cfg_path d aid))
          (files @ [cfg_path d aid]) (Suc i) ports) = Ret (s', files', err)"
    by (auto simp: go_bind_eq_Ret Let_def)
  have "fs_ok s1" by (rule writeFile_ok [OF Cons.prems(1) 1])
  with 2 Cons.IH [OF install_ok] show ?case by (cases e) auto
qed simp

lemma writeApps_ok:
  "fs_ok s \<Longrightarrow> writeApps d s files apps = Ret (s', files') \<Longrightarrow> fs_ok s'"
  by (induction apps arbitrary: s files)
    (auto simp: go_bind_eq_Ret writeApp_def dest: write_ports_ok)

lemma remove_all_ok: "fs_ok s \<Longrightarrow> fs_ok (remove_all s ps)"
proof (induction ps arbitrary: s)
  case (Cons p ps)
  obtain b s1 where "fs_remove s p = (b, s1)" by force
  with Cons fs_ok_remove [OF Cons.prems this] show ?case by (simp add: remove_all_def)
qed (simp add: remove_all_def)

definition files_ok :: "files_state \<Rightarrow> bool" where
  "files_ok m = fs_ok (fm_fs m)"

interpretation files: mmsd_handler files_Apply files_Update files_Remove files_ok
proof unfold_locales
  fix m m' :: files_state and apps app tid aid appo and err :: "go_error option"
  show "files_ok m \<Longrightarrow> files_Apply m apps = Ret (m', err) \<Longrightarrow> files_ok m'"
    by (auto simp: files_ok_def files_Apply_def fs_mkdir_def go_bind_eq_Ret fs_ok_def [of "_\<lparr>fs_dirs := _\<rparr>"]
        split: if_splits option.splits
        intro!: remove_all_ok elim!: writeApps_ok [rotated]) (simp_all add: fs_ok_def)
  show "files_ok m \<Longrightarrow> files_Update m app tid = Ret (m', err) \<Longrightarrow> files_ok m'"
    by (auto simp: files_ok_def files_Update_def go_bind_eq_Ret writeApp_def dest: write_ports_ok)
  show "files_ok m \<Longrightarrow> files_Remove m aid tid appo = Ret (m', err) \<Longrightarrow> files_ok m'"
    by (auto simp: files_ok_def files_Remove_def go_bind_eq_Ret writeApp_def split: option.splits
        dest: write_ports_ok)
qed

section \<open>An example\<close>

definition shop_task :: "string \<Rightarrow> string \<Rightarrow> uint list \<Rightarrow> marathon_task" where
  "shop_task tid host ports = \<lparr>t_id = tid, t_appId = ''/shop'', t_host = host, t_ports = ports,
     t_slaveId = [], t_state = Some TaskRunning, t_healthResults = []\<rparr>"

definition shop_app :: "marathon_task list \<Rightarrow> marathon_app" where
  "shop_app tasks = \<lparr>a_id = ''/shop'', a_ports = [8080],
     a_portDefs = [\<lparr>pd_port = 8080, pd_protocol = ''tcp'', pd_labels = []\<rparr>],
     a_labels = [(''proto'', ''redis'')], a_tasks = tasks,
     a_healthChecks = [\<lparr>hc_path = ''/'', hc_protocol = ''HTTP'', hc_portIndex = 0, hc_interval = 10\<rparr>],
     a_docker = None\<rparr>"

abbreviation one_shop :: marathon_app where
  "one_shop \<equiv> shop_app [shop_task ''t1'' ''slave1'' [31080], shop_task ''t2'' ''slave2'' []]"

definition files_start :: "(string \<times> string) list \<Rightarrow> string list \<Rightarrow> files_state" where
  "files_start fs deny = \<lparr>fm_enabled = True, fm_verbose = False, fm_basePath = ''run'',
     fm_fs = \<lparr>fs_files = fs, fs_dirs = [], fs_deny = deny\<rparr>\<rparr>"

abbreviation shop_cfg :: string where
  "shop_cfg \<equiv> cfg_path ''run'' (service one_shop 0)"

lemma shop_files: "app_files ''run'' one_shop = [(shop_cfg, service_text one_shop 0)]"
  by (simp add: app_files_def shop_app_def)

text \<open>The health check of this service is HTTP, but the file says Redis, the protocol of its label.\<close>

lemma shop_text: "service_text one_shop 0 =
    ''Service-Name: shop-0-8080'' @ crlf @ ''Service-Port: 8080'' @ crlf @
    ''Service-Transport-Proto: tcp'' @ crlf @ ''Service-Application-Proto: redis'' @ crlf @
    ''Health-Check-Proto: redis'' @ crlf @ crlf @ ''slave1:31080'' @ nl"
  by (simp add: service_text_def service_header_def service_hosts_def service_def shop_app_def shop_task_def
      GetTransportProtocol_def GetApplicationProtocol_def GetHealthCheckProtocol_def to_lower_def lower_ch_def
      label_def replace_ch_def uint_str_def go_eval)

text \<open>
  Two points where the files differ from the README. The README names the file of
  \<open>/developer/trapni/php\<close> \<open>developer.trapni.php.instances\<close>; the code appends the index and the
  number of the port. The README gives \<open>Health-Check-Proto\<close> the values \<open>tcp\<close> and \<open>http\<close>; the code
  prints the application protocol there, for every application whose port has a health check: for
  a Redis service that is checked over HTTP, \<open>redis\<close>.
\<close>

lemma health_check_header:
  assumes "GetHealthCheckProtocol app i \<noteq> []"
  shows "last (service_header app i) = ''Health-Check-Proto: '' @ GetApplicationProtocol app i"
  using assms by (simp add: service_header_def)

theorem file_departs_from_readme:
  "service \<lparr>a_id = ''/developer/trapni/php'', a_ports = [80], a_portDefs = [], a_labels = [], a_tasks = [],
     a_healthChecks = [], a_docker = None\<rparr> 0 = ''developer.trapni.php-0-80'' \<and>
   GetHealthCheckProtocol one_shop 0 = ''http'' \<and>
   last (service_header one_shop 0) = ''Health-Check-Proto: redis''"
  using health_check_header [of one_shop 0]
  by (simp add: service_def shop_app_def GetApplicationProtocol_def GetHealthCheckProtocol_def
      to_lower_def lower_ch_def label_def replace_ch_def uint_str_def go_eval char_of_def bit_iff_odd)

lemma run_not_tmp: "''run'' \<noteq> tmp_path p"
proof
  assume "''run'' = tmp_path p"
  then have "rev ''run'' = rev (tmp_path p)" by simp
  then show False by (simp add: tmp_path_def)
qed

theorem files_Apply_synchronises_witness:
  "\<exists>m'. files_Apply (files_start [(''run/old.instances'', ''x'')] []) [one_shop] = Ret (m', None) \<and>
     fs_read (fm_fs m') shop_cfg = Some (service_text one_shop 0)"
proof -
  let ?m = "files_start [(''run/old.instances'', ''x'')] []"
  have m: "fm_basePath ?m = ''run''" "fs_deny (fm_fs ?m) = []" by (simp_all add: files_start_def)
  have h: "fm_basePath ?m \<noteq> []" "fm_basePath ?m \<notin> set (fs_deny (fm_fs ?m))"
    "\<forall>app\<in>set [one_shop]. a_id app \<noteq> []"
    "\<forall>p\<in>fst ` set (all_files (fm_basePath ?m) [one_shop]). writable (fm_fs ?m) p"
    by (simp_all add: m writable_def) (simp add: shop_app_def)
  from files_Apply_synchronises [OF h] obtain m' where
    a: "files_Apply ?m [one_shop] = Ret (m', None)" and
    r: "\<forall>p. fs_read (fm_fs m') p =
       (case map_of (rev (all_files (fm_basePath ?m) [one_shop])) p of Some text \<Rightarrow> Some text
        | None \<Rightarrow> if in_dir (fm_basePath ?m) p \<or> p \<in> tmp_path ` fst ` set (all_files (fm_basePath ?m) [one_shop])
                  then None else fs_read (fm_fs ?m) p)" by blast
  from r [THEN spec, of shop_cfg] have "fs_read (fm_fs m') shop_cfg = Some (service_text one_shop 0)"
    by (simp add: m shop_files)
  with a show ?thesis by blast
qed

theorem files_Apply_write_failure_witness:
  "\<exists>m'. files_Apply (files_start [(shop_cfg, ''x'')] [tmp_path shop_cfg]) [one_shop] = Ret (m', None) \<and>
     fs_read (fm_fs m') shop_cfg = None"
proof -
  let ?m = "files_start [(shop_cfg, ''x'')] [tmp_path shop_cfg]"
  have m: "fm_basePath ?m = ''run''" "fs_deny (fm_fs ?m) = [tmp_path shop_cfg]"
    by (simp_all add: files_start_def)
  have a: "a_id one_shop \<noteq> []" "0 < length (a_ports one_shop)" by (simp_all add: shop_app_def)
  from files_Apply_write_failure [of ?m one_shop 0, OF _ _ a] show ?thesis
    by (auto simp: m run_not_tmp)
qed

theorem files_Update_frame_witness:
  "\<exists>m'. files_Update (files_start [(''other'', ''x'')] []) one_shop ''t1'' = Ret (m', None) \<and>
     fs_read (fm_fs m') shop_cfg = Some (service_text one_shop 0) \<and>
     fs_read (fm_fs m') ''other'' = Some ''x''"
proof -
  let ?m = "files_start [(''other'', ''x'')] []"
  have m: "fm_basePath ?m = ''run''" "fs_deny (fm_fs ?m) = []" "fs_read (fm_fs ?m) ''other'' = Some ''x''"
    by (simp_all add: files_start_def fs_read_def)
  have n: "''other'' \<noteq> shop_cfg" "''other'' \<noteq> tmp_path shop_cfg"
  proof -
    have "base_name ''other'' = ''other''" by (simp add: base_name_def)
    moreover have "base_name shop_cfg = service one_shop 0 @ ''.instances''"
      using base_name_join [OF service_file_simple] by (simp add: cfg_path_def)
    moreover have "rev (service one_shop 0 @ ''.instances'') \<noteq> rev ''other''"
      "rev (tmp_path shop_cfg) \<noteq> rev ''other''" by (simp_all add: tmp_path_def)
    ultimately show "''other'' \<noteq> shop_cfg" "''other'' \<noteq> tmp_path shop_cfg" by metis+
  qed
  have a: "a_id one_shop \<noteq> []" "0 < length (a_ports one_shop)" by (simp_all add: shop_app_def)
  have w: "\<forall>p\<in>fst ` set (app_files (fm_basePath ?m) one_shop). writable (fm_fs ?m) p"
    by (simp add: m writable_def)
  have b: "fm_basePath ?m \<noteq> []" by (simp add: m)
  from files_Update_frame [OF b a(1) w, of "''t1''" "[]"] obtain m' where
    u: "files_Update ?m one_shop ''t1'' = Ret (m', None)" and
    c: "\<forall>i<length (a_ports one_shop). fs_read (fm_fs m') (cfg_path (fm_basePath ?m) (service one_shop i)) =
          Some (service_text one_shop i)" and
    o: "\<forall>p. p \<notin> fst ` set (app_files (fm_basePath ?m) one_shop) \<longrightarrow>
       p \<notin> tmp_path ` fst ` set (app_files (fm_basePath ?m) one_shop) \<longrightarrow>
       fs_read (fm_fs m') p = fs_read (fm_fs ?m) p" by blast
  from c a(2) have "fs_read (fm_fs m') shop_cfg = Some (service_text one_shop 0)" by (simp add: m)
  moreover from o n have "fs_read (fm_fs m') ''other'' = Some ''x''" by (simp add: m shop_files)
  ultimately show ?thesis using u by blast
qed

section \<open>Every sequence of calls\<close>

primrec files_call :: "string \<Rightarrow> contents \<Rightarrow> handler_call \<Rightarrow> contents" where
  "files_call basePath D (CallApply apps) = synchronise basePath D apps"
| "files_call basePath D (CallUpdate app taskID) = publish D (app_files basePath app)"
| "files_call basePath D (CallRemove appID taskID appo) =
     (case appo of Some app \<Rightarrow> publish D (app_files basePath app) | None \<Rightarrow> D)"

definition apps_writable :: "files_state \<Rightarrow> marathon_app list \<Rightarrow> bool" where
  "apps_writable m apps \<longleftrightarrow> (\<forall>app\<in>set apps. a_id app \<noteq> [] \<and>
     (\<forall>p\<in>fst ` set (app_files (fm_basePath m) app). writable (fm_fs m) p))"

lemma files_Update_reads:
  assumes "fm_basePath m \<noteq> []" and "apps_writable m [app]"
  shows "\<exists>m'. files_Update m app tid = Ret (m', None) \<and> files_Remove m aid tid (Some app) = Ret (m', None) \<and>
    fm_basePath m' = fm_basePath m \<and> fs_deny (fm_fs m') = fs_deny (fm_fs m) \<and>
    fs_read (fm_fs m') = publish (fs_read (fm_fs m)) (app_files (fm_basePath m) app)"
proof -
  from assms(2) have "a_id app \<noteq> []" "\<forall>p\<in>fst ` set (app_files (fm_basePath m) app). writable (fm_fs m) p"
    by (simp_all add: apps_writable_def)
  from writeApp_publishes [OF this(1) assms(1) this(2)] obtain s' where
    "writeApp (fm_basePath m) (fm_fs m) app = Ret (s', map fst (app_files (fm_basePath m) app), None)"
    "fs_read s' = publish (fs_read (fm_fs m)) (app_files (fm_basePath m) app)" "fs_deny s' = fs_deny (fm_fs m)" .
  then show ?thesis by (intro exI [of _ "m\<lparr>fm_fs := s'\<rparr>"]) (simp add: files_Update_def files_Remove_def)
qed

lemma files_step_reads:
  assumes "fm_basePath m \<noteq> []" and "fm_basePath m \<notin> set (fs_deny (fm_fs m))" and "apps_writable m (call_apps call)"
  shows "\<exists>m'. handler_step files_Apply files_Update files_Remove m call = Ret (m', None) \<and>
    fm_basePath m' = fm_basePath m \<and> fs_deny (fm_fs m') = fs_deny (fm_fs m) \<and>
    fs_read (fm_fs m') = files_call (fm_basePath m) (fs_read (fm_fs m)) call"
proof (cases call)
  case (CallApply apps)
  with assms(3) have "\<forall>app\<in>set apps. a_id app \<noteq> []"
    "\<forall>p\<in>fst ` set (all_files (fm_basePath m) apps). writable (fm_fs m) p" by (auto simp: apps_writable_def)
  from files_Apply_reads [OF assms(1,2) this] CallApply show ?thesis by simp
next
  case (CallUpdate app tid)
  with assms(3) files_Update_reads [OF assms(1), of app tid] show ?thesis by auto
next
  case (CallRemove aid tid appo)
  show ?thesis
  proof (cases appo)
    case None
    with CallRemove show ?thesis by (simp add: files_Remove_def)
  next
    case (Some app)
    with CallRemove assms(3) files_Update_reads [OF assms(1), of app tid aid] show ?thesis by auto
  qed
qed

text \<open>
  C34. The files over any sequence of calls: where the operating system refuses none of the paths,
  no call fails, and every path of the file system then has the contents that the specification of
  the same calls gives it. An update or a removal with an application publishes that application's
  own files and leaves every other path alone (also the files of ports it no longer has), the
  removal of a destroyed application changes nothing, and only an apply removes files. The names
  and the texts of the files are those of the code, which differ from the README in the two points
  of \<open>file_departs_from_readme\<close>.
\<close>

theorem files_run_publishes:
  assumes "fm_basePath m \<noteq> []" and "fm_basePath m \<notin> set (fs_deny (fm_fs m))"
    and "\<forall>call\<in>set calls. apps_writable m (call_apps call)"
  shows "\<exists>m'. handler_run files_Apply files_Update files_Remove m calls = Ret m' \<and>
    fs_read (fm_fs m') = foldl (files_call (fm_basePath m)) (fs_read (fm_fs m)) calls"
  using assms
proof (induction calls arbitrary: m)
  case (Cons call calls)
  then have "apps_writable m (call_apps call)" by simp
  from files_step_reads [OF Cons.prems(1,2) this] obtain m1 where
    m1: "handler_step files_Apply files_Update files_Remove m call = Ret (m1, None)"
    "fm_basePath m1 = fm_basePath m" "fs_deny (fm_fs m1) = fs_deny (fm_fs m)"
    "fs_read (fm_fs m1) = files_call (fm_basePath m) (fs_read (fm_fs m)) call" by blast
  from Cons.prems m1(2,3) have "\<forall>call\<in>set calls. apps_writable m1 (call_apps call)"
    by (simp add: apps_writable_def writable_def)
  with Cons.IH [of m1] Cons.prems m1 show ?case by (simp add: handler_run_def)
qed (simp add: handler_run_def)

theorem files_run_publishes_witness:
  "\<exists>m'. handler_run files_Apply files_Update files_Remove (files_start [(shop_cfg, ''x'')] [])
      [CallApply [], CallUpdate one_shop ''t1'', CallRemove ''/shop'' ''t1'' None] = Ret m' \<and>
    fs_read (fm_fs m') shop_cfg = Some (service_text one_shop 0)"
proof -
  let ?m = "files_start [(shop_cfg, ''x'')] []"
  let ?calls = "[CallApply [], CallUpdate one_shop ''t1'', CallRemove ''/shop'' ''t1'' None]"
  have m: "fm_basePath ?m = ''run''" "fs_deny (fm_fs ?m) = []" by (simp_all add: files_start_def)
  have "\<forall>call\<in>set ?calls. apps_writable ?m (call_apps call)"
    by (simp add: apps_writable_def writable_def m) (simp add: shop_app_def)
  from files_run_publishes [OF _ _ this] obtain m' where
    "handler_run files_Apply files_Update files_Remove ?m ?calls = Ret m'"
    "fs_read (fm_fs m') = foldl (files_call ''run'') (fs_read (fm_fs ?m)) ?calls" by (auto simp: m)
  then show ?thesis by (simp add: shop_files publish_one)
qed

end
