(* ===== verification/Haproxy_Config.thy ===== *)
theory Haproxy_Config
  imports Helper Sorted_Lists
begin

text \<open>
  The generation of the HAProxy configuration, the pure half of src/haproxy_manager.go: the state
  of the manager, the fragment of one application (\<open>makeConfig\<close>, \<open>makeConfigForPort\<close>), the head
  with the gateways (\<open>makeGatewayHTTP\<close>, \<open>makeGatewayHTTPS\<close>) and the tail.

  The strings are the texts the program writes, byte by byte. Rendering a port sorts the task list
  of the application in place, and the application is shared with the caller, so it is part of the
  result. The five maps of the manager are nil until \<open>Apply\<close> or \<open>makeConfig\<close> makes them. The
  task cache holds pointers, so its entries are references into a list of cells.
\<close>

type_synonym task_ref = nat

record haproxy_mgr =
  hm_Enabled :: bool
  hm_Verbose :: bool
  hm_LocalHealthChecks :: bool
  hm_FilterGroups :: "string list"
  hm_Address :: string
  hm_GatewayEnabled :: bool
  hm_GatewayAddr :: string
  hm_GatewayPortHTTP :: uint
  hm_GatewayPortHTTPS :: uint
  hm_Executable :: string
  hm_ConfigPath :: string
  hm_ConfigTailPath :: string
  hm_OldConfigPath :: string
  hm_PidFile :: string
  hm_ManagementPort :: uint
  hm_ReloadInterval :: int
  hm_AdminSockPath :: string
  hm_SyslogFacility :: string
  hm_BeforeCmd :: string
  hm_AfterCmd :: string
  hm_ReuseSocketPath :: string
  hm_EnableReuseSocket :: bool
  hm_appConfigFragments :: "(string, string) gomap"
  hm_appLabels :: "(string, labels) gomap"
  hm_appStateCache :: "(string, (string, task_ref) gomap) gomap"
  hm_taskCells :: "marathon_task list"
  hm_vhosts :: "(string, string list) gomap"
  hm_vhostDefault :: string
  hm_vhostsHTTPS :: "(string, string list) gomap"
  hm_vhostDefaultHTTPS :: string

section \<open>Labels\<close>

definition LB_PROXY_PROTOCOL :: string where "LB_PROXY_PROTOCOL = ''lb-proxy-protocol''"
definition LB_ACCEPT_PROXY :: string where "LB_ACCEPT_PROXY = ''lb-accept-proxy''"
definition LB_VHOST_HTTP :: string where "LB_VHOST_HTTP = ''lb-vhost''"
definition LB_VHOST_DEFAULT_HTTP :: string where "LB_VHOST_DEFAULT_HTTP = ''lb-vhost-default''"
definition LB_VHOST_HTTPS :: string where "LB_VHOST_HTTPS = ''lb-vhost-ssl''"
definition LB_VHOST_DEFAULT_HTTPS :: string where
  "LB_VHOST_DEFAULT_HTTPS = ''lb-vhost-default-ssl''"
definition APP_DISABLE_HEALTHCHECK :: string where
  "APP_DISABLE_HEALTHCHECK = ''disable-haproxy-health-check''"
definition APP_HTTP_CONNECTION_MODE :: string where
  "APP_HTTP_CONNECTION_MODE = ''http-connection-mode''"
definition APP_LOGGING :: string where "APP_LOGGING = ''haproxy-logging''"

definition pd_label :: "port_definition \<Rightarrow> string \<Rightarrow> string" where
  "pd_label pd k = label (pd_labels pd) k"

fun group_in :: "string list \<Rightarrow> string \<Rightarrow> bool" where
  "group_in [] groupName = False"
| "group_in (filterGroup # rest) groupName =
     (if groupName = filterGroup \<or> filterGroup = ''*'' then True else group_in rest groupName)"

definition isGroupIncluded :: "haproxy_mgr \<Rightarrow> string \<Rightarrow> bool" where
  "isGroupIncluded m groupName = group_in (hm_FilterGroups m) groupName"

section \<open>The options of a port\<close>

definition bind_opts :: "port_definition \<Rightarrow> string" where
  "bind_opts pd = (if Atoi (pd_label pd LB_ACCEPT_PROXY) 0 \<noteq> 0 then '' accept-proxy'' else [])"

definition server_opts :: "haproxy_mgr \<Rightarrow> port_definition \<Rightarrow> health_check \<Rightarrow> string" where
  "server_opts m pd hc =
     (if hm_LocalHealthChecks m \<and> pd_label pd APP_DISABLE_HEALTHCHECK \<noteq> ''true'' then '' check'' else []) @
     (if hc_interval hc > 0 then '' inter '' @ int_str (wrap64 (hc_interval hc * 1000)) else []) @
     (let proxy = Atoi (pd_label pd LB_PROXY_PROTOCOL) 0 in
      if proxy = 2 then '' send-proxy-v2'' else if proxy = 1 then '' send-proxy'' else [])"

definition connection_mode :: "port_definition \<Rightarrow> string" where
  "connection_mode pd =
     (let mode = pd_label pd APP_HTTP_CONNECTION_MODE in
      if mode = ''httpclose'' then ''httpclose''
      else if mode = ''http-server-close'' then ''http-server-close''
      else ''http-server-close'')"

definition port_logging :: "port_definition \<Rightarrow> string" where
  "port_logging pd =
     (let logging = Atoi (pd_label pd APP_LOGGING) 1 in
      if logging = 1 then ''log global'' else if logging = 0 then ''no log'' else ''no log'')"

text \<open>The update of one table of virtual hosts and its default, HTTP or HTTPS.\<close>

definition set_vhosts :: "(string, string list) gomap \<Rightarrow> string \<Rightarrow> string \<Rightarrow> string list \<Rightarrow> string
    \<Rightarrow> ((string, string list) gomap \<times> string) go" where
  "set_vhosts vhosts vhostDefault appID lbVirtualHosts defaultLabel =
     (if length lbVirtualHosts \<noteq> 0 then
        go_bind (gm_put vhosts appID lbVirtualHosts) (\<lambda>vhosts'.
          Ret (vhosts', if defaultLabel = ''1'' then appID else vhostDefault))
      else Ret (gm_delete vhosts appID, if vhostDefault = appID then [] else vhostDefault))"

section \<open>The fragment of a port\<close>

definition upstreamServerConfig :: "host_env \<Rightarrow> string \<Rightarrow> uint \<Rightarrow> string \<Rightarrow> string" where
  "upstreamServerConfig env host port serverOpts =
     concat [''  server '', host, '':'', uint_str port, '' '', SoftResolveIPAddr env host, '':'',
       uint_str port, serverOpts, nl]"

definition tcp_head :: "string \<Rightarrow> string \<Rightarrow> uint \<Rightarrow> string \<Rightarrow> string" where
  "tcp_head appID bindAddr servicePort bindOpts = concat
     [''listen '', appID, nl,
      ''  bind '', bindAddr, '':'', uint_str servicePort, bindOpts, nl,
      ''  option dontlognull'', nl,
      ''  option dontlog-normal'', nl,
      ''  mode tcp'', nl,
      ''  balance leastconn'', nl]"

definition protocol_head :: "string \<Rightarrow> string \<Rightarrow> string \<Rightarrow> uint \<Rightarrow> string \<Rightarrow> string \<Rightarrow> string
    \<Rightarrow> string \<Rightarrow> string" where
  "protocol_head appProtocol appID bindAddr servicePort bindOpts portLogging httpConnectionMode path =
     (if appProtocol = ''http'' then concat
        [''frontend __frontend_'', appID, nl,
         ''  bind '', bindAddr, '':'', uint_str servicePort, bindOpts, nl,
         ''  mode http'', nl,
         ''  '', portLogging, nl,
         ''  option '', httpConnectionMode, nl,
         ''  option httplog'', nl,
         ''  option dontlognull'', nl,
         ''  option dontlog-normal'', nl,
         ''  option forwardfor'', nl,
         ''  default_backend '', appID, nl,
         nl,
         ''backend '', appID, nl,
         ''  mode http'', nl,
         ''  balance leastconn'', nl,
         ''  option abortonclose'', nl,
         ''  option httpchk GET '', path, '' HTTP/1.1'', backslash, ''r'', backslash, ''nHost:'',
           backslash, '' health-check'', nl]
      else if appProtocol \<in> {''redis-master'', ''redis-server'', ''redis''} then concat
        [tcp_head appID bindAddr servicePort bindOpts,
         ''  option tcp-check'', nl,
         ''  tcp-check connect'', nl,
         ''  tcp-check send PING'', backslash, ''r'', backslash, ''n'', nl,
         ''  tcp-check expect string +PONG'', nl,
         ''  tcp-check send info'', backslash, '' replication'', backslash, ''r'', backslash, ''n'', nl,
         ''  tcp-check expect string role:master'', nl,
         ''  tcp-check send QUIT'', backslash, ''r'', backslash, ''n'', nl,
         ''  tcp-check expect string +OK'', nl]
      else if appProtocol = ''smtp'' then concat
        [tcp_head appID bindAddr servicePort bindOpts,
         ''  option tcp-check'', nl,
         ''  option smtpchk EHLO localhost'', nl]
      else tcp_head appID bindAddr servicePort bindOpts)"

definition server_lines :: "host_env \<Rightarrow> nat \<Rightarrow> string \<Rightarrow> marathon_task list \<Rightarrow> string" where
  "server_lines env portIndex serverOpts tasks =
     concat (map (\<lambda>task.
       if t_state task = None \<or> t_state task = Some TaskRunning then
         (if portIndex < length (t_ports task)
          then upstreamServerConfig env (t_host task) (t_ports task ! portIndex) serverOpts else [])
       else []) tasks)"

text \<open>What is rendered for a port: the section of its protocol and its servers.\<close>

definition port_text :: "host_env \<Rightarrow> haproxy_mgr \<Rightarrow> marathon_app \<Rightarrow> nat \<Rightarrow> port_definition \<Rightarrow> string
    \<Rightarrow> marathon_task list \<Rightarrow> string" where
  "port_text env m app portIndex portDef appID tasks =
     (let healthCheck = GetHealthCheckForPortIndex (a_healthChecks app) portIndex;
          appProtocol = GetApplicationProtocol app portIndex in
      protocol_head appProtocol appID (hm_Address m) (pd_port portDef) (bind_opts portDef)
        (port_logging portDef) (connection_mode portDef) (hc_path healthCheck) @
      ''  option redispatch'' @ nl @
      ''  retries 1'' @ nl @
      server_lines env portIndex (server_opts m portDef healthCheck) tasks @ nl)"

definition makeConfigForPort :: "host_env \<Rightarrow> haproxy_mgr \<Rightarrow> marathon_app \<Rightarrow> nat
    \<Rightarrow> (haproxy_mgr \<times> marathon_app \<times> string) go" where
  "makeConfigForPort env m app portIndex =
     (if GetTransportProtocol app portIndex \<noteq> ''tcp'' then Ret (m, app, [])
      else
       go_bind (go_nth (a_portDefs app) portIndex) (\<lambda>portDef.
       let servicePort = pd_port portDef in
       go_bind (PrettifyAppId (a_id app) portIndex servicePort) (\<lambda>appID.
       go_bind (set_vhosts (hm_vhosts m) (hm_vhostDefault m) appID
           (makeStringArray (pd_label portDef LB_VHOST_HTTP))
           (pd_label portDef LB_VHOST_DEFAULT_HTTP)) (\<lambda>(vhosts, vhostDefault).
       go_bind (set_vhosts (hm_vhostsHTTPS m) (hm_vhostDefaultHTTPS m) appID
           (makeStringArray (pd_label portDef LB_VHOST_HTTPS))
           (pd_label portDef LB_VHOST_DEFAULT_HTTPS)) (\<lambda>(vhostsHTTPS, vhostDefaultHTTPS).
       let tasks = sortTasks env (a_tasks app) portIndex in
       Ret (m\<lparr>hm_vhosts := vhosts, hm_vhostDefault := vhostDefault, hm_vhostsHTTPS := vhostsHTTPS,
              hm_vhostDefaultHTTPS := vhostDefaultHTTPS\<rparr>,
            app\<lparr>a_tasks := tasks\<rparr>,
            port_text env m app portIndex portDef appID tasks))))))"

text \<open>
  The loop over the port definitions. The labels are copied into \<open>appLabels\<close> first, which
  nothing reads.
\<close>

fun config_ports :: "host_env \<Rightarrow> haproxy_mgr \<Rightarrow> marathon_app \<Rightarrow> string \<Rightarrow> nat \<Rightarrow> port_definition list
    \<Rightarrow> (haproxy_mgr \<times> marathon_app \<times> string) go" where
  "config_ports env m app result portIndex [] = Ret (m, app, result)"
| "config_ports env m app result portIndex (portDef # rest) =
     (if isGroupIncluded m (pd_label portDef ''lb-group'') then
        go_bind (makeConfigForPort env m app portIndex) (\<lambda>(m', app', s).
          config_ports env m' app' (result @ s) (Suc portIndex) rest)
      else config_ports env m app result (Suc portIndex) rest)"

definition makeConfig :: "host_env \<Rightarrow> haproxy_mgr \<Rightarrow> marathon_app
    \<Rightarrow> (haproxy_mgr \<times> marathon_app \<times> string) go" where
  "makeConfig env m app =
     (let appLabels = (case hm_appLabels m of None \<Rightarrow> gm_make | Some _ \<Rightarrow> hm_appLabels m) in
      go_bind (gm_put appLabels (a_id app) (a_labels app)) (\<lambda>appLabels'.
        config_ports env (m\<lparr>hm_appLabels := appLabels'\<rparr>) app [] 0 (a_portDefs app)))"

section \<open>Gateways\<close>

text \<open>The tables the two gateway functions collect; the routes are made non-nil, so plain lists.\<close>

record gateway_acc =
  ga_suffixRoutes :: "(string \<times> string) list"
  ga_suffixMatches :: "string list"
  ga_exactRoutes :: "(string \<times> string) list"
  ga_exactMatches :: "string list"
  ga_vhostDefault :: string

definition empty_acc :: gateway_acc where
  "empty_acc = \<lparr>ga_suffixRoutes = [], ga_suffixMatches = [], ga_exactRoutes = [], ga_exactMatches = [],
     ga_vhostDefault = []\<rparr>"

definition matchToken :: "string \<Rightarrow> string \<Rightarrow> string" where
  "matchToken kind vhost = replace_ch CHR ''*'' ''STAR'' (replace_ch CHR ''.'' ''_'' (kind @ vhost))"

definition is_suffix_vhost :: "string \<Rightarrow> bool" where
  "is_suffix_vhost vhost \<longleftrightarrow> 3 \<le> length vhost \<and> vhost ! 0 = CHR ''*'' \<and> vhost ! 1 = CHR ''.''"

definition add_vhost :: "string \<Rightarrow> (string \<Rightarrow> string \<Rightarrow> string) \<Rightarrow> (string \<Rightarrow> string \<Rightarrow> string)
    \<Rightarrow> string \<Rightarrow> string \<Rightarrow> gateway_acc \<Rightarrow> string \<Rightarrow> gateway_acc" where
  "add_vhost kind suffixAcl exactAcl vhostDefault appID acc vhost =
     (let token = matchToken kind vhost;
          acc1 =
            (if is_suffix_vhost vhost then
               acc\<lparr>ga_suffixMatches := ga_suffixMatches acc @
                     [suffixAcl token (splitN_str ''.'' 2 vhost ! 1)],
                   ga_suffixRoutes := AList.update token appID (ga_suffixRoutes acc)\<rparr>
             else
               acc\<lparr>ga_exactMatches := ga_exactMatches acc @ [exactAcl token vhost],
                   ga_exactRoutes := AList.update token appID (ga_exactRoutes acc)\<rparr>) in
      if vhostDefault = appID then acc1\<lparr>ga_vhostDefault := appID\<rparr> else acc1)"

definition collect_vhosts :: "string \<Rightarrow> (string \<Rightarrow> string \<Rightarrow> string) \<Rightarrow> (string \<Rightarrow> string \<Rightarrow> string)
    \<Rightarrow> string \<Rightarrow> (string, string list) gomap \<Rightarrow> gateway_acc" where
  "collect_vhosts kind suffixAcl exactAcl vhostDefault vhosts =
     foldl (\<lambda>acc appID.
         foldl (add_vhost kind suffixAcl exactAcl vhostDefault appID) acc
           (case gm_get vhosts appID of Some vs \<Rightarrow> vs | None \<Rightarrow> []))
       empty_acc (SortedVhostsKeys vhosts)"

definition use_backend :: "string \<Rightarrow> string \<Rightarrow> string" where
  "use_backend appID acl = concat [''  use_backend '', appID, '' if '', acl, nl]"

definition route_lines :: "(string \<times> string) list \<Rightarrow> string" where
  "route_lines routes =
     concat (map (\<lambda>acl. use_backend (case map_of routes acl of Some appID \<Rightarrow> appID | None \<Rightarrow> []) acl)
       (SortedStrStrKeys (Some routes)))"

definition gateway_rules :: "gateway_acc \<Rightarrow> string" where
  "gateway_rules acc =
     concat (ga_exactMatches acc) @ concat (ga_suffixMatches acc) @
     (if length (ga_exactMatches acc) \<noteq> 0 \<or> length (ga_suffixMatches acc) \<noteq> 0 then nl else []) @
     route_lines (ga_exactRoutes acc) @ route_lines (ga_suffixRoutes acc) @ nl @
     (if length (ga_vhostDefault acc) \<noteq> 0
      then concat [''  default_backend '', ga_vhostDefault acc, nl, nl] else [])"

definition http_suffix_acl :: "string \<Rightarrow> string \<Rightarrow> string" where
  "http_suffix_acl token domain = concat
     [[CHR 0x09], ''acl '', token, [CHR 0x09], ''hdr_dom(host) -i '', domain, nl]"

definition http_exact_acl :: "string \<Rightarrow> string \<Rightarrow> string" where
  "http_exact_acl token vhost = concat [[CHR 0x09], ''acl '', token, '' hdr(host) -i '', vhost, nl]"

definition https_suffix_acl :: "string \<Rightarrow> string \<Rightarrow> string" where
  "https_suffix_acl token domain = concat [''  acl '', token, '' req_ssl_sni -m dom '', domain, nl]"

definition https_exact_acl :: "string \<Rightarrow> string \<Rightarrow> string" where
  "https_exact_acl token vhost = concat [''  acl '', token, '' req_ssl_sni -i '', vhost, nl]"

definition makeGatewayHTTP :: "haproxy_mgr \<Rightarrow> string" where
  "makeGatewayHTTP m =
     concat
       [''frontend __gateway_http'', nl,
        ''  bind '', hm_GatewayAddr m, '':'', uint_str (hm_GatewayPortHTTP m), nl,
        ''  mode http'', nl,
        ''  option httplog'', nl,
        ''  option dontlognull'', nl,
        ''  option forwardfor'', nl,
        ''  option http-server-close'', nl,
        ''  reqadd X-Forwarded-Proto:'', backslash, '' http'', nl,
        nl] @
     gateway_rules (collect_vhosts ''vhost_'' http_suffix_acl http_exact_acl (hm_vhostDefault m) (hm_vhosts m))"

definition makeGatewayHTTPS :: "haproxy_mgr \<Rightarrow> string" where
  "makeGatewayHTTPS m =
     concat
       [''frontend __gateway_https'', nl,
        ''  bind '', hm_GatewayAddr m, '':'', uint_str (hm_GatewayPortHTTPS m), nl,
        ''  mode tcp'', nl,
        ''  tcp-request inspect-delay 5s'', nl,
        ''  tcp-request content accept if { req_ssl_hello_type 1 }'', nl,
        nl] @
     gateway_rules (collect_vhosts ''vhost_ssl_'' https_suffix_acl https_exact_acl (hm_vhostDefaultHTTPS m)
       (hm_vhostsHTTPS m))"

section \<open>Head and tail\<close>

definition makeConfigHead :: "haproxy_mgr \<Rightarrow> string" where
  "makeConfigHead m =
     concat
       [''# This is an auto generated haproxy configuration!!!'', nl,
        ''global'', nl,
        ''  maxconn 32768'', nl,
        ''  maxconnrate 32768'', nl,
        ''  log 127.0.0.1 len 4096 '', hm_SyslogFacility m, nl,
        ''  stats socket '', hm_AdminSockPath m, '' mode 600 level admin expose-fd listeners'', nl,
        nl,
        ''defaults'', nl,
        ''  maxconn 32768'', nl,
        ''  timeout client 90000'', nl,
        ''  timeout server 90000'', nl,
        ''  timeout connect 90000'', nl,
        ''  timeout queue 90000'', nl,
        ''  timeout http-request 90000'', nl,
        nl] @
     concat
       [''listen haproxy'', nl,
        ''  bind 0.0.0.0:'', uint_str (hm_ManagementPort m), nl,
        ''  mode http'', nl,
        ''  stats enable'', nl,
        ''  stats uri /'', nl,
        ''  stats admin if TRUE'', nl,
        ''  monitor-uri /haproxy?monitor'', nl,
        nl] @
     (if hm_GatewayEnabled m then makeGatewayHTTP m @ makeGatewayHTTPS m else [])"

definition makeConfigTail :: "haproxy_mgr \<Rightarrow> file_system \<Rightarrow> go_error + string" where
  "makeConfigTail m fs =
     (if length (hm_ConfigTailPath m) = 0 then Inr []
      else case fs_read fs (hm_ConfigTailPath m) of
        None \<Rightarrow> Inl ''read''
      | Some tail \<Rightarrow> Inr tail)"

definition cluster_names :: "haproxy_mgr \<Rightarrow> string list" where
  "cluster_names m = sort (gm_keys (hm_appConfigFragments m))"

definition config_text :: "haproxy_mgr \<Rightarrow> string" where
  "config_text m = makeConfigHead m @
     concat (map (\<lambda>name. case gm_get (hm_appConfigFragments m) name of Some s \<Rightarrow> s | None \<Rightarrow> [])
       (cluster_names m))"

section \<open>The servers of a port\<close>

lemma isGroupIncluded_iff: "isGroupIncluded m g \<longleftrightarrow> g \<in> set (hm_FilterGroups m) \<or> ''*'' \<in> set (hm_FilterGroups m)"
proof -
  have "group_in fs g \<longleftrightarrow> g \<in> set fs \<or> ''*'' \<in> set fs" for fs by (induction fs) auto
  then show ?thesis by (simp add: isGroupIncluded_def)
qed

definition runs_on :: "nat \<Rightarrow> marathon_task \<Rightarrow> bool" where
  "runs_on i task \<longleftrightarrow> (t_state task = None \<or> t_state task = Some TaskRunning) \<and> i < length (t_ports task)"

lemma server_lines_filter:
  "server_lines env i opts tasks =
     concat (map (\<lambda>t. upstreamServerConfig env (t_host t) (t_ports t ! i) opts) (filter (runs_on i) tasks))"
  by (induction tasks) (auto simp: server_lines_def runs_on_def)

lemma makeConfigForPort_tcp:
  assumes "makeConfigForPort env m app i = Ret (m', app', s)" and "GetTransportProtocol app i = ''tcp''"
  obtains pre where
    "s = pre @ server_lines env i (server_opts m (a_portDefs app ! i)
        (GetHealthCheckForPortIndex (a_healthChecks app) i)) (a_tasks app') @ nl"
    and "app' = app\<lparr>a_tasks := sortTasks env (a_tasks app) i\<rparr>" and "i < length (a_portDefs app)"
  using assms by (auto simp: makeConfigForPort_def port_text_def go_bind_eq_Ret go_nth_eq_Ret Let_def)

text \<open>
  C11. The fragment of a TCP port is exactly its head, which depends on the settings and the port
  definition but on no task, then one server line for each task that is running (or has no state)
  and has the port, and none for any other task. The application's list of tasks is left as that
  permutation of it in which the lines are written: by host, where the ports of the tasks at the
  index agree (they are ordered by nothing else otherwise, see \<open>task_less_cyclic\<close>).
\<close>

theorem makeConfigForPort_servers:
  assumes "sort_ok (env_sortTasks env)" and "GetTransportProtocol app i = ''tcp''"
    and "makeConfigForPort env m app i = Ret (m', app', s)"
  shows "\<exists>name. PrettifyAppId (a_id app) i (pd_port (a_portDefs app ! i)) = Ret name \<and>
    app' = app\<lparr>a_tasks := a_tasks app'\<rparr> \<and> mset (a_tasks app') = mset (a_tasks app) \<and>
    (uniform_ports i (a_tasks app) \<longrightarrow> sorted (map t_host (a_tasks app'))) \<and>
    s = protocol_head (GetApplicationProtocol app i) name (hm_Address m) (pd_port (a_portDefs app ! i))
          (bind_opts (a_portDefs app ! i)) (port_logging (a_portDefs app ! i)) (connection_mode (a_portDefs app ! i))
          (hc_path (GetHealthCheckForPortIndex (a_healthChecks app) i)) @
        ''  option redispatch'' @ nl @ ''  retries 1'' @ nl @
        concat (map (\<lambda>t. upstreamServerConfig env (t_host t) (t_ports t ! i)
            (server_opts m (a_portDefs app ! i) (GetHealthCheckForPortIndex (a_healthChecks app) i)))
          (filter (runs_on i) (a_tasks app'))) @ nl"
proof -
  from assms(2,3) obtain name where "PrettifyAppId (a_id app) i (pd_port (a_portDefs app ! i)) = Ret name"
    and app': "app' = app\<lparr>a_tasks := sortTasks env (a_tasks app) i\<rparr>"
    and s: "s = port_text env m app i (a_portDefs app ! i) name (a_tasks app')"
    by (auto simp: makeConfigForPort_def go_bind_eq_Ret go_nth_eq_Ret Let_def)
  then show ?thesis
    using mset_sortTasks [OF assms(1)] sortTasks_hosts [OF assms(1)]
    by (intro exI [of _ name]) (simp add: port_text_def server_lines_filter Let_def)
qed

section \<open>Routing of virtual hosts\<close>

abbreviation hosts_of :: "(string, string list) gomap \<Rightarrow> string \<Rightarrow> string list" where
  "hosts_of vhosts a \<equiv> (case gm_get vhosts a of Some vs \<Rightarrow> vs | None \<Rightarrow> [])"

definition routes :: "bool \<Rightarrow> gateway_acc \<Rightarrow> (string \<times> string) list" where
  "routes suf acc = (if suf then ga_suffixRoutes acc else ga_exactRoutes acc)"

definition claims :: "string \<Rightarrow> bool \<Rightarrow> string \<Rightarrow> string \<Rightarrow> bool" where
  "claims kind suf tok vhost \<longleftrightarrow> is_suffix_vhost vhost = suf \<and> matchToken kind vhost = tok"

lemma add_vhost_routes:
  "map_of (routes suf (add_vhost kind sa ea d a acc v)) tok =
     (if claims kind suf tok v then Some a else map_of (routes suf acc) tok)"
  by (auto simp: add_vhost_def routes_def claims_def Let_def update_conv')

lemma add_vhosts_routes:
  "map_of (routes suf (foldl (add_vhost kind sa ea d a) acc vs)) tok =
     (if \<exists>v\<in>set vs. claims kind suf tok v then Some a else map_of (routes suf acc) tok)"
  by (induction vs arbitrary: acc) (auto simp: add_vhost_routes)

text \<open>
  The specification of the routing tables: a token is routed to the last application, in the
  order of their names, with a virtual host of that kind and token.
\<close>

definition route_of :: "string \<Rightarrow> bool \<Rightarrow> (string, string list) gomap \<Rightarrow> string \<Rightarrow> string option" where
  "route_of kind suf vhosts tok =
     (let as = filter (\<lambda>a. \<exists>v\<in>set (hosts_of vhosts a). claims kind suf tok v) (SortedVhostsKeys vhosts) in
      if as = [] then None else Some (last as))"

lemma collect_vhosts_routes:
  "map_of (routes suf (collect_vhosts kind sa ea d vhosts)) tok = route_of kind suf vhosts tok"
proof -
  have "map_of (routes suf (foldl (\<lambda>acc a. foldl (add_vhost kind sa ea d a) acc (hosts_of vhosts a)) empty_acc as)) tok =
      (let bs = filter (\<lambda>a. \<exists>v\<in>set (hosts_of vhosts a). claims kind suf tok v) as in
       if bs = [] then None else Some (last bs))" for as
  proof (induction as rule: rev_induct)
    case Nil
    show ?case by (simp add: routes_def empty_acc_def)
  next
    case (snoc a as)
    then show ?case by (simp add: add_vhosts_routes Let_def del: split_paired_Ex)
  qed
  then show ?thesis by (simp add: collect_vhosts_def route_of_def)
qed

lemma last_only: "a \<in> set as \<Longrightarrow> set as \<subseteq> {a} \<Longrightarrow> as \<noteq> [] \<and> last as = a"
  by (cases as rule: rev_cases) auto

lemma last_greatest:
  fixes a b :: "'a::linorder"
  assumes "b \<in> set as" and "sorted as" and "set as \<subseteq> {a, b}" and "a < b"
  shows "as \<noteq> [] \<and> last as = b"
  using assms by (cases as rule: rev_cases) (auto simp: sorted_append)

lemma route_of_unique:
  assumes "v \<in> set (hosts_of vhosts a)" and "claims kind suf tok v"
    and "\<forall>b. \<forall>w\<in>set (hosts_of vhosts b). claims kind suf tok w \<longrightarrow> b = a"
  shows "route_of kind suf vhosts tok = Some a"
proof -
  let ?as = "filter (\<lambda>a. \<exists>v\<in>set (hosts_of vhosts a). claims kind suf tok v) (SortedVhostsKeys vhosts)"
  have "a \<in> dom (gm_get vhosts)" using assms(1) by (cases "gm_get vhosts a") auto
  then have "a \<in> set ?as" using assms(1,2) by (auto simp: vhost_keys.keys_set)
  moreover have "set ?as \<subseteq> {a}" using assms(3) by auto
  ultimately have "?as \<noteq> [] \<and> last ?as = a" by (rule last_only)
  then show ?thesis by (simp add: route_of_def Let_def)
qed

lemma sublist_concat_map: "x \<in> set xs \<Longrightarrow> sublist (f x) (concat (map f xs))"
  by (auto simp: in_set_conv_decomp)

lemma route_lines_has:
  assumes "map_of rs tok = Some a"
  shows "sublist (use_backend a tok) (route_lines rs)"
proof -
  have "tok \<in> set (SortedStrStrKeys (Some rs))"
    using assms by (auto simp: str_keys.keys_set gm_get_Some)
  from sublist_concat_map [OF this, of "\<lambda>acl. use_backend (case map_of rs acl of Some appID \<Rightarrow> appID | None \<Rightarrow> []) acl"]
  show ?thesis using assms by (simp add: route_lines_def)
qed

lemma sublist_between: "sublist x b \<Longrightarrow> sublist x (a @ b @ c)"
  unfolding sublist_def by (metis append.assoc)

lemma gateway_rules_route:
  assumes "map_of (routes suf acc) tok = Some a"
  shows "sublist (use_backend a tok) (gateway_rules acc)"
proof (cases suf)
  case True
  with assms have "sublist (use_backend a tok) (route_lines (ga_suffixRoutes acc))"
    by (simp add: routes_def route_lines_has)
  from sublist_between [OF this] show ?thesis unfolding gateway_rules_def by (metis append.assoc)
next
  case False
  with assms have "sublist (use_backend a tok) (route_lines (ga_exactRoutes acc))"
    by (simp add: routes_def route_lines_has)
  from sublist_between [OF this] show ?thesis unfolding gateway_rules_def by (metis append.assoc)
qed

definition acl_line :: "string \<Rightarrow> (string \<Rightarrow> string \<Rightarrow> string) \<Rightarrow> (string \<Rightarrow> string \<Rightarrow> string) \<Rightarrow> string \<Rightarrow> string" where
  "acl_line kind sa ea v =
     (if is_suffix_vhost v then sa (matchToken kind v) (splitN_str ''.'' 2 v ! 1)
      else ea (matchToken kind v) v)"

abbreviation matches :: "gateway_acc \<Rightarrow> string set" where
  "matches acc \<equiv> set (ga_exactMatches acc) \<union> set (ga_suffixMatches acc)"

lemma add_vhost_matches: "matches (add_vhost kind sa ea d a acc v) = insert (acl_line kind sa ea v) (matches acc)"
  by (auto simp: add_vhost_def acl_line_def Let_def)

lemma add_vhosts_matches:
  "matches (foldl (add_vhost kind sa ea d a) acc vs) = acl_line kind sa ea ` set vs \<union> matches acc"
proof (induction vs arbitrary: acc)
  case (Cons v vs)
  show ?case by (simp only: foldl_Cons Cons.IH add_vhost_matches) auto
qed simp

lemma collect_vhosts_matches:
  "matches (collect_vhosts kind sa ea d vhosts) =
     {acl_line kind sa ea v |v a. v \<in> set (hosts_of vhosts a)}"
proof -
  have "matches (foldl (\<lambda>acc a. foldl (add_vhost kind sa ea d a) acc (hosts_of vhosts a)) acc as) =
      (\<Union>a\<in>set as. acl_line kind sa ea ` set (hosts_of vhosts a)) \<union> matches acc" for acc as
  proof (induction as arbitrary: acc)
    case (Cons a as)
    show ?case by (simp only: foldl_Cons Cons.IH add_vhosts_matches) auto
  qed simp
  then have "matches (collect_vhosts kind sa ea d vhosts) =
      (\<Union>a\<in>dom (gm_get vhosts). acl_line kind sa ea ` set (hosts_of vhosts a))"
    by (simp add: collect_vhosts_def empty_acc_def vhost_keys.keys_set)
  also have "\<dots> = {acl_line kind sa ea v |v a. v \<in> set (hosts_of vhosts a)}"
  proof (intro equalityI subsetI)
    fix x
    assume "x \<in> {acl_line kind sa ea v |v a. v \<in> set (hosts_of vhosts a)}"
    then obtain v a where "x = acl_line kind sa ea v" "v \<in> set (hosts_of vhosts a)" by blast
    moreover from this(2) have "a \<in> dom (gm_get vhosts)" by (cases "gm_get vhosts a") auto
    ultimately show "x \<in> (\<Union>a\<in>dom (gm_get vhosts). acl_line kind sa ea ` set (hosts_of vhosts a))" by blast
  qed blast
  finally show ?thesis .
qed

lemma gateway_rules_acl:
  assumes "x \<in> matches acc"
  shows "sublist x (gateway_rules acc)"
proof (cases "x \<in> set (ga_exactMatches acc)")
  case True
  from sublist_between [OF sublist_concat_map [OF True, of "\<lambda>x. x"], of "[]"]
  show ?thesis unfolding gateway_rules_def by simp
next
  case False
  with assms have "x \<in> set (ga_suffixMatches acc)" by simp
  from sublist_between [OF sublist_concat_map [OF this, of "\<lambda>x. x"]]
  show ?thesis unfolding gateway_rules_def by simp
qed

lemma gateway_has_vhost:
  assumes "gm_get vhosts a = Some vs" and "v \<in> set vs"
    and "\<forall>b ws w. gm_get vhosts b = Some ws \<longrightarrow> w \<in> set ws \<longrightarrow> is_suffix_vhost w = is_suffix_vhost v \<longrightarrow>
      matchToken kind w = matchToken kind v \<longrightarrow> b = a"
  shows "sublist (acl_line kind sa ea v) (gateway_rules (collect_vhosts kind sa ea d vhosts))"
    and "sublist (use_backend a (matchToken kind v)) (gateway_rules (collect_vhosts kind sa ea d vhosts))"
proof -
  have h: "v \<in> set (hosts_of vhosts a)" using assms(1,2) by simp
  then have "acl_line kind sa ea v \<in> matches (collect_vhosts kind sa ea d vhosts)"
    unfolding collect_vhosts_matches by blast
  then show "sublist (acl_line kind sa ea v) (gateway_rules (collect_vhosts kind sa ea d vhosts))"
    by (rule gateway_rules_acl)
  have "route_of kind (is_suffix_vhost v) vhosts (matchToken kind v) = Some a"
  proof (rule route_of_unique [OF h])
    show "\<forall>b. \<forall>w\<in>set (hosts_of vhosts b). claims kind (is_suffix_vhost v) (matchToken kind v) w \<longrightarrow> b = a"
    proof (intro allI ballI impI)
      fix b w
      assume w: "w \<in> set (hosts_of vhosts b)" and c: "claims kind (is_suffix_vhost v) (matchToken kind v) w"
      from w obtain ws where "gm_get vhosts b = Some ws" "w \<in> set ws" by (cases "gm_get vhosts b") auto
      with assms(3) c show "b = a" unfolding claims_def by blast
    qed
  qed (simp add: claims_def)
  then show "sublist (use_backend a (matchToken kind v)) (gateway_rules (collect_vhosts kind sa ea d vhosts))"
    by (intro gateway_rules_route) (simp only: collect_vhosts_routes)
qed

text \<open>The two gateways: the table of hosts, the access rule and the token of a host.\<close>

definition vhost_table :: "bool \<Rightarrow> haproxy_mgr \<Rightarrow> (string, string list) gomap" where
  "vhost_table ssl m = (if ssl then hm_vhostsHTTPS m else hm_vhosts m)"

definition vhost_token :: "bool \<Rightarrow> string \<Rightarrow> string" where
  "vhost_token ssl = matchToken (if ssl then ''vhost_ssl_'' else ''vhost_'')"

definition vhost_rule :: "bool \<Rightarrow> string \<Rightarrow> string" where
  "vhost_rule ssl =
     (if ssl then acl_line ''vhost_ssl_'' https_suffix_acl https_exact_acl
      else acl_line ''vhost_'' http_suffix_acl http_exact_acl)"

lemma sublist_tail: "sublist x b \<Longrightarrow> sublist x (a @ b)"
  using sublist_between [of x b a "[]"] by simp

lemma sublist_front: "sublist x b \<Longrightarrow> sublist x (b @ c)"
  using sublist_between [of x b "[]" c] by simp

lemma head_has_gateway:
  assumes "hm_GatewayEnabled m" and "sublist x (makeGatewayHTTP m) \<or> sublist x (makeGatewayHTTPS m)"
  shows "sublist x (makeConfigHead m)"
proof -
  have "sublist x (makeGatewayHTTP m @ makeGatewayHTTPS m)"
    using assms(2) sublist_front sublist_tail by blast
  then show ?thesis unfolding makeConfigHead_def if_P [OF assms(1)] by (rule sublist_tail [OF sublist_tail])
qed

text \<open>
  C27. A virtual host of a service is routed to it, in both gateways: where the gateways are enabled
  and no other service has a host of the same kind with the same token in the same table, the head
  of the configuration has the access rule of the host and the line that sends its requests to the
  service.
\<close>

theorem vhost_routed:
  assumes "hm_GatewayEnabled m" and "gm_get (vhost_table ssl m) a = Some vs" and "v \<in> set vs"
    and "\<forall>b ws w. gm_get (vhost_table ssl m) b = Some ws \<longrightarrow> w \<in> set ws \<longrightarrow>
      is_suffix_vhost w = is_suffix_vhost v \<longrightarrow> vhost_token ssl w = vhost_token ssl v \<longrightarrow> b = a"
  shows "sublist (vhost_rule ssl v) (makeConfigHead m) \<and>
    sublist (use_backend a (vhost_token ssl v)) (makeConfigHead m)"
proof (cases ssl)
  case True
  from assms(2) True have t: "gm_get (hm_vhostsHTTPS m) a = Some vs" by (simp add: vhost_table_def)
  from assms(4) True have u: "\<forall>b ws w. gm_get (hm_vhostsHTTPS m) b = Some ws \<longrightarrow> w \<in> set ws \<longrightarrow>
      is_suffix_vhost w = is_suffix_vhost v \<longrightarrow> matchToken ''vhost_ssl_'' w = matchToken ''vhost_ssl_'' v \<longrightarrow> b = a"
    by (simp add: vhost_table_def vhost_token_def)
  note lines = gateway_has_vhost [OF t assms(3) u, of https_suffix_acl https_exact_acl "hm_vhostDefaultHTTPS m"]
  have "sublist (vhost_rule ssl v) (makeGatewayHTTPS m)" and "sublist (use_backend a (vhost_token ssl v)) (makeGatewayHTTPS m)"
    using lines True unfolding makeGatewayHTTPS_def
    by (simp_all only: vhost_rule_def vhost_token_def if_True if_False sublist_tail)
  with assms(1) show ?thesis by (blast intro: head_has_gateway)
next
  case False
  from assms(2) False have t: "gm_get (hm_vhosts m) a = Some vs" by (simp add: vhost_table_def)
  from assms(4) False have u: "\<forall>b ws w. gm_get (hm_vhosts m) b = Some ws \<longrightarrow> w \<in> set ws \<longrightarrow>
      is_suffix_vhost w = is_suffix_vhost v \<longrightarrow> matchToken ''vhost_'' w = matchToken ''vhost_'' v \<longrightarrow> b = a"
    by (simp add: vhost_table_def vhost_token_def)
  note lines = gateway_has_vhost [OF t assms(3) u, of http_suffix_acl http_exact_acl "hm_vhostDefault m"]
  have "sublist (vhost_rule ssl v) (makeGatewayHTTP m)" and "sublist (use_backend a (vhost_token ssl v)) (makeGatewayHTTP m)"
    using lines False unfolding makeGatewayHTTP_def
    by (simp_all only: vhost_rule_def vhost_token_def if_True if_False sublist_tail)
  with assms(1) show ?thesis by (blast intro: head_has_gateway)
qed

text \<open>
  The token of a host is not unique: where two services have hosts with the same token (as
  \<open>a.b\<close> and \<open>a_b\<close> have), all requests for both hosts are sent to the service whose name comes
  last, and the table has no route to the other.
\<close>

theorem vhost_token_collision:
  assumes "v \<in> set (hosts_of vhosts a)" and "w \<in> set (hosts_of vhosts b)" and "a < b"
    and "claims kind suf tok v" and "claims kind suf tok w"
    and "\<forall>c. \<forall>u\<in>set (hosts_of vhosts c). claims kind suf tok u \<longrightarrow> c = a \<or> c = b"
  shows "map_of (routes suf (collect_vhosts kind sa ea d vhosts)) tok = Some b"
proof -
  let ?as = "filter (\<lambda>a. \<exists>v\<in>set (hosts_of vhosts a). claims kind suf tok v) (SortedVhostsKeys vhosts)"
  have "b \<in> dom (gm_get vhosts)" using assms(2) by (cases "gm_get vhosts b") auto
  then have "b \<in> set ?as" using assms(2,5) by (auto simp: vhost_keys.keys_set)
  moreover have "sorted ?as" by (rule sorted_wrt_filter) (rule vhost_keys.keys_sorted)
  moreover have "set ?as \<subseteq> {a, b}" using assms(6) by auto
  ultimately have "?as \<noteq> [] \<and> last ?as = b" by (rule last_greatest [OF _ _ _ assms(3)])
  then show ?thesis by (simp add: collect_vhosts_routes route_of_def Let_def)
qed

section \<open>An example\<close>

definition haproxy_example :: haproxy_mgr where
  "haproxy_example =
     \<lparr>hm_Enabled = True, hm_Verbose = False, hm_LocalHealthChecks = True, hm_FilterGroups = [''*''],
      hm_Address = ''0.0.0.0'', hm_GatewayEnabled = True, hm_GatewayAddr = ''0.0.0.0'',
      hm_GatewayPortHTTP = 80, hm_GatewayPortHTTPS = 443, hm_Executable = ''haproxy'',
      hm_ConfigPath = ''haproxy.cfg'', hm_ConfigTailPath = [], hm_OldConfigPath = ''haproxy.cfg.old'',
      hm_PidFile = ''haproxy.pid'', hm_ManagementPort = 8081, hm_ReloadInterval = 5000000000,
      hm_AdminSockPath = ''haproxy.sock'', hm_SyslogFacility = ''local1'', hm_BeforeCmd = [],
      hm_AfterCmd = [], hm_ReuseSocketPath = [], hm_EnableReuseSocket = False,
      hm_appConfigFragments = None, hm_appLabels = None, hm_appStateCache = None, hm_taskCells = [],
      hm_vhosts = None, hm_vhostDefault = [], hm_vhostsHTTPS = None, hm_vhostDefaultHTTPS = []\<rparr>"

text \<open>The expectation of src/haproxy_manager_test.go.\<close>

lemma upstreamServerConfig_test:
  "upstreamServerConfig example_env ''localhost'' 9999 '' check'' =
     ''  server localhost:9999 127.0.0.1:9999 check'' @ nl"
  by (simp add: upstreamServerConfig_def SoftResolveIPAddr_def example_env_def go_eval)

lemma Atoi_empty: "Atoi [] d = d"
  by (simp add: Atoi_def atoi_def sign_of_def)

definition cfg_task :: "string \<Rightarrow> string \<Rightarrow> uint list \<Rightarrow> task_status option \<Rightarrow> marathon_task" where
  "cfg_task tid host ports st = \<lparr>t_id = tid, t_appId = ''/api'', t_host = host, t_ports = ports,
     t_slaveId = [], t_state = st, t_healthResults = []\<rparr>"

definition cfg_app :: "labels \<Rightarrow> marathon_task list \<Rightarrow> marathon_app" where
  "cfg_app ls tasks = \<lparr>a_id = ''/api'', a_ports = [7000],
     a_portDefs = [\<lparr>pd_port = 7000, pd_protocol = ''tcp'', pd_labels = ls\<rparr>],
     a_labels = [], a_tasks = tasks, a_healthChecks = [], a_docker = None\<rparr>"

abbreviation cfg_tasks :: "marathon_task list" where
  "cfg_tasks \<equiv> [cfg_task ''t2'' ''slave2'' [31002] (Some TaskRunning),
     cfg_task ''t1'' ''slave1'' [31001] None, cfg_task ''t3'' ''slave1'' [31003] (Some TaskKilling)]"

lemmas cfg_eval = haproxy_example_def cfg_task_def cfg_app_def GetTransportProtocol_def
  GetApplicationProtocol_def GetHealthCheckProtocol_def GetHealthCheckForPortIndex_def
  go_nth_def makeStringArray_def label_def pd_label_def to_lower_def lower_ch_def
  sortTasks_def example_env_def insertion_sort_def task_less_def set_vhosts_def

theorem makeConfigForPort_servers_witness:
  "\<exists>m' app' s.
     makeConfigForPort example_env haproxy_example (cfg_app [] cfg_tasks) 0 = Ret (m', app', s) \<and>
     s = tcp_head ''api-0-7000'' ''0.0.0.0'' 7000 [] @ ''  option redispatch'' @ nl @ ''  retries 1'' @ nl @ concat (map (\<lambda>t. upstreamServerConfig example_env (t_host t) (t_ports t ! 0) '' check'')
       [cfg_task ''t1'' ''slave1'' [31001] None, cfg_task ''t2'' ''slave2'' [31002] (Some TaskRunning)]) @ nl"
proof -
  have tcp: "GetTransportProtocol (cfg_app [] cfg_tasks) 0 = ''tcp''" by (simp add: cfg_eval)
  have "\<exists>m' s. makeConfigForPort example_env haproxy_example (cfg_app [] cfg_tasks) 0 =
      Ret (m', cfg_app [] [cfg_task ''t1'' ''slave1'' [31001] None,
        cfg_task ''t3'' ''slave1'' [31003] (Some TaskKilling),
        cfg_task ''t2'' ''slave2'' [31002] (Some TaskRunning)], s)"
    by (simp add: makeConfigForPort_def PrettifyAppId_def cfg_eval Let_def)
  then obtain m' s where r: "makeConfigForPort example_env haproxy_example (cfg_app [] cfg_tasks) 0 =
      Ret (m', cfg_app [] [cfg_task ''t1'' ''slave1'' [31001] None,
        cfg_task ''t3'' ''slave1'' [31003] (Some TaskKilling),
        cfg_task ''t2'' ''slave2'' [31002] (Some TaskRunning)], s)" by blast
  have opts: "server_opts haproxy_example (a_portDefs (cfg_app [] cfg_tasks) ! 0)
      (GetHealthCheckForPortIndex (a_healthChecks (cfg_app [] cfg_tasks)) 0) = '' check''"
    by (simp add: server_opts_def Atoi_empty cfg_eval)
  have parts: "PrettifyAppId (a_id (cfg_app [] cfg_tasks)) 0 (pd_port (a_portDefs (cfg_app [] cfg_tasks) ! 0)) = Ret ''api-0-7000''"
    "protocol_head (GetApplicationProtocol (cfg_app [] cfg_tasks) 0) ''api-0-7000'' (hm_Address haproxy_example)
       (pd_port (a_portDefs (cfg_app [] cfg_tasks) ! 0)) (bind_opts (a_portDefs (cfg_app [] cfg_tasks) ! 0)) lg md p =
     tcp_head ''api-0-7000'' ''0.0.0.0'' 7000 []" for lg md p
    by (simp add: PrettifyAppId_def cfg_eval replace_ch_def go_eval)
      (simp add: protocol_head_def GetApplicationProtocol_def GetHealthCheckProtocol_def bind_opts_def Atoi_empty cfg_eval)
  have run: "filter (runs_on 0) [cfg_task ''t1'' ''slave1'' [31001] None, cfg_task ''t3'' ''slave1'' [31003] (Some TaskKilling),
      cfg_task ''t2'' ''slave2'' [31002] (Some TaskRunning)] =
    [cfg_task ''t1'' ''slave1'' [31001] None, cfg_task ''t2'' ''slave2'' [31002] (Some TaskRunning)]"
    by (simp add: runs_on_def cfg_task_def)
  have ts: "a_tasks (cfg_app [] ts) = ts" for ts by (simp add: cfg_app_def)
  from makeConfigForPort_servers [OF example_env_sort_ok tcp r, unfolded parts(1) go.inject ts run opts]
  have "s = tcp_head ''api-0-7000'' ''0.0.0.0'' 7000 [] @ ''  option redispatch'' @ nl @ ''  retries 1'' @ nl @
     concat (map (\<lambda>t. upstreamServerConfig example_env (t_host t) (t_ports t ! 0) '' check'')
       [cfg_task ''t1'' ''slave1'' [31001] None, cfg_task ''t2'' ''slave2'' [31002] (Some TaskRunning)]) @ nl"
    by (elim exE conjE) (hypsubst, simp only: parts(2))
  with r show ?thesis by (intro exI conjI)
qed

theorem vhost_routed_witness:
  "sublist (''  use_backend shop-0-80 if vhost_ssl_STAR_shop_io'' @ nl)
     (makeConfigHead (haproxy_example\<lparr>hm_vhostsHTTPS := Some [(''shop-0-80'', [''*.shop.io''])]\<rparr>))"
proof -
  let ?m = "haproxy_example\<lparr>hm_vhostsHTTPS := Some [(''shop-0-80'', [''*.shop.io''])]\<rparr>"
  have t: "vhost_token True ''*.shop.io'' = ''vhost_ssl_STAR_shop_io''"
    by (simp add: vhost_token_def matchToken_def replace_ch_def)
  have e: "hm_GatewayEnabled ?m" and tab: "gm_get (vhost_table True ?m) = [''shop-0-80'' \<mapsto> [''*.shop.io'']]"
    by (simp_all add: haproxy_example_def vhost_table_def gm_get_Some)
  have "sublist (use_backend ''shop-0-80'' (vhost_token True ''*.shop.io'')) (makeConfigHead ?m)"
    using vhost_routed [OF e, of True "''shop-0-80''" "[''*.shop.io'']" "''*.shop.io''"] tab
    by (simp split: if_splits)
  then show ?thesis by (simp add: t use_backend_def)
qed

theorem vhost_token_collision_witness:
  "map_of (ga_exactRoutes (collect_vhosts ''vhost_'' http_suffix_acl http_exact_acl []
     (Some [(''one-0-80'', [''a.io'']), (''two-0-80'', [''a_io''])]))) ''vhost_a_io'' = Some ''two-0-80''"
proof -
  let ?v = "Some [(''one-0-80'', [''a.io'']), (''two-0-80'', [''a_io''])] :: (string, string list) gomap"
  have c: "claims ''vhost_'' False ''vhost_a_io'' ''a.io''" "claims ''vhost_'' False ''vhost_a_io'' ''a_io''"
    by (simp_all add: claims_def is_suffix_vhost_def matchToken_def replace_ch_def)
  have "map_of (routes False (collect_vhosts ''vhost_'' http_suffix_acl http_exact_acl [] ?v)) ''vhost_a_io'' =
      Some ''two-0-80''"
    by (rule vhost_token_collision [where a = "''one-0-80''" and v = "''a.io''" and w = "''a_io''",
          OF _ _ _ c]) (auto simp: gm_get_Some list_less_def lexordp_def less_char_def split: if_splits)
  then show ?thesis by (simp add: routes_def)
qed

end
