(* ===== verification/Haproxy_Manager.thy ===== *)
theory Haproxy_Manager
  imports Haproxy_Config Handler
begin

text \<open>
  The HAProxy manager as a handler, the first half of src/haproxy_manager.go: \<open>Apply\<close>, \<open>Update\<close>
  and \<open>Remove\<close>, the cache of tasks, and the commands sent to HAProxy's admin socket. The three
  operations hold the mutex \<open>configWriteMutex\<close> from start to end, so each is one step.

  The cache holds pointers to tasks. The two loops that fill it pass the address of their loop
  variable, which is one variable for the whole loop in the Go versions this repository is built
  with (Godeps names 1.6), so the model allocates one cell per loop and overwrites it in each turn.

  The admin socket is a parameter: for a socket path and a command, whether the connection and
  the write succeed and whether a response can be read. The sent commands are recorded.

  The locale \<open>task_cache\<close> is the contract of the cache towards these loops.
\<close>

section \<open>The cache of tasks\<close>

definition clearAppStateCache :: "haproxy_mgr \<Rightarrow> haproxy_mgr" where
  "clearAppStateCache m = m\<lparr>hm_appStateCache := gm_make\<rparr>"

definition getAppStateCacheEntry :: "haproxy_mgr \<Rightarrow> string \<Rightarrow> string \<Rightarrow> task_ref option" where
  "getAppStateCacheEntry m appID taskID =
     (case gm_get (hm_appStateCache m) appID of
        Some app \<Rightarrow> gm_get app taskID
      | None \<Rightarrow> None)"

definition setAppStateCacheEntry :: "haproxy_mgr \<Rightarrow> task_ref \<Rightarrow> haproxy_mgr go" where
  "setAppStateCacheEntry m ref =
     go_bind (go_nth (hm_taskCells m) ref) (\<lambda>task.
       let app = (case gm_get (hm_appStateCache m) (t_appId task) of
                    Some app \<Rightarrow> app
                  | None \<Rightarrow> gm_make) in
       go_bind (gm_put app (t_id task) ref) (\<lambda>app'.
       go_bind (gm_put (hm_appStateCache m) (t_appId task) app') (\<lambda>cache.
         Ret (m\<lparr>hm_appStateCache := cache\<rparr>))))"

definition removeAppStateCacheEntry :: "haproxy_mgr \<Rightarrow> string \<Rightarrow> string \<Rightarrow> haproxy_mgr go" where
  "removeAppStateCacheEntry m appID taskID =
     (let app = (case gm_get (hm_appStateCache m) appID of Some app \<Rightarrow> app | None \<Rightarrow> None) in
      if length (gm_keys app) \<noteq> 0 then
        let app' = gm_delete app taskID in
        go_bind (gm_put (hm_appStateCache m) appID app') (\<lambda>cache.
          Ret (m\<lparr>hm_appStateCache :=
            (if length (gm_keys app') = 0 then gm_delete cache appID else cache)\<rparr>))
      else Ret m)"

definition write_cell :: "haproxy_mgr \<Rightarrow> task_ref \<Rightarrow> marathon_task \<Rightarrow> haproxy_mgr" where
  "write_cell m ref task = m\<lparr>hm_taskCells := (hm_taskCells m)[ref := task]\<rparr>"

text \<open>\<open>for _, task := range app.Tasks { manager.setAppStateCacheEntry(&task) }\<close>\<close>

definition cacheTasks :: "haproxy_mgr \<Rightarrow> marathon_task list \<Rightarrow> haproxy_mgr go" where
  "cacheTasks m tasks =
     (case tasks of
        [] \<Rightarrow> Ret m
      | first # _ \<Rightarrow>
          let ref = length (hm_taskCells m) in
          go_fold (\<lambda>m task. setAppStateCacheEntry (write_cell m ref task) ref)
            (m\<lparr>hm_taskCells := hm_taskCells m @ [first]\<rparr>) tasks)"

section \<open>Commands\<close>

datatype send_result = Answered | Unanswered go_error | Unsent go_error

type_synonym admin_socket = "string \<Rightarrow> string \<Rightarrow> send_result"

definition sendCommandf :: "admin_socket \<Rightarrow> haproxy_mgr \<Rightarrow> string \<Rightarrow> string list \<times> go_error option" where
  "sendCommandf admin m cmd =
     (case admin (hm_AdminSockPath m) cmd of
        Answered \<Rightarrow> ([cmd], None)
      | Unanswered e \<Rightarrow> ([cmd], Some e)
      | Unsent e \<Rightarrow> ([], Some e))"

fun send_all :: "admin_socket \<Rightarrow> haproxy_mgr \<Rightarrow> (string \<Rightarrow> string) \<Rightarrow> string list \<Rightarrow> string list \<times> go_error option" where
  "send_all admin m updateCommandFmt [] = ([], None)"
| "send_all admin m updateCommandFmt (instanceName # rest) =
     (case sendCommandf admin m (updateCommandFmt instanceName) of
        (sent, Some e) \<Rightarrow> (sent, Some e)
      | (sent, None) \<Rightarrow>
          (let (sent', err) = send_all admin m updateCommandFmt rest in (sent @ sent', err)))"

definition enable_server :: "string \<Rightarrow> string" where
  "enable_server name = concat [''enable server '', name, nl]"

definition disable_server :: "string \<Rightarrow> string" where
  "disable_server name = concat [''disable server '', name, nl]"

text \<open>The name of a task's server in the configuration of a port.\<close>

definition task_label :: "string \<Rightarrow> marathon_task \<Rightarrow> uint \<Rightarrow> string" where
  "task_label appID task port = concat [appID, ''/'', t_host task, '':'', uint_str port]"

fun instance_names :: "host_env \<Rightarrow> haproxy_mgr \<Rightarrow> marathon_app \<Rightarrow> string \<Rightarrow> nat \<Rightarrow> uint list \<Rightarrow> string list go" where
  "instance_names env m app taskID portIndex [] = Ret []"
| "instance_names env m app taskID portIndex (servicePort # rest) =
     (if GetTransportProtocol app portIndex = ''tcp'' then
        go_bind (PrettifyAppId (a_id app) portIndex servicePort) (\<lambda>appID.
        go_bind (case getAppStateCacheEntry m (a_id app) taskID of
                   Some ref \<Rightarrow> go_bind (go_nth (hm_taskCells m) ref) (\<lambda>t. Ret (Some t))
                 | None \<Rightarrow> Ret (env_getTask env app taskID)) (\<lambda>cachedTask.
          case cachedTask of
            Some task \<Rightarrow>
              go_bind (go_nth (t_ports task) portIndex) (\<lambda>port.
              go_bind (instance_names env m app taskID (Suc portIndex) rest) (\<lambda>names.
                Ret (task_label appID task port # names)))
          | None \<Rightarrow> instance_names env m app taskID (Suc portIndex) rest))
      else instance_names env m app taskID (Suc portIndex) rest)"

definition isAppJustSpawned :: "marathon_app \<Rightarrow> bool" where
  "isAppJustSpawned app =
     (case a_tasks app of
        [] \<Rightarrow> False
      | task # _ \<Rightarrow> list_all (\<lambda>hsr. hcr_lastFailure hsr = None) (t_healthResults task))"

section \<open>The operations\<close>

text \<open>The state with the commands sent so far; the operations also return the applications, as
  sorted by the rendering.\<close>

type_synonym haproxy_state = "haproxy_mgr \<times> string list"

definition put_config :: "host_env \<Rightarrow> haproxy_mgr \<Rightarrow> marathon_app \<Rightarrow> (haproxy_mgr \<times> marathon_app) go" where
  "put_config env m app =
     go_bind (makeConfig env m app) (\<lambda>(m1, app', config).
     go_bind (gm_put (hm_appConfigFragments m1) (a_id app') config) (\<lambda>fragments.
     go_bind (cacheTasks (m1\<lparr>hm_appConfigFragments := fragments\<rparr>) (a_tasks app')) (\<lambda>m2.
       Ret (m2, app'))))"

fun put_configs :: "host_env \<Rightarrow> haproxy_mgr \<Rightarrow> marathon_app list \<Rightarrow> (haproxy_mgr \<times> marathon_app list) go" where
  "put_configs env m [] = Ret (m, [])"
| "put_configs env m (app # apps) =
     go_bind (put_config env m app) (\<lambda>(m1, app').
     go_bind (put_configs env m1 apps) (\<lambda>(m2, apps'). Ret (m2, app' # apps')))"

definition apply_reset :: "haproxy_mgr \<Rightarrow> haproxy_mgr" where
  "apply_reset m =
     (clearAppStateCache (m\<lparr>hm_appConfigFragments := gm_make\<rparr>))
       \<lparr>hm_vhosts := gm_make, hm_vhostDefault := [], hm_vhostsHTTPS := gm_make,
        hm_vhostDefaultHTTPS := []\<rparr>"

definition haproxy_ApplyApps :: "host_env \<Rightarrow> haproxy_mgr \<Rightarrow> marathon_app list
    \<Rightarrow> (haproxy_mgr \<times> marathon_app list) go" where
  "haproxy_ApplyApps env m apps = put_configs env (apply_reset m) apps"

definition haproxy_UpdateApp :: "host_env \<Rightarrow> admin_socket \<Rightarrow> haproxy_mgr \<Rightarrow> marathon_app \<Rightarrow> string
    \<Rightarrow> (haproxy_mgr \<times> marathon_app \<times> string list \<times> go_error option) go" where
  "haproxy_UpdateApp env admin m app taskID =
     go_bind (instance_names env m app taskID 0 (a_ports app)) (\<lambda>instanceNames.
     go_bind (put_config env m app) (\<lambda>(m1, app').
       let task = env_getTask env app' taskID;
           alive = (case task of Some t \<Rightarrow> env_isAlive env t | None \<Rightarrow> False) in
       if alive \<and> (length (a_healthChecks app') = 0 \<or> isAppJustSpawned app') then Ret (m1, app', [], None)
       else
         let (sent, err) = send_all admin m1 (if alive then enable_server else disable_server) instanceNames in
         Ret (m1, app', sent, err)))"

definition haproxy_RemoveApp :: "host_env \<Rightarrow> haproxy_mgr \<Rightarrow> string \<Rightarrow> string \<Rightarrow> marathon_app option
    \<Rightarrow> (haproxy_mgr \<times> marathon_app option) go" where
  "haproxy_RemoveApp env m appID taskID appo =
     (case appo of
        Some app \<Rightarrow>
          go_bind (makeConfig env m app) (\<lambda>(m1, app', config).
          go_bind (if length (a_tasks app') > 0 then gm_put (hm_appConfigFragments m1) appID config
                   else Ret (gm_delete (hm_appConfigFragments m1) appID)) (\<lambda>fragments.
          go_bind (removeAppStateCacheEntry (m1\<lparr>hm_appConfigFragments := fragments\<rparr>) appID taskID) (\<lambda>m2.
            Ret (m2, Some app'))))
      | None \<Rightarrow>
          go_bind (removeAppStateCacheEntry
              (m\<lparr>hm_appConfigFragments := gm_delete (hm_appConfigFragments m) appID\<rparr>) appID taskID) (\<lambda>m2.
            Ret (m2, None)))"

definition haproxy_SetEnabled :: "haproxy_mgr \<Rightarrow> bool \<Rightarrow> haproxy_mgr" where
  "haproxy_SetEnabled m b = (if b \<noteq> hm_Enabled m then m\<lparr>hm_Enabled := b\<rparr> else m)"

definition haproxy_Apply :: "host_env \<Rightarrow> haproxy_state \<Rightarrow> marathon_app list \<Rightarrow> haproxy_state handler_result" where
  "haproxy_Apply env s apps =
     go_bind (haproxy_ApplyApps env (fst s) apps) (\<lambda>(m, _). Ret ((m, snd s), None))"

definition haproxy_Update :: "host_env \<Rightarrow> admin_socket \<Rightarrow> haproxy_state \<Rightarrow> marathon_app \<Rightarrow> string
    \<Rightarrow> haproxy_state handler_result" where
  "haproxy_Update env admin s app taskID =
     go_bind (haproxy_UpdateApp env admin (fst s) app taskID) (\<lambda>(m, _, sent, err).
       Ret ((m, snd s @ sent), err))"

definition haproxy_Remove :: "host_env \<Rightarrow> haproxy_state \<Rightarrow> string \<Rightarrow> string \<Rightarrow> marathon_app option
    \<Rightarrow> haproxy_state handler_result" where
  "haproxy_Remove env s appID taskID appo =
     go_bind (haproxy_RemoveApp env (fst s) appID taskID appo) (\<lambda>(m, _). Ret ((m, snd s), None))"

section \<open>The contract of the cache\<close>

locale task_cache =
  fixes lookup :: "'s \<Rightarrow> string \<Rightarrow> string \<Rightarrow> 'r option"
    and enter :: "'s \<Rightarrow> 'r \<Rightarrow> 's go"
    and drop_entry :: "'s \<Rightarrow> string \<Rightarrow> string \<Rightarrow> 's go"
    and cell :: "'s \<Rightarrow> 'r \<Rightarrow> marathon_task option"
    and assign :: "'s \<Rightarrow> 'r \<Rightarrow> marathon_task \<Rightarrow> 's"
    and ready :: "'s \<Rightarrow> bool"
  assumes enter_ok: "ready s \<Longrightarrow> cell s r = Some t \<Longrightarrow>
      \<exists>s'. enter s r = Ret s' \<and> ready s' \<and> cell s' = cell s \<and>
        (\<forall>a i. lookup s' a i = (if a = t_appId t \<and> i = t_id t then Some r else lookup s a i))"
    and drop_ok: "ready s \<Longrightarrow>
      \<exists>s'. drop_entry s a i = Ret s' \<and> ready s' \<and> cell s' = cell s \<and>
        (\<forall>b j. lookup s' b j = (if b = a \<and> j = i then None else lookup s b j))"
    and assign_cell: "cell s r \<noteq> None \<Longrightarrow> cell (assign s r t) = (cell s)(r \<mapsto> t)"
    and assign_lookup: "lookup (assign s r t) = lookup s"
    and assign_ready: "ready (assign s r t) = ready s"
begin

text \<open>
  A loop that enters the address of its variable: afterwards every task of the loop is found, but
  the cell it is found in holds the last task.
\<close>

lemma loop_aliases:
  assumes "ready s" and "cell s r \<noteq> None" and "ts \<noteq> []"
  shows "\<exists>s'. go_fold (\<lambda>s t. enter (assign s r t) r) s ts = Ret s' \<and> ready s' \<and>
    cell s' = (cell s)(r \<mapsto> last ts) \<and>
    (\<forall>a i. lookup s' a i = (if \<exists>t\<in>set ts. t_appId t = a \<and> t_id t = i then Some r else lookup s a i))"
  using assms
proof (induction ts arbitrary: s)
  case (Cons t ts)
  let ?s0 = "assign s r t"
  have c0: "cell ?s0 = (cell s)(r \<mapsto> t)" by (rule assign_cell [OF Cons.prems(2)])
  have "ready ?s0" using Cons.prems(1) by (simp add: assign_ready)
  from enter_ok [OF this, of r t] c0 obtain s1 where
    s1: "enter ?s0 r = Ret s1" "ready s1" "cell s1 = (cell s)(r \<mapsto> t)"
    "\<forall>a i. lookup s1 a i = (if a = t_appId t \<and> i = t_id t then Some r else lookup s a i)"
    by (auto simp: assign_lookup)
  show ?case
  proof (cases "ts = []")
    case True
    with s1 show ?thesis by auto
  next
    case False
    from s1(3) have "cell s1 r \<noteq> None" by simp
    from Cons.IH [OF s1(2) this False] obtain s' where
      s': "go_fold (\<lambda>s t. enter (assign s r t) r) s1 ts = Ret s'" "ready s'"
      "cell s' = (cell s1)(r \<mapsto> last ts)"
      "\<forall>a i. lookup s' a i = (if \<exists>t\<in>set ts. t_appId t = a \<and> t_id t = i then Some r else lookup s1 a i)"
      by blast
    have "\<forall>a i. lookup s' a i = (if \<exists>u\<in>set (t # ts). t_appId u = a \<and> t_id u = i then Some r else lookup s a i)"
      using s'(4) s1(4) by auto
    moreover have "go_fold (\<lambda>s t. enter (assign s r t) r) s (t # ts) = Ret s'"
      using s1(1) s'(1) by simp
    moreover have "cell s' = (cell s)(r \<mapsto> last (t # ts))"
      using s'(3) s1(3) False by (simp only: fun_upd_upd last.simps if_False)
    ultimately show ?thesis using s'(2) by blast
  qed
qed simp

end

definition task_cell :: "haproxy_mgr \<Rightarrow> task_ref \<Rightarrow> marathon_task option" where
  "task_cell m ref = (if ref < length (hm_taskCells m) then Some (hm_taskCells m ! ref) else None)"

definition cache_ready :: "haproxy_mgr \<Rightarrow> bool" where
  "cache_ready m \<longleftrightarrow> hm_appStateCache m \<noteq> None \<and>
     (\<forall>a app. gm_get (hm_appStateCache m) a = Some app \<longrightarrow> app \<noteq> None)"

lemma gm_get_no_keys: "gm_keys m = [] \<Longrightarrow> gm_get m k = None"
  using set_gm_keys [of m] by (metis domIff empty_iff empty_set)

lemma enter_cache:
  assumes "cache_ready m" and "task_cell m ref = Some t"
  shows "\<exists>m'. setAppStateCacheEntry m ref = Ret m' \<and> cache_ready m' \<and> task_cell m' = task_cell m \<and>
    (\<forall>a i. getAppStateCacheEntry m' a i =
       (if a = t_appId t \<and> i = t_id t then Some ref else getAppStateCacheEntry m a i))"
proof -
  from assms(2) have ref: "go_nth (hm_taskCells m) ref = Ret t"
    by (auto simp: task_cell_def go_nth_def split: if_splits)
  define app where "app = (case gm_get (hm_appStateCache m) (t_appId t) of Some app \<Rightarrow> app | None \<Rightarrow> gm_make)"
  have "app \<noteq> None" using assms(1) by (auto simp: app_def cache_ready_def gm_make_def split: option.splits)
  from gm_put_returns [OF this] obtain app' where app': "gm_put app (t_id t) ref = Ret app'" "app' \<noteq> None"
    by blast
  from assms(1) have "hm_appStateCache m \<noteq> None" by (simp add: cache_ready_def)
  from gm_put_returns [OF this] obtain cache where
    cache: "gm_put (hm_appStateCache m) (t_appId t) app' = Ret cache" "cache \<noteq> None" by blast
  note g = gm_get_put [OF app'(1)] gm_get_put [OF cache(1)]
  let ?m' = "m\<lparr>hm_appStateCache := cache\<rparr>"
  have "setAppStateCacheEntry m ref = Ret ?m'"
    using ref app'(1) cache(1) by (simp add: setAppStateCacheEntry_def app_def)
  moreover have "cache_ready ?m'" using assms(1) app'(2) cache(2) by (simp add: cache_ready_def g)
  moreover have "task_cell ?m' = task_cell m" by (simp add: task_cell_def fun_eq_iff)
  moreover have "getAppStateCacheEntry ?m' a i =
       (if a = t_appId t \<and> i = t_id t then Some ref else getAppStateCacheEntry m a i)" for a i
    by (auto simp: getAppStateCacheEntry_def g app_def split: option.splits)
  ultimately show ?thesis by blast
qed

lemma drop_cache:
  assumes "cache_ready m"
  shows "\<exists>m'. removeAppStateCacheEntry m a i = Ret m' \<and> cache_ready m' \<and> task_cell m' = task_cell m \<and>
    (\<forall>b j. getAppStateCacheEntry m' b j = (if b = a \<and> j = i then None else getAppStateCacheEntry m b j))"
proof -
  define app where "app = (case gm_get (hm_appStateCache m) a of Some app \<Rightarrow> app | None \<Rightarrow> None)"
  show ?thesis
  proof (cases "gm_keys app = []")
    case True
    then have "removeAppStateCacheEntry m a i = Ret m" by (simp add: removeAppStateCacheEntry_def app_def)
    moreover have "getAppStateCacheEntry m a i = None"
      using gm_get_no_keys [OF True] by (auto simp: getAppStateCacheEntry_def app_def split: option.splits)
    ultimately show ?thesis using assms by auto
  next
    case False
    then have some: "gm_get (hm_appStateCache m) a = Some app" and "app \<noteq> None"
      by (auto simp: app_def gm_keys_def split: option.splits)
    from assms have "hm_appStateCache m \<noteq> None" by (simp add: cache_ready_def)
    from gm_put_returns [OF this] obtain cache where
      cache: "gm_put (hm_appStateCache m) a (gm_delete app i) = Ret cache" "cache \<noteq> None" by blast
    note g = gm_get_put [OF cache(1)] gm_get_delete
    define m' where "m' = m\<lparr>hm_appStateCache :=
      (if length (gm_keys (gm_delete app i)) = 0 then gm_delete cache a else cache)\<rparr>"
    have r: "removeAppStateCacheEntry m a i = Ret m'"
      using False cache(1) some by (simp add: removeAppStateCacheEntry_def m'_def)
    have "hm_appStateCache m' \<noteq> None" using cache(2) by (auto simp: m'_def gm_delete_def)
    moreover have "x \<noteq> None" if "gm_get (hm_appStateCache m') b = Some x" for b x
    proof (cases "b = a")
      case True
      have "gm_delete app i \<noteq> None" using \<open>app \<noteq> None\<close> by simp
      moreover from that True have "x = gm_delete app i" by (auto simp: m'_def g split: if_splits)
      ultimately show ?thesis by simp
    next
      case False
      with that have "gm_get (hm_appStateCache m) b = Some x" by (simp add: m'_def g split: if_splits)
      with assms show ?thesis by (simp add: cache_ready_def)
    qed
    ultimately have "cache_ready m'" unfolding cache_ready_def by blast
    moreover have "task_cell m' = task_cell m" by (simp add: task_cell_def fun_eq_iff m'_def)
    moreover have "getAppStateCacheEntry m' b j =
        (if b = a \<and> j = i then None else getAppStateCacheEntry m b j)" for b j
    proof (cases "b = a")
      case True
      have "gm_get (gm_delete app i) j = None" if "gm_keys (gm_delete app i) = []"
        by (rule gm_get_no_keys [OF that])
      with True some show ?thesis by (auto simp: getAppStateCacheEntry_def m'_def g split: if_splits)
    next
      case False
      then show ?thesis by (simp add: getAppStateCacheEntry_def m'_def g)
    qed
    ultimately show ?thesis using r by blast
  qed
qed

interpretation cache: task_cache getAppStateCacheEntry setAppStateCacheEntry removeAppStateCacheEntry
    task_cell write_cell cache_ready
proof unfold_locales
  fix m :: haproxy_mgr and r t
  show "task_cell m r \<noteq> None \<Longrightarrow> task_cell (write_cell m r t) = (task_cell m)(r \<mapsto> t)"
    by (auto simp: task_cell_def write_cell_def fun_eq_iff nth_list_update split: if_splits)
  show "getAppStateCacheEntry (write_cell m r t) = getAppStateCacheEntry m"
    by (simp add: getAppStateCacheEntry_def write_cell_def fun_eq_iff)
  show "cache_ready (write_cell m r t) = cache_ready m"
    by (simp add: cache_ready_def write_cell_def)
qed (fact enter_cache drop_cache)+

section \<open>What rendering changes\<close>

definition blank_vhosts :: "haproxy_mgr \<Rightarrow> haproxy_mgr" where
  "blank_vhosts m = m\<lparr>hm_vhosts := None, hm_vhostDefault := [], hm_vhostsHTTPS := None,
     hm_vhostDefaultHTTPS := [], hm_appLabels := None\<rparr>"

definition vhosts_ok :: "(string, string list) gomap \<Rightarrow> string \<Rightarrow> bool" where
  "vhosts_ok vhosts d \<longleftrightarrow>
     gm_ok vhosts \<and> (\<forall>a. gm_get vhosts a \<noteq> Some []) \<and> (d = [] \<or> gm_get vhosts d \<noteq> None)"

lemma set_vhosts_ok:
  assumes "vhosts_ok v d" and "set_vhosts v d a hosts flag = Ret (v', d')"
  shows "vhosts_ok v' d'"
proof (cases "hosts = []")
  case True
  with assms show ?thesis
    by (auto simp: vhosts_ok_def set_vhosts_def gm_ok_delete gm_get_delete split: if_splits)
next
  case False
  with assms(2) have p: "gm_put v a hosts = Ret v'" and d: "d' = (if flag = ''1'' then a else d)"
    by (auto simp: set_vhosts_def go_bind_eq_Ret)
  from assms(1) False show ?thesis
    by (auto simp: vhosts_ok_def gm_ok_put [OF _ p] gm_get_put [OF p] d split: if_splits)
qed

definition tables_ok :: "haproxy_mgr \<Rightarrow> bool" where
  "tables_ok m \<longleftrightarrow> vhosts_ok (hm_vhosts m) (hm_vhostDefault m) \<and>
     vhosts_ok (hm_vhostsHTTPS m) (hm_vhostDefaultHTTPS m)"

lemma makeConfigForPort_step:
  assumes "makeConfigForPort env m app i = Ret (m', app', s)"
  shows "blank_vhosts m' = blank_vhosts m \<and> (tables_ok m \<longrightarrow> tables_ok m') \<and> a_id app' = a_id app \<and>
    hm_FilterGroups m' = hm_FilterGroups m"
  using assms
  by (auto simp: makeConfigForPort_def go_bind_eq_Ret Let_def blank_vhosts_def tables_ok_def
      split: if_splits dest: set_vhosts_ok)

lemma config_ports_step:
  "config_ports env m app r i pds = Ret (m', app', s) \<Longrightarrow>
   blank_vhosts m' = blank_vhosts m \<and> (tables_ok m \<longrightarrow> tables_ok m') \<and> a_id app' = a_id app"
proof (induction pds arbitrary: m app r i)
  case (Cons pd pds)
  show ?case
  proof (cases "isGroupIncluded m (pd_label pd ''lb-group'')")
    case True
    with Cons.prems obtain m1 app1 s1 where 1: "makeConfigForPort env m app i = Ret (m1, app1, s1)"
      and 2: "config_ports env m1 app1 (r @ s1) (Suc i) pds = Ret (m', app', s)"
      by (auto simp: go_bind_eq_Ret)
    from makeConfigForPort_step [OF 1] Cons.IH [OF 2] show ?thesis by auto
  next
    case False
    with Cons show ?thesis by auto
  qed
qed simp

lemma makeConfig_step:
  assumes "makeConfig env m app = Ret (m', app', s)"
  shows "blank_vhosts m' = blank_vhosts m" and "tables_ok m \<Longrightarrow> tables_ok m'" and "a_id app' = a_id app"
proof -
  from assms obtain l where "config_ports env (m\<lparr>hm_appLabels := l\<rparr>) app [] 0 (a_portDefs app) = Ret (m', app', s)"
    by (auto simp: makeConfig_def go_bind_eq_Ret Let_def)
  from config_ports_step [OF this] show "blank_vhosts m' = blank_vhosts m"
    and "tables_ok m \<Longrightarrow> tables_ok m'" and "a_id app' = a_id app"
    by (auto simp: blank_vhosts_def tables_ok_def)
qed

lemma blank_vhosts_fields:
  assumes "blank_vhosts m' = blank_vhosts m"
  shows "hm_appConfigFragments m' = hm_appConfigFragments m" and "hm_appStateCache m' = hm_appStateCache m"
    and "hm_taskCells m' = hm_taskCells m" and "hm_AdminSockPath m' = hm_AdminSockPath m"
  using arg_cong [OF assms, of hm_appConfigFragments] arg_cong [OF assms, of hm_appStateCache]
    arg_cong [OF assms, of hm_taskCells] arg_cong [OF assms, of hm_AdminSockPath]
  by (simp_all add: blank_vhosts_def)

section \<open>What the cache changes\<close>

definition blank_cache :: "haproxy_mgr \<Rightarrow> haproxy_mgr" where
  "blank_cache m = m\<lparr>hm_appStateCache := None, hm_taskCells := []\<rparr>"

lemma setAppStateCacheEntry_step:
  "setAppStateCacheEntry m ref = Ret m' \<Longrightarrow> blank_cache m' = blank_cache m"
  by (auto simp: setAppStateCacheEntry_def go_bind_eq_Ret Let_def blank_cache_def)

lemma removeAppStateCacheEntry_step:
  assumes "removeAppStateCacheEntry m a i = Ret m'"
  shows "blank_cache m' = blank_cache m"
proof -
  define app where "app = (case gm_get (hm_appStateCache m) a of Some app \<Rightarrow> app | None \<Rightarrow> None)"
  have "m' = m \<or> (\<exists>cache. m' = m\<lparr>hm_appStateCache := cache\<rparr>)"
    using assms unfolding removeAppStateCacheEntry_def app_def [symmetric]
    by (cases "gm_keys app = []") (auto simp: go_bind_eq_Ret Let_def)
  then show ?thesis by (auto simp: blank_cache_def)
qed

lemma cacheTasks_step:
  assumes "cacheTasks m ts = Ret m'"
  shows "blank_cache m' = blank_cache m"
proof (cases ts)
  case (Cons t rest)
  let ?r = "length (hm_taskCells m)"
  from assms Cons have "go_fold (\<lambda>m t. setAppStateCacheEntry (write_cell m ?r t) ?r)
      (m\<lparr>hm_taskCells := hm_taskCells m @ [t]\<rparr>) ts = Ret m'"
    by (simp add: cacheTasks_def Let_def)
  then show ?thesis
  proof (rule go_fold_invariant)
    show "blank_cache (m\<lparr>hm_taskCells := hm_taskCells m @ [t]\<rparr>) = blank_cache m"
      by (simp add: blank_cache_def)
    fix n x n'
    assume "blank_cache n = blank_cache m" and "setAppStateCacheEntry (write_cell n ?r x) ?r = Ret n'"
    with setAppStateCacheEntry_step [OF this(2)] show "blank_cache n' = blank_cache m"
      by (simp add: blank_cache_def write_cell_def)
  qed
qed (use assms in \<open>simp add: cacheTasks_def\<close>)

lemma blank_cache_fields:
  assumes "blank_cache m' = blank_cache m"
  shows "hm_appConfigFragments m' = hm_appConfigFragments m" and "tables_ok m' = tables_ok m"
    and "hm_AdminSockPath m' = hm_AdminSockPath m"
  using arg_cong [OF assms, of hm_appConfigFragments] arg_cong [OF assms, of tables_ok]
    arg_cong [OF assms, of hm_AdminSockPath]
  by (simp_all add: blank_cache_def tables_ok_def)

lemma remove_keeps_fragments:
  "removeAppStateCacheEntry m aid tid = Ret m' \<Longrightarrow> hm_appConfigFragments m' = hm_appConfigFragments m"
  by (rule blank_cache_fields(1)) (rule removeAppStateCacheEntry_step)

lemma cacheTasks_finds:
  assumes "cache_ready m" and "ts \<noteq> []"
  shows "\<exists>m'. cacheTasks m ts = Ret m' \<and> cache_ready m' \<and>
    task_cell m' = (task_cell m)(length (hm_taskCells m) \<mapsto> last ts) \<and>
    (\<forall>a i. getAppStateCacheEntry m' a i =
       (if \<exists>t\<in>set ts. t_appId t = a \<and> t_id t = i then Some (length (hm_taskCells m))
        else getAppStateCacheEntry m a i))"
proof -
  obtain t rest where ts: "ts = t # rest" using assms(2) by (cases ts) auto
  let ?r = "length (hm_taskCells m)" and ?m0 = "m\<lparr>hm_taskCells := hm_taskCells m @ [t]\<rparr>"
  have ready: "cache_ready ?m0" using assms(1) by (simp add: cache_ready_def)
  have same: "getAppStateCacheEntry ?m0 = getAppStateCacheEntry m"
    by (simp add: getAppStateCacheEntry_def fun_eq_iff)
  have cells: "task_cell ?m0 = (task_cell m)(?r \<mapsto> t)"
    by (auto simp: task_cell_def fun_eq_iff nth_append)
  then have "task_cell ?m0 ?r \<noteq> None" by simp
  from cache.loop_aliases [OF ready this assms(2)] obtain m' where
    "go_fold (\<lambda>m t. setAppStateCacheEntry (write_cell m ?r t) ?r) ?m0 ts = Ret m'" "cache_ready m'"
    "task_cell m' = (task_cell ?m0)(?r \<mapsto> last ts)"
    "\<forall>a i. getAppStateCacheEntry m' a i =
       (if \<exists>t\<in>set ts. t_appId t = a \<and> t_id t = i then Some ?r else getAppStateCacheEntry ?m0 a i)"
    by blast
  moreover have "cacheTasks m ts = go_fold (\<lambda>m t. setAppStateCacheEntry (write_cell m ?r t) ?r) ?m0 ts"
    by (simp add: cacheTasks_def ts Let_def)
  ultimately show ?thesis by (auto simp: same cells)
qed

section \<open>The cache as it is seen\<close>

definition refs_ok :: "haproxy_mgr \<Rightarrow> bool" where
  "refs_ok m \<longleftrightarrow> (\<forall>a i r. getAppStateCacheEntry m a i = Some r \<longrightarrow> r < length (hm_taskCells m))"

definition cache_view :: "haproxy_mgr \<Rightarrow> string \<Rightarrow> string \<Rightarrow> marathon_task option" where
  "cache_view m a i =
     (case getAppStateCacheEntry m a i of None \<Rightarrow> None | Some r \<Rightarrow> task_cell m r)"

lemma refs_ok_iff:
  "refs_ok m \<longleftrightarrow> (\<forall>a i r. getAppStateCacheEntry m a i = Some r \<longrightarrow> (\<exists>t. task_cell m r = Some t))"
  by (auto simp: refs_ok_def task_cell_def)

lemma cacheTasks_view:
  assumes "cache_ready m" and "refs_ok m"
  shows "\<exists>m'. cacheTasks m ts = Ret m' \<and> cache_ready m' \<and> refs_ok m' \<and>
    cache_view m' = (\<lambda>a i. if \<exists>t\<in>set ts. t_appId t = a \<and> t_id t = i then Some (last ts)
                           else cache_view m a i)"
proof (cases "ts = []")
  case True
  with assms show ?thesis by (simp add: cacheTasks_def)
next
  case False
  let ?r = "length (hm_taskCells m)"
  from cacheTasks_finds [OF assms(1) False] obtain m' where
    m': "cacheTasks m ts = Ret m'" "cache_ready m'" "task_cell m' = (task_cell m)(?r \<mapsto> last ts)"
    "\<forall>a i. getAppStateCacheEntry m' a i = (if \<exists>t\<in>set ts. t_appId t = a \<and> t_id t = i then Some ?r
        else getAppStateCacheEntry m a i)" by blast
  have "refs_ok m'"
    using assms(2) m'(3,4) by (auto simp: refs_ok_iff split: if_splits)
  moreover have "cache_view m' = (\<lambda>a i. if \<exists>t\<in>set ts. t_appId t = a \<and> t_id t = i then Some (last ts)
      else cache_view m a i)"
  proof (intro ext)
    fix a i
    show "cache_view m' a i = (if \<exists>t\<in>set ts. t_appId t = a \<and> t_id t = i then Some (last ts)
        else cache_view m a i)"
    proof (cases "\<exists>t\<in>set ts. t_appId t = a \<and> t_id t = i")
      case True
      with m'(3,4) show ?thesis by (simp add: cache_view_def)
    next
      case False
      with m'(4) have same: "getAppStateCacheEntry m' a i = getAppStateCacheEntry m a i" by (simp only: if_False)
      have "cache_view m' a i = cache_view m a i"
      proof (cases "getAppStateCacheEntry m a i")
        case None
        with same show ?thesis by (simp add: cache_view_def)
      next
        case (Some r)
        with assms(2) have "r \<noteq> ?r" by (auto simp: refs_ok_def)
        with same Some m'(3) show ?thesis by (simp add: cache_view_def)
      qed
      with False show ?thesis by (simp only: if_False)
    qed
  qed
  ultimately show ?thesis using m'(1,2) by blast
qed

lemma cacheTasks_nil: "hm_appStateCache m = None \<Longrightarrow> cacheTasks m (t # ts) = Panic NilMapWrite"
proof -
  assume "hm_appStateCache m = None"
  then show ?thesis
    by (simp add: cacheTasks_def Let_def setAppStateCacheEntry_def write_cell_def go_nth_def)
qed

section \<open>The invariant\<close>

definition haproxy_ok :: "haproxy_mgr \<Rightarrow> bool" where
  "haproxy_ok m \<longleftrightarrow> gm_ok (hm_appConfigFragments m) \<and> tables_ok m \<and>
     (hm_appStateCache m = None \<or> cache_ready m) \<and> refs_ok m"

lemma refs_ok_cong:
  "hm_appStateCache m' = hm_appStateCache m \<Longrightarrow> hm_taskCells m' = hm_taskCells m \<Longrightarrow> refs_ok m' = refs_ok m"
  "hm_appStateCache m' = hm_appStateCache m \<Longrightarrow> cache_ready m' = cache_ready m"
  by (simp_all add: refs_ok_def getAppStateCacheEntry_def cache_ready_def)

lemma haproxy_ok_makeConfig:
  assumes "haproxy_ok m" and "makeConfig env m app = Ret (m', app', s)"
  shows "haproxy_ok m'"
  using assms(1) makeConfig_step [OF assms(2)] blank_vhosts_fields [OF makeConfig_step(1) [OF assms(2)]]
    refs_ok_cong [of m' m]
  by (simp add: haproxy_ok_def)

lemma haproxy_ok_fragments:
  "haproxy_ok m \<Longrightarrow> gm_ok f \<Longrightarrow> haproxy_ok (m\<lparr>hm_appConfigFragments := f\<rparr>)"
  by (simp add: haproxy_ok_def tables_ok_def refs_ok_def cache_ready_def getAppStateCacheEntry_def)

lemma haproxy_ok_cacheTasks:
  assumes "haproxy_ok m" and "cacheTasks m ts = Ret m'"
  shows "haproxy_ok m'"
proof (cases "ts = []")
  case True
  with assms show ?thesis by (simp add: cacheTasks_def)
next
  case False
  then have "hm_appStateCache m \<noteq> None"
    using assms(2) cacheTasks_nil [of m "hd ts" "tl ts"] by auto
  with assms(1) have "cache_ready m" "refs_ok m" by (auto simp: haproxy_ok_def)
  from cacheTasks_view [OF this, of ts] assms(2) have "cache_ready m'" "refs_ok m'" by auto
  with assms(1) blank_cache_fields [OF cacheTasks_step [OF assms(2)]] show ?thesis
    by (simp add: haproxy_ok_def)
qed

lemma haproxy_ok_remove:
  assumes "haproxy_ok m" and "removeAppStateCacheEntry m a i = Ret m'"
  shows "haproxy_ok m'"
proof (cases "hm_appStateCache m = None")
  case True
  with assms show ?thesis by (simp add: removeAppStateCacheEntry_def gm_keys_def)
next
  case False
  with assms(1) have "cache_ready m" by (simp add: haproxy_ok_def)
  from drop_cache [OF this, of a i] assms(2) have
    m': "cache_ready m'" "task_cell m' = task_cell m"
    "\<forall>b j. getAppStateCacheEntry m' b j = (if b = a \<and> j = i then None else getAppStateCacheEntry m b j)"
    by auto
  have "refs_ok m'"
    using assms(1) m'(2,3) by (auto simp: haproxy_ok_def refs_ok_iff split: if_splits)
  with assms(1) m'(1) blank_cache_fields [OF removeAppStateCacheEntry_step [OF assms(2)]] show ?thesis
    by (simp add: haproxy_ok_def)
qed

lemma haproxy_ok_put_config:
  assumes "haproxy_ok m" and "put_config env m app = Ret (m', app')"
  shows "haproxy_ok m'"
proof -
  from assms(2) obtain m1 config fs where 1: "makeConfig env m app = Ret (m1, app', config)"
    and 2: "gm_put (hm_appConfigFragments m1) (a_id app') config = Ret fs"
    and 3: "cacheTasks (m1\<lparr>hm_appConfigFragments := fs\<rparr>) (a_tasks app') = Ret m'"
    by (auto simp: put_config_def go_bind_eq_Ret)
  have ok1: "haproxy_ok m1" by (rule haproxy_ok_makeConfig [OF assms(1) 1])
  then have "gm_ok fs" using gm_ok_put [OF _ 2] by (simp add: haproxy_ok_def)
  from haproxy_ok_fragments [OF ok1 this] show ?thesis by (rule haproxy_ok_cacheTasks [OF _ 3])
qed

lemma haproxy_ok_put_configs:
  "haproxy_ok m \<Longrightarrow> put_configs env m apps = Ret (m', apps') \<Longrightarrow> haproxy_ok m'"
  by (induction apps arbitrary: m apps') (auto simp: go_bind_eq_Ret dest: haproxy_ok_put_config)

lemma haproxy_ok_reset [simp]: "haproxy_ok (apply_reset m)"
  by (simp add: haproxy_ok_def apply_reset_def clearAppStateCache_def tables_ok_def vhosts_ok_def
      cache_ready_def refs_ok_def getAppStateCacheEntry_def)

lemma haproxy_ok_UpdateApp:
  "haproxy_ok m \<Longrightarrow> haproxy_UpdateApp env admin m app tid = Ret (m', app', sent, err) \<Longrightarrow> haproxy_ok m'"
  by (auto simp: haproxy_UpdateApp_def go_bind_eq_Ret Let_def split: if_split_asm prod.split_asm
      dest: haproxy_ok_put_config)

lemma haproxy_ok_RemoveApp:
  assumes "haproxy_ok m" and "haproxy_RemoveApp env m aid tid appo = Ret (m', appo')"
  shows "haproxy_ok m'"
proof (cases appo)
  case None
  have "haproxy_ok (m\<lparr>hm_appConfigFragments := gm_delete (hm_appConfigFragments m) aid\<rparr>)"
    using assms(1) by (intro haproxy_ok_fragments gm_ok_delete) (simp_all add: haproxy_ok_def)
  with assms(2) None show ?thesis
    by (auto simp: haproxy_RemoveApp_def go_bind_eq_Ret dest: haproxy_ok_remove)
next
  case (Some app)
  with assms(2) obtain m1 app1 config fs where 1: "makeConfig env m app = Ret (m1, app1, config)"
    and 2: "(if length (a_tasks app1) > 0 then gm_put (hm_appConfigFragments m1) aid config
             else Ret (gm_delete (hm_appConfigFragments m1) aid)) = Ret fs"
    and 3: "removeAppStateCacheEntry (m1\<lparr>hm_appConfigFragments := fs\<rparr>) aid tid = Ret m'"
    by (auto simp: haproxy_RemoveApp_def go_bind_eq_Ret)
  have ok1: "haproxy_ok m1" by (rule haproxy_ok_makeConfig [OF assms(1) 1])
  then have "gm_ok fs" using 2 gm_ok_put gm_ok_delete by (auto simp: haproxy_ok_def split: if_splits)
  from haproxy_ok_fragments [OF ok1 this] show ?thesis by (rule haproxy_ok_remove [OF _ 3])
qed

section \<open>Apply forgets\<close>

text \<open>The same manager with other labels, cache and cells, which rendering does not look at.\<close>

definition relabel :: "(string, labels) gomap \<Rightarrow> (string, (string, task_ref) gomap) gomap
    \<Rightarrow> marathon_task list \<Rightarrow> haproxy_mgr \<Rightarrow> haproxy_mgr" where
  "relabel l c t m = m\<lparr>hm_appLabels := l, hm_appStateCache := c, hm_taskCells := t\<rparr>"

lemma relabel_relabel [simp]: "relabel l c t (relabel l' c' t' m) = relabel l c t m"
  by (simp add: relabel_def)

lemma relabel_self [simp]: "relabel (hm_appLabels m) (hm_appStateCache m) (hm_taskCells m) m = m"
  by (simp add: relabel_def)

lemma relabel_reads [simp]:
  "hm_vhosts (relabel l c t m) = hm_vhosts m" "hm_vhostDefault (relabel l c t m) = hm_vhostDefault m"
  "hm_vhostsHTTPS (relabel l c t m) = hm_vhostsHTTPS m"
  "hm_vhostDefaultHTTPS (relabel l c t m) = hm_vhostDefaultHTTPS m"
  "hm_Address (relabel l c t m) = hm_Address m" "server_opts (relabel l c t m) = server_opts m"
  "isGroupIncluded (relabel l c t m) = isGroupIncluded m"
  "hm_appConfigFragments (relabel l c t m) = hm_appConfigFragments m"
  "hm_appLabels (relabel l c t m) = l" "hm_appStateCache (relabel l c t m) = c" "hm_taskCells (relabel l c t m) = t"
  "port_text env (relabel l c t m) = port_text env m"
  by (simp_all add: relabel_def fun_eq_iff server_opts_def isGroupIncluded_def port_text_def Let_def)

lemma relabel_put:
  "(relabel l c t m)\<lparr>hm_appConfigFragments := f\<rparr> = relabel l c t (m\<lparr>hm_appConfigFragments := f\<rparr>)"
  "(relabel l c t m)\<lparr>hm_appLabels := l'\<rparr> = relabel l' c t (m\<lparr>hm_appLabels := l''\<rparr>)"
  "(relabel l c t m)\<lparr>hm_vhosts := v, hm_vhostDefault := d, hm_vhostsHTTPS := w, hm_vhostDefaultHTTPS := e\<rparr> =
   relabel l c t (m\<lparr>hm_vhosts := v, hm_vhostDefault := d, hm_vhostsHTTPS := w, hm_vhostDefaultHTTPS := e\<rparr>)"
  by (simp_all add: relabel_def)

lemma port_relabel:
  assumes "makeConfigForPort env m app i = Ret (m', app', s)"
  shows "makeConfigForPort env (relabel l c t m) app i = Ret (relabel l c t m', app', s)"
proof (cases "GetTransportProtocol app i = ''tcp''")
  case False
  with assms show ?thesis by (simp add: makeConfigForPort_def)
next
  case True
  with assms show ?thesis
    by (auto simp: makeConfigForPort_def go_bind_eq_Ret Let_def relabel_put)
qed

lemma config_ports_relabel:
  "config_ports env m app r i pds = Ret (m', app', s) \<Longrightarrow>
   config_ports env (relabel l c t m) app r i pds = Ret (relabel l c t m', app', s)"
proof (induction pds arbitrary: m app r i)
  case (Cons pd pds)
  show ?case
  proof (cases "isGroupIncluded m (pd_label pd ''lb-group'')")
    case True
    with Cons.prems obtain m1 app1 s1 where 1: "makeConfigForPort env m app i = Ret (m1, app1, s1)"
      and 2: "config_ports env m1 app1 (r @ s1) (Suc i) pds = Ret (m', app', s)"
      by (auto simp: go_bind_eq_Ret)
    from Cons.IH [OF 2] port_relabel [OF 1, of l c t] True show ?thesis by simp
  next
    case False
    with Cons show ?thesis by simp
  qed
qed simp

lemma makeConfig_relabel:
  assumes "makeConfig env m app = Ret (m', app', s)"
  shows "\<exists>l'. makeConfig env (relabel l c t m) app = Ret (relabel l' c t m', app', s)"
proof -
  from assms obtain k where
    k: "config_ports env (m\<lparr>hm_appLabels := k\<rparr>) app [] 0 (a_portDefs app) = Ret (m', app', s)"
    by (auto simp: makeConfig_def go_bind_eq_Ret Let_def)
  let ?l = "case l of None \<Rightarrow> gm_make | Some _ \<Rightarrow> l"
  have "?l \<noteq> None" by (simp add: gm_make_def split: option.split)
  from gm_put_returns [OF this] obtain l' where l': "gm_put ?l (a_id app) (a_labels app) = Ret l'" by blast
  from config_ports_relabel [OF k, of l' c t] l' show ?thesis
    by (cases l) (auto simp: makeConfig_def Let_def relabel_put(2) [where l'' = k])
qed

text \<open>Two managers that differ only in what is not seen.\<close>

definition alike :: "haproxy_mgr \<Rightarrow> haproxy_mgr \<Rightarrow> bool" where
  "alike m n \<longleftrightarrow> relabel None None [] m = relabel None None [] n \<and> cache_view m = cache_view n \<and>
     cache_ready m \<and> cache_ready n \<and> refs_ok m \<and> refs_ok n"

lemma alike_relabel:
  "relabel None None [] m = relabel None None [] n \<Longrightarrow>
   n = relabel (hm_appLabels n) (hm_appStateCache n) (hm_taskCells n) m"
  by (cases m; cases n) (simp add: relabel_def)

lemma cacheTasks_core:
  assumes "cacheTasks m ts = Ret m'"
  shows "relabel None None [] m' = relabel None None [] m"
proof -
  have "(blank_cache n)\<lparr>hm_appLabels := None\<rparr> = relabel None None [] n" for n
    by (simp add: blank_cache_def relabel_def)
  with arg_cong [OF cacheTasks_step [OF assms], of "\<lambda>x. x\<lparr>hm_appLabels := None\<rparr>"] show ?thesis by simp
qed

lemma cache_view_cong:
  assumes "hm_appStateCache m' = hm_appStateCache m" and "hm_taskCells m' = hm_taskCells m"
  shows "cache_view m' = cache_view m"
proof -
  have "task_cell m' = task_cell m" using assms(2) by (simp add: task_cell_def fun_eq_iff)
  moreover have "getAppStateCacheEntry m' = getAppStateCacheEntry m"
    using assms(1) by (simp add: getAppStateCacheEntry_def fun_eq_iff)
  ultimately show ?thesis by (intro ext) (simp add: cache_view_def split: option.split)
qed

lemma put_config_alike:
  assumes a: "alike m n" and "put_config env m app = Ret (m', app')"
  shows "\<exists>n'. put_config env n app = Ret (n', app') \<and> alike m' n'"
proof -
  from assms(2) obtain m1 config fs where 1: "makeConfig env m app = Ret (m1, app', config)"
    and 2: "gm_put (hm_appConfigFragments m1) (a_id app') config = Ret fs"
    and 3: "cacheTasks (m1\<lparr>hm_appConfigFragments := fs\<rparr>) (a_tasks app') = Ret m'"
    by (auto simp: put_config_def go_bind_eq_Ret)
  from a have core: "relabel None None [] m = relabel None None [] n" by (simp add: alike_def)
  from makeConfig_relabel [OF 1, of "hm_appLabels n" "hm_appStateCache n" "hm_taskCells n"]
    alike_relabel [OF core] obtain l' where
    n1: "makeConfig env n app = Ret (relabel l' (hm_appStateCache n) (hm_taskCells n) m1, app', config)"
    by auto
  let ?n1 = "relabel l' (hm_appStateCache n) (hm_taskCells n) m1"
  let ?m2 = "m1\<lparr>hm_appConfigFragments := fs\<rparr>" and ?n2 = "?n1\<lparr>hm_appConfigFragments := fs\<rparr>"
  have n2: "gm_put (hm_appConfigFragments ?n1) (a_id app') config = Ret fs" using 2 by simp
  have mc: "hm_appStateCache ?m2 = hm_appStateCache m" "hm_taskCells ?m2 = hm_taskCells m"
    using blank_vhosts_fields [OF makeConfig_step(1) [OF 1]] by simp_all
  have nc: "hm_appStateCache ?n2 = hm_appStateCache n" "hm_taskCells ?n2 = hm_taskCells n"
    by simp_all
  have views: "cache_view ?m2 = cache_view m" "cache_view ?n2 = cache_view n"
    by (rule cache_view_cong [OF mc], rule cache_view_cong [OF nc])
  have rm: "cache_ready ?m2" "refs_ok ?m2" and rn: "cache_ready ?n2" "refs_ok ?n2"
    using a refs_ok_cong(1) [OF mc] refs_ok_cong(1) [OF nc] refs_ok_cong(2) [OF mc(1)]
      refs_ok_cong(2) [OF nc(1)] by (simp_all add: alike_def)
  from cacheTasks_view [OF rn, of "a_tasks app'"] obtain n' where
    n': "cacheTasks ?n2 (a_tasks app') = Ret n'" "cache_ready n'" "refs_ok n'"
    "cache_view n' = (\<lambda>a i. if \<exists>t\<in>set (a_tasks app'). t_appId t = a \<and> t_id t = i
       then Some (last (a_tasks app')) else cache_view ?n2 a i)" by blast
  from cacheTasks_view [OF rm, of "a_tasks app'"] 3 have
    m': "cache_ready m'" "refs_ok m'"
    "cache_view m' = (\<lambda>a i. if \<exists>t\<in>set (a_tasks app'). t_appId t = a \<and> t_id t = i
       then Some (last (a_tasks app')) else cache_view ?m2 a i)" by auto
  have "relabel None None [] m' = relabel None None [] n'"
    using cacheTasks_core [OF 3] cacheTasks_core [OF n'(1)] by (simp add: relabel_put(1))
  moreover have "cache_view m' = cache_view n'"
  proof -
    have "cache_view m = cache_view n" using a by (simp add: alike_def)
    then show ?thesis unfolding m'(3) n'(4) views by (rule arg_cong)
  qed
  ultimately have "alike m' n'" using m' n' by (simp add: alike_def)
  moreover have "put_config env n app = Ret (n', app')" using n1 n2 n'(1) by (simp add: put_config_def)
  ultimately show ?thesis by blast
qed

lemma put_configs_alike:
  "alike m n \<Longrightarrow> put_configs env m apps = Ret (m', apps') \<Longrightarrow>
   \<exists>n'. put_configs env n apps = Ret (n', apps') \<and> alike m' n'"
proof (induction apps arbitrary: m n apps')
  case (Cons app apps)
  from Cons.prems(2) obtain m1 app' rest where 1: "put_config env m app = Ret (m1, app')"
    and 2: "put_configs env m1 apps = Ret (m', rest)" and r: "apps' = app' # rest"
    by (auto simp: go_bind_eq_Ret)
  from put_config_alike [OF Cons.prems(1) 1] obtain n1 where
    n1: "put_config env n app = Ret (n1, app')" "alike m1 n1" by blast
  from Cons.IH [OF n1(2) 2] n1(1) r show ?case by auto
qed auto

section \<open>The handler contract\<close>

definition static :: "haproxy_mgr \<Rightarrow> haproxy_mgr" where
  "static m = m\<lparr>hm_appConfigFragments := None, hm_appLabels := None, hm_appStateCache := None,
     hm_taskCells := [], hm_vhosts := None, hm_vhostDefault := [], hm_vhostsHTTPS := None,
     hm_vhostDefaultHTTPS := []\<rparr>"

lemma static_blank: "static (blank_vhosts m) = static m" "static (blank_cache m) = static m"
  "static (m\<lparr>hm_appConfigFragments := f\<rparr>) = static m" "static (apply_reset m) = static m"
  by (simp_all add: static_def blank_vhosts_def blank_cache_def apply_reset_def clearAppStateCache_def)

lemma static_makeConfig: "makeConfig env m app = Ret (m', app', s) \<Longrightarrow> static m' = static m"
  using makeConfig_step(1) [of env m app m' app' s] static_blank(1) by metis

lemma static_cacheTasks: "cacheTasks m ts = Ret m' \<Longrightarrow> static m' = static m"
  using cacheTasks_step static_blank(2) by metis

lemma static_remove: "removeAppStateCacheEntry m a i = Ret m' \<Longrightarrow> static m' = static m"
  using removeAppStateCacheEntry_step static_blank(2) by metis

lemma static_put_config: "put_config env m app = Ret (m', app') \<Longrightarrow> static m' = static m"
  by (auto simp: put_config_def go_bind_eq_Ret static_blank
      dest!: static_makeConfig static_cacheTasks)

lemma static_put_configs: "put_configs env m apps = Ret (m', apps') \<Longrightarrow> static m' = static m"
  by (induction apps arbitrary: m apps') (auto simp: go_bind_eq_Ret dest: static_put_config)

lemma static_UpdateApp:
  "haproxy_UpdateApp env admin m app tid = Ret (m', app', sent, err) \<Longrightarrow> static m' = static m"
  by (auto simp: haproxy_UpdateApp_def go_bind_eq_Ret Let_def split: if_split_asm prod.split_asm
      dest: static_put_config)

lemma static_RemoveApp:
  "haproxy_RemoveApp env m aid tid appo = Ret (m', appo') \<Longrightarrow> static m' = static m"
  by (cases appo) (auto simp: haproxy_RemoveApp_def go_bind_eq_Ret static_blank
      dest!: static_makeConfig static_remove)

definition haproxy_inv :: "haproxy_state \<Rightarrow> bool" where
  "haproxy_inv s = haproxy_ok (fst s)"

definition haproxy_config :: "haproxy_state \<Rightarrow> haproxy_mgr" where
  "haproxy_config s = static (fst s)"

text \<open>Everything but the labels and the identity of the cells.\<close>

definition haproxy_seen :: "haproxy_state \<Rightarrow> haproxy_mgr \<times> (string \<Rightarrow> string \<Rightarrow> marathon_task option)" where
  "haproxy_seen s = (relabel None None [] (fst s), cache_view (fst s))"

lemma alike_reset:
  assumes "static m = static n"
  shows "alike (apply_reset m) (apply_reset n)"
proof -
  let ?f = "\<lambda>x. x\<lparr>hm_appConfigFragments := gm_make, hm_vhosts := gm_make, hm_vhostsHTTPS := gm_make\<rparr>"
  have "relabel None None [] (apply_reset x) = ?f (static x)" for x
    by (simp add: relabel_def apply_reset_def clearAppStateCache_def static_def)
  then have "relabel None None [] (apply_reset m) = relabel None None [] (apply_reset n)"
    using assms by simp
  moreover have "cache_view (apply_reset x) = (\<lambda>a i. None)" "cache_ready (apply_reset x)"
    "refs_ok (apply_reset x)" for x
    by (simp_all add: cache_view_def getAppStateCacheEntry_def apply_reset_def clearAppStateCache_def
        cache_ready_def refs_ok_def fun_eq_iff)
  ultimately show ?thesis by (simp add: alike_def)
qed

lemma haproxy_Apply_resets:
  assumes "haproxy_config s = haproxy_config t"
    and "haproxy_Apply env s apps = Ret (s', e1)" and "haproxy_Apply env t apps = Ret (t', e2)"
  shows "haproxy_seen s' = haproxy_seen t' \<and> e1 = e2"
proof -
  from assms(2) obtain m' apps' where m': "put_configs env (apply_reset (fst s)) apps = Ret (m', apps')"
    "s' = (m', snd s)" "e1 = None" by (auto simp: haproxy_Apply_def haproxy_ApplyApps_def go_bind_eq_Ret)
  from assms(1) have "alike (apply_reset (fst s)) (apply_reset (fst t))"
    by (simp add: haproxy_config_def alike_reset)
  from put_configs_alike [OF this m'(1)] obtain n' where
    n': "put_configs env (apply_reset (fst t)) apps = Ret (n', apps')" "alike m' n'" by blast
  with assms(3) have "t' = (n', snd t)" "e2 = None"
    by (auto simp: haproxy_Apply_def haproxy_ApplyApps_def)
  with m' n'(2) show ?thesis by (simp add: haproxy_seen_def alike_def)
qed

interpretation haproxy: resetting_handler "haproxy_Apply env" "haproxy_Update env admin" "haproxy_Remove env"
    haproxy_inv haproxy_config haproxy_seen
proof unfold_locales
  fix s s' t t' :: haproxy_state and apps app tid aid appo and err e1 e2 :: "go_error option"
  show "haproxy_inv s \<Longrightarrow> haproxy_Apply env s apps = Ret (s', err) \<Longrightarrow> haproxy_inv s'"
    by (auto simp: haproxy_inv_def haproxy_Apply_def haproxy_ApplyApps_def go_bind_eq_Ret
        intro: haproxy_ok_put_configs [OF haproxy_ok_reset])
  show "haproxy_inv s \<Longrightarrow> haproxy_Update env admin s app tid = Ret (s', err) \<Longrightarrow> haproxy_inv s'"
    by (auto simp: haproxy_inv_def haproxy_Update_def go_bind_eq_Ret intro: haproxy_ok_UpdateApp)
  show "haproxy_inv s \<Longrightarrow> haproxy_Remove env s aid tid appo = Ret (s', err) \<Longrightarrow> haproxy_inv s'"
    by (auto simp: haproxy_inv_def haproxy_Remove_def go_bind_eq_Ret intro: haproxy_ok_RemoveApp)
  show "haproxy_Apply env s apps = Ret (s', err) \<Longrightarrow> haproxy_config s' = haproxy_config s"
    by (auto simp: haproxy_config_def haproxy_Apply_def haproxy_ApplyApps_def go_bind_eq_Ret
        static_blank dest: static_put_configs)
  show "haproxy_Update env admin s app tid = Ret (s', err) \<Longrightarrow> haproxy_config s' = haproxy_config s"
    by (auto simp: haproxy_config_def haproxy_Update_def go_bind_eq_Ret dest: static_UpdateApp)
  show "haproxy_Remove env s aid tid appo = Ret (s', err) \<Longrightarrow> haproxy_config s' = haproxy_config s"
    by (auto simp: haproxy_config_def haproxy_Remove_def go_bind_eq_Ret dest: static_RemoveApp)
  show "haproxy_config s = haproxy_config t \<Longrightarrow> haproxy_Apply env s apps = Ret (s', e1) \<Longrightarrow>
      haproxy_Apply env t apps = Ret (t', e2) \<Longrightarrow> haproxy_seen s' = haproxy_seen t' \<and> e1 = e2"
    by (rule haproxy_Apply_resets)
qed

lemma config_text_relabel: "config_text (relabel l c t m) = config_text m"
  by (simp add: config_text_def cluster_names_def makeConfigHead_def makeGatewayHTTP_def
      makeGatewayHTTPS_def relabel_def)

text \<open>
  C5. \<open>Apply\<close> forgets: whatever updates, removals and applies came before, the configuration that
  is rendered after an \<open>Apply\<close>, and the tasks found in the cache, are those of an \<open>Apply\<close> of the
  same applications on the initial state.
\<close>

theorem haproxy_Apply_forgets:
  assumes "haproxy_ok (fst s)"
    and "handler_run (haproxy_Apply env) (haproxy_Update env admin) (haproxy_Remove env) s
           (calls @ [CallApply apps]) = Ret s1"
    and "haproxy_Apply env s apps = Ret (s2, err)"
  shows "config_text (fst s1) = config_text (fst s2) \<and> cache_view (fst s1) = cache_view (fst s2)"
proof -
  from assms(1) have "haproxy_inv s" by (simp add: haproxy_inv_def)
  from haproxy.reset_forgets [OF this assms(2,3)]
  have "relabel None None [] (fst s1) = relabel None None [] (fst s2)"
    and "cache_view (fst s1) = cache_view (fst s2)" by (simp_all add: haproxy_seen_def)
  then show ?thesis by (metis config_text_relabel)
qed

text \<open>
  C18. The tables of the manager stay consistent over every sequence of calls: no service has an
  empty list of hosts, the default service of a gateway is one with hosts, and every pointer in
  the cache is valid.
\<close>

theorem haproxy_run_ok:
  assumes "haproxy_ok (fst s)"
    and "handler_run (haproxy_Apply env) (haproxy_Update env admin) (haproxy_Remove env) s calls = Ret s'"
  shows "vhosts_ok (hm_vhosts (fst s')) (hm_vhostDefault (fst s')) \<and>
    vhosts_ok (hm_vhostsHTTPS (fst s')) (hm_vhostDefaultHTTPS (fst s')) \<and> refs_ok (fst s')"
  using haproxy.run_inv [of s env admin calls s'] assms
  by (simp add: haproxy_inv_def haproxy_ok_def tables_ok_def)

section \<open>Commands to the admin socket\<close>

text \<open>The task whose server the commands of an update name: the one that the cache gives, else the
  one that is found in the application.\<close>

definition commanded :: "host_env \<Rightarrow> haproxy_mgr \<Rightarrow> marathon_app \<Rightarrow> string \<Rightarrow> marathon_task option" where
  "commanded env m app tid =
     (case cache_view m (a_id app) tid of Some t \<Rightarrow> Some t | None \<Rightarrow> env_getTask env app tid)"

lemma commanded_lookup:
  assumes "refs_ok m"
  shows "(case getAppStateCacheEntry m (a_id app) tid of
            Some ref \<Rightarrow> go_bind (go_nth (hm_taskCells m) ref) (\<lambda>t. Ret (Some t))
          | None \<Rightarrow> Ret (env_getTask env app tid)) = Ret (commanded env m app tid)"
proof (cases "getAppStateCacheEntry m (a_id app) tid")
  case None
  then show ?thesis by (simp add: commanded_def cache_view_def)
next
  case (Some r)
  with assms obtain t where "task_cell m r = Some t" unfolding refs_ok_iff by blast
  with Some show ?thesis
    by (auto simp: commanded_def cache_view_def task_cell_def go_nth_def split: if_splits)
qed

lemma instance_names_commanded:
  assumes "refs_ok m" and "instance_names env m app tid i ports = Ret names" and "name \<in> set names"
  shows "\<exists>t j appID. commanded env m app tid = Some t \<and> j < length ports \<and>
    GetTransportProtocol app (i + j) = ''tcp'' \<and> PrettifyAppId (a_id app) (i + j) (ports ! j) = Ret appID \<and>
    i + j < length (t_ports t) \<and> name = task_label appID t (t_ports t ! (i + j))"
  using assms(2,3)
proof (induction ports arbitrary: i names)
  case (Cons p ports)
  have later: ?case if "instance_names env m app tid (Suc i) ports = Ret ns" "name \<in> set ns" for ns
  proof -
    from Cons.IH [OF that] obtain t j appID where j: "commanded env m app tid = Some t" "j < length ports"
      "GetTransportProtocol app (Suc i + j) = ''tcp''"
      "PrettifyAppId (a_id app) (Suc i + j) (ports ! j) = Ret appID"
      "Suc i + j < length (t_ports t)" "name = task_label appID t (t_ports t ! (Suc i + j))" by blast
    then show ?thesis by (intro exI [of _ t] exI [of _ "Suc j"] exI [of _ appID]) simp
  qed
  show ?case
  proof (cases "GetTransportProtocol app i = ''tcp'' \<and> commanded env m app tid \<noteq> None")
    case True
    then obtain t where t: "commanded env m app tid = Some t" by auto
    with True Cons.prems(1) obtain appID port ns where
      n: "PrettifyAppId (a_id app) i p = Ret appID" "go_nth (t_ports t) i = Ret port"
      "instance_names env m app tid (Suc i) ports = Ret ns" "names = task_label appID t port # ns"
      by (auto simp: go_bind_eq_Ret commanded_lookup [OF assms(1)])
    show ?thesis
    proof (cases "name = task_label appID t port")
      case True': True
      with n(1,2) t True show ?thesis
        by (intro exI [of _ t] exI [of _ 0] exI [of _ appID]) (auto simp: go_nth_eq_Ret)
    next
      case False
      with n Cons.prems(2) show ?thesis by (intro later [OF n(3)]) simp
    qed
  next
    case False
    with Cons.prems show ?thesis
      by (intro later [of names]) (auto simp: go_bind_eq_Ret commanded_lookup [OF assms(1)] split: if_splits)
  qed
qed simp

lemma send_all_sent:
  "cmd \<in> set (fst (send_all admin m f names)) \<Longrightarrow> \<exists>name\<in>set names. cmd = f name"
  by (induction names) (auto simp: sendCommandf_def split: send_result.splits prod.splits)

lemma UpdateApp_sent:
  assumes "haproxy_UpdateApp env admin m app tid = Ret (m', app', sent, err)" and "cmd \<in> set sent"
  obtains names m1 f where "instance_names env m app tid 0 (a_ports app) = Ret names"
    and "f \<in> {enable_server, disable_server}" and "cmd \<in> set (fst (send_all admin m1 f names))"
proof -
  from assms(1) obtain names m1 app1 where n: "instance_names env m app tid 0 (a_ports app) = Ret names"
    and p: "put_config env m app = Ret (m1, app1)"
    by (auto simp: haproxy_UpdateApp_def go_bind_eq_Ret)
  let ?alive = "case env_getTask env app1 tid of Some t \<Rightarrow> env_isAlive env t | None \<Rightarrow> False"
  obtain c1 e1 where c1: "send_all admin m1 (if ?alive then enable_server else disable_server) names = (c1, e1)"
    by force
  have "haproxy_UpdateApp env admin m app tid =
      (if ?alive \<and> (length (a_healthChecks app1) = 0 \<or> isAppJustSpawned app1) then Ret (m1, app1, [], None)
       else Ret (m1, app1, c1, e1))"
    using n p c1 by (simp only: haproxy_UpdateApp_def Let_def go_bind.simps prod.case)
  with assms have "cmd \<in> set c1" by (auto split: if_splits)
  with that [OF n, of "if ?alive then enable_server else disable_server" m1] c1 show ?thesis
    by (simp split: if_splits)
qed

text \<open>What the cache gives for a task: the last task of the last application that lists it.\<close>

definition lists_task :: "string \<Rightarrow> string \<Rightarrow> marathon_app \<Rightarrow> bool" where
  "lists_task a i app \<longleftrightarrow> (\<exists>t\<in>set (a_tasks app). t_appId t = a \<and> t_id t = i)"

definition cached_last :: "marathon_app list \<Rightarrow> string \<Rightarrow> string \<Rightarrow> marathon_task option" where
  "cached_last apps a i = map_option (\<lambda>app. last (a_tasks app)) (find (lists_task a i) (rev apps))"

lemma find_append: "find P (xs @ ys) = (case find P xs of Some x \<Rightarrow> Some x | None \<Rightarrow> find P ys)"
  by (induction xs) auto

lemma cached_last_Cons:
  "cached_last (app # apps) a i = (case cached_last apps a i of Some t \<Rightarrow> Some t
     | None \<Rightarrow> if lists_task a i app then Some (last (a_tasks app)) else None)"
  by (simp add: cached_last_def find_append split: option.split)

lemma put_config_view:
  assumes "cache_ready m" and "refs_ok m" and "put_config env m app = Ret (m', app')"
  shows "cache_ready m' \<and> refs_ok m' \<and> cache_view m' a i =
    (if lists_task a i app' then Some (last (a_tasks app')) else cache_view m a i)"
proof -
  from assms(3) obtain m1 config fs where 1: "makeConfig env m app = Ret (m1, app', config)"
    and 3: "cacheTasks (m1\<lparr>hm_appConfigFragments := fs\<rparr>) (a_tasks app') = Ret m'"
    by (auto simp: put_config_def go_bind_eq_Ret)
  let ?m2 = "m1\<lparr>hm_appConfigFragments := fs\<rparr>"
  have mc: "hm_appStateCache ?m2 = hm_appStateCache m" "hm_taskCells ?m2 = hm_taskCells m"
    using blank_vhosts_fields [OF makeConfig_step(1) [OF 1]] by simp_all
  have ok: "cache_ready ?m2" "refs_ok ?m2"
    using assms(1,2) refs_ok_cong(1) [OF mc] refs_ok_cong(2) [OF mc(1)] by simp_all
  note views = cache_view_cong [OF mc]
  have l: "(\<exists>t\<in>set (a_tasks app'). t_appId t = a \<and> t_id t = i) = lists_task a i app'"
    by (simp add: lists_task_def)
  from cacheTasks_view [OF ok, of "a_tasks app'", unfolded views] 3
  have "cache_ready m'" "refs_ok m'" "cache_view m' = (\<lambda>a i. if \<exists>t\<in>set (a_tasks app'). t_appId t = a \<and> t_id t = i
      then Some (last (a_tasks app')) else cache_view m a i)" by auto
  then show ?thesis by (simp only: l simp_thms)
qed

lemma put_configs_view:
  "cache_ready m \<Longrightarrow> refs_ok m \<Longrightarrow> put_configs env m apps = Ret (m', apps') \<Longrightarrow>
   refs_ok m' \<and> cache_view m' a i =
     (case cached_last apps' a i of Some t \<Rightarrow> Some t | None \<Rightarrow> cache_view m a i)"
proof (induction apps arbitrary: m apps')
  case Nil
  then show ?case by (simp add: cached_last_def)
next
  case (Cons app apps)
  from Cons.prems(3) obtain m1 app' rest where 1: "put_config env m app = Ret (m1, app')"
    and 2: "put_configs env m1 apps = Ret (m', rest)" and r: "apps' = app' # rest"
    by (auto simp: go_bind_eq_Ret)
  note v = put_config_view [OF Cons.prems(1,2) 1, of a i]
  with Cons.IH [OF _ _ 2] have "refs_ok m'" "cache_view m' a i =
      (case cached_last rest a i of Some t \<Rightarrow> Some t | None \<Rightarrow> cache_view m1 a i)" by blast+
  with v r show ?case by (simp add: cached_last_Cons split: option.split)
qed

lemma ApplyApps_commanded:
  assumes "haproxy_ApplyApps env m apps = Ret (m1, apps1)"
  shows "refs_ok m1 \<and> commanded env m1 app tid =
    (case cached_last apps1 (a_id app) tid of Some t \<Rightarrow> Some t | None \<Rightarrow> env_getTask env app tid)"
proof -
  let ?m = "apply_reset m"
  have e: "getAppStateCacheEntry ?m a i = None" for a i
    by (simp add: apply_reset_def clearAppStateCache_def getAppStateCacheEntry_def)
  have "cache_ready ?m" by (simp add: apply_reset_def clearAppStateCache_def cache_ready_def)
  moreover have "refs_ok ?m" by (simp add: refs_ok_def e)
  moreover have "cache_view ?m a i = None" for a i by (simp add: cache_view_def e)
  ultimately show ?thesis
    using put_configs_view [of ?m env apps m1 apps1 "a_id app" tid] assms
    by (simp add: haproxy_ApplyApps_def commanded_def split: option.splits)
qed

text \<open>
  C21. Which server the commands of an \<open>Update\<close> name, when it comes right after an \<open>Apply\<close> of any
  list of applications. If the task is one that the \<open>Apply\<close> cached, that is if one of the
  applications lists it under the id of the updated application, the commands name the host and the
  port of the task that is last in the list of (the last) such application, whichever task the
  update is about: the cache was filled with the address of the loop variable. If the \<open>Apply\<close> did
  not cache the task, the commands name the task itself, as it is found in the updated application.
  A command is sent only for a port whose protocol is TCP, under the name that the port's fragment
  gives the application.
\<close>

theorem update_commands_last_task:
  assumes "haproxy_ApplyApps env m apps = Ret (m1, apps1)"
    and "haproxy_UpdateApp env admin m1 app tid = Ret (m2, app2, sent, err)"
    and "cmd \<in> set sent"
  shows "\<exists>t j appID.
    (case find (lists_task (a_id app) tid) (rev apps1) of
       Some listing \<Rightarrow> t = last (a_tasks listing)
     | None \<Rightarrow> env_getTask env app tid = Some t) \<and>
    j < length (a_ports app) \<and> GetTransportProtocol app j = ''tcp'' \<and>
    PrettifyAppId (a_id app) j (a_ports app ! j) = Ret appID \<and> j < length (t_ports t) \<and>
    cmd \<in> {enable_server (task_label appID t (t_ports t ! j)), disable_server (task_label appID t (t_ports t ! j))}"
proof -
  note c = ApplyApps_commanded [OF assms(1), of app tid]
  from UpdateApp_sent [OF assms(2,3)] obtain names m4 f where
    n: "instance_names env m1 app tid 0 (a_ports app) = Ret names"
    and f: "f \<in> {enable_server, disable_server}" "cmd \<in> set (fst (send_all admin m4 f names))" by blast
  from send_all_sent [OF f(2)] obtain name where "name \<in> set names" and cmd: "cmd = f name" by blast
  from instance_names_commanded [OF _ n this(1)] c obtain t j appID where
    t: "commanded env m1 app tid = Some t" and j: "j < length (a_ports app)"
    "GetTransportProtocol app j = ''tcp''" "PrettifyAppId (a_id app) j (a_ports app ! j) = Ret appID"
    "j < length (t_ports t)" "name = task_label appID t (t_ports t ! j)" by auto
  have "case find (lists_task (a_id app) tid) (rev apps1) of
      Some listing \<Rightarrow> t = last (a_tasks listing) | None \<Rightarrow> env_getTask env app tid = Some t"
    using t c by (simp add: cached_last_def split: option.splits)
  with j f(1) cmd show ?thesis by blast
qed

text \<open>
  The commands of an update go out in order up to the first one that fails, whose error is
  returned; the failing command has been sent if only its response is missing.
\<close>

theorem send_all_stops:
  assumes "\<forall>name\<in>set before. admin (hm_AdminSockPath m) (f name) = Answered"
    and "admin (hm_AdminSockPath m) (f name) = Unsent e \<or> admin (hm_AdminSockPath m) (f name) = Unanswered e"
  shows "send_all admin m f before = (map f before, None) \<and>
    send_all admin m f (before @ name # after) =
      (map f before @ (if admin (hm_AdminSockPath m) (f name) = Unanswered e then [f name] else []), Some e)"
  using assms(1)
proof (induction before)
  case Nil
  from assms(2) show ?case by (auto simp: sendCommandf_def)
next
  case (Cons x xs)
  then show ?case by (simp add: sendCommandf_def)
qed

section \<open>Applications that are gone\<close>

lemma gateway_tables_only:
  assumes "static m = static n" and "hm_vhosts m = hm_vhosts n" and "hm_vhostDefault m = hm_vhostDefault n"
    and "hm_vhostsHTTPS m = hm_vhostsHTTPS n" and "hm_vhostDefaultHTTPS m = hm_vhostDefaultHTTPS n"
  shows "makeConfigHead m = makeConfigHead n"
proof -
  have f: "g m = g n" if "\<And>x. g (static x) = g x" for g :: "haproxy_mgr \<Rightarrow> 'a"
    using assms(1) that by metis
  have "hm_GatewayAddr m = hm_GatewayAddr n" "hm_GatewayPortHTTP m = hm_GatewayPortHTTP n"
    "hm_GatewayPortHTTPS m = hm_GatewayPortHTTPS n" "hm_SyslogFacility m = hm_SyslogFacility n"
    "hm_AdminSockPath m = hm_AdminSockPath n" "hm_ManagementPort m = hm_ManagementPort n"
    "hm_GatewayEnabled m = hm_GatewayEnabled n"
    by (rule f, simp add: static_def)+
  with assms(2-) show ?thesis
    by (simp add: makeConfigHead_def makeGatewayHTTP_def makeGatewayHTTPS_def)
qed

text \<open>
  C26. Removing a destroyed application drops its fragment from the configuration but leaves the
  gateways as they were: the hosts of its services are still routed, to backends that the new
  configuration no longer defines.
\<close>

theorem destroyed_app_stays_routed:
  assumes "haproxy_Remove env s aid tid None = Ret (s', err)"
  shows "makeConfigHead (fst s') = makeConfigHead (fst s) \<and>
    gm_get (hm_appConfigFragments (fst s')) = (gm_get (hm_appConfigFragments (fst s)))(aid := None)"
proof -
  let ?m = "(fst s)\<lparr>hm_appConfigFragments := gm_delete (hm_appConfigFragments (fst s)) aid\<rparr>"
  from assms have r: "removeAppStateCacheEntry ?m aid tid = Ret (fst s')"
    by (auto simp: haproxy_Remove_def haproxy_RemoveApp_def go_bind_eq_Ret)
  note b = removeAppStateCacheEntry_step [OF r]
  have "hm_vhosts (fst s') = hm_vhosts (fst s)" "hm_vhostDefault (fst s') = hm_vhostDefault (fst s)"
    "hm_vhostsHTTPS (fst s') = hm_vhostsHTTPS (fst s)"
    "hm_vhostDefaultHTTPS (fst s') = hm_vhostDefaultHTTPS (fst s)"
    using arg_cong [OF b, of hm_vhosts] arg_cong [OF b, of hm_vhostDefault]
      arg_cong [OF b, of hm_vhostsHTTPS] arg_cong [OF b, of hm_vhostDefaultHTTPS]
    by (simp_all add: blank_cache_def)
  moreover have "static (fst s') = static (fst s)" using static_remove [OF r] by (simp add: static_blank)
  ultimately have "makeConfigHead (fst s') = makeConfigHead (fst s)" by (intro gateway_tables_only)
  with blank_cache_fields(1) [OF b] show ?thesis by (simp add: gm_get_delete)
qed

section \<open>An example\<close>

definition sick_task :: marathon_task where
  "sick_task = (cfg_task ''t1'' ''slave1'' [31001] None)\<lparr>t_healthResults := [\<lparr>hcr_lastFailure = Some ''now''\<rparr>]\<rparr>"

definition other_task :: marathon_task where
  "other_task = cfg_task ''t2'' ''slave2'' [31002] None"

abbreviation api_app :: marathon_app where
  "api_app \<equiv> cfg_app [(''lb-vhost'', ''api.io'')] [sick_task, other_task]"

definition haproxy_start :: haproxy_state where
  "haproxy_start = (haproxy_example, [])"

definition answering :: admin_socket where
  "answering path cmd = Answered"

lemma haproxy_example_ok: "haproxy_ok haproxy_example"
  by (simp add: haproxy_example_def haproxy_ok_def tables_ok_def vhosts_ok_def refs_ok_def
      getAppStateCacheEntry_def)

lemma api_name: "PrettifyAppId ''/api'' 0 7000 = Ret ''api-0-7000''"
  by (simp add: PrettifyAppId_def replace_ch_def go_eval)

lemma api_sorted: "sortTasks example_env [sick_task, other_task] 0 = [sick_task, other_task]"
  by (simp add: sortTasks_def example_env_def insertion_sort_def task_less_def sick_task_def
      other_task_def cfg_task_def)

abbreviation api_text :: "haproxy_mgr \<Rightarrow> string" where
  "api_text m \<equiv> port_text example_env m api_app 0 (a_portDefs api_app ! 0) ''api-0-7000''
     [sick_task, other_task]"

lemma api_port: "makeConfigForPort example_env m api_app 0 =
    go_bind (gm_put (hm_vhosts m) ''api-0-7000'' [''api.io'']) (\<lambda>v.
      Ret (m\<lparr>hm_vhosts := v, hm_vhostsHTTPS := gm_delete (hm_vhostsHTTPS m) ''api-0-7000'',
        hm_vhostDefaultHTTPS := (if hm_vhostDefaultHTTPS m = ''api-0-7000'' then []
          else hm_vhostDefaultHTTPS m)\<rparr>, api_app, api_text m))"
  by (simp add: makeConfigForPort_def GetTransportProtocol_def cfg_app_def go_nth_def api_name
      set_vhosts_def makeStringArray_def pd_label_def label_def LB_VHOST_HTTP_def LB_VHOST_HTTPS_def
      LB_VHOST_DEFAULT_HTTP_def LB_VHOST_DEFAULT_HTTPS_def go_bind_assoc api_sorted Let_def
      split_def)

lemma api_makeConfig:
  assumes "hm_vhosts m = gm_make" and "hm_vhostsHTTPS m = gm_make" and "hm_vhostDefaultHTTPS m = []"
    and "hm_FilterGroups m = [''*'']" and "hm_appLabels m = None"
  shows "makeConfig example_env m api_app =
    Ret (m\<lparr>hm_appLabels := Some [(''/api'', [])], hm_vhosts := Some [(''api-0-7000'', [''api.io''])]\<rparr>,
         api_app, api_text m)"
proof -
  let ?m = "m\<lparr>hm_appLabels := Some [(''/api'', [])]\<rparr>"
  have defs: "a_portDefs api_app = [\<lparr>pd_port = 7000, pd_protocol = ''tcp'', pd_labels = [(''lb-vhost'', ''api.io'')]\<rparr>]"
    "a_id api_app = ''/api''" "a_labels api_app = []" by (simp_all add: cfg_app_def)
  have "?m\<lparr>hm_vhosts := Some [(''api-0-7000'', [''api.io''])], hm_vhostsHTTPS := gm_delete gm_make ''api-0-7000'',
      hm_vhostDefaultHTTPS := []\<rparr> =
      m\<lparr>hm_appLabels := Some [(''/api'', [])], hm_vhosts := Some [(''api-0-7000'', [''api.io''])]\<rparr>"
    using assms(2,3) by (cases m) (simp add: gm_delete_def gm_make_def)
  moreover have "api_text ?m = api_text m"
    by (simp add: port_text_def Let_def server_opts_def)
  ultimately have "makeConfigForPort example_env ?m api_app 0 =
      Ret (m\<lparr>hm_appLabels := Some [(''/api'', [])], hm_vhosts := Some [(''api-0-7000'', [''api.io''])]\<rparr>,
         api_app, api_text m)"
    using assms(1-3) by (simp add: api_port)
  moreover have "isGroupIncluded ?m g" for g using assms(4) by (simp add: isGroupIncluded_iff)
  ultimately show ?thesis
    using assms(5) by (simp add: makeConfig_def defs gm_make_def gm_put_def)
qed

definition api_applied :: haproxy_mgr where
  "api_applied = (apply_reset haproxy_example)
     \<lparr>hm_appLabels := Some [(''/api'', [])], hm_vhosts := Some [(''api-0-7000'', [''api.io''])],
      hm_appConfigFragments := Some [(''/api'', api_text haproxy_example)],
      hm_appStateCache := Some [(''/api'', Some [(''t1'', 0), (''t2'', 0)])],
      hm_taskCells := [other_task]\<rparr>"

lemma api_ApplyApps: "haproxy_ApplyApps example_env haproxy_example [api_app] = Ret (api_applied, [api_app])"
proof -
  have "makeConfig example_env (apply_reset haproxy_example) api_app =
    Ret ((apply_reset haproxy_example)\<lparr>hm_appLabels := Some [(''/api'', [])],
           hm_vhosts := Some [(''api-0-7000'', [''api.io''])]\<rparr>,
         api_app, api_text (apply_reset haproxy_example))"
    by (rule api_makeConfig) (simp_all add: apply_reset_def clearAppStateCache_def haproxy_example_def)
  moreover have "api_text (apply_reset haproxy_example) = api_text haproxy_example"
    by (simp add: port_text_def Let_def server_opts_def apply_reset_def clearAppStateCache_def)
  moreover have "a_tasks api_app = [sick_task, other_task]" "a_id api_app = ''/api''"
    by (simp_all add: cfg_app_def)
  ultimately show ?thesis
    by (simp add: haproxy_ApplyApps_def put_config_def cacheTasks_def Let_def write_cell_def
        setAppStateCacheEntry_def go_nth_def gm_put_def gm_get_def gm_make_def sick_task_def other_task_def
        cfg_task_def api_applied_def apply_reset_def clearAppStateCache_def haproxy_example_def)
qed

lemma api_put_config: "\<exists>m2. put_config example_env api_applied api_app = Ret (m2, api_app)"
proof -
  have defs: "a_portDefs api_app = [\<lparr>pd_port = 7000, pd_protocol = ''tcp'', pd_labels = [(''lb-vhost'', ''api.io'')]\<rparr>]"
    "a_id api_app = ''/api''" "a_labels api_app = []" "a_tasks api_app = [sick_task, other_task]"
    by (simp_all add: cfg_app_def)
  have ready: "cache_ready api_applied" by (simp add: api_applied_def cache_ready_def gm_get_Some)
  have fields: "hm_appLabels api_applied = Some [(''/api'', [])]" "hm_FilterGroups api_applied = [''*'']"
    "hm_vhosts api_applied = Some [(''api-0-7000'', [''api.io''])]" "hm_appConfigFragments api_applied \<noteq> None"
    by (simp_all add: api_applied_def apply_reset_def clearAppStateCache_def haproxy_example_def)
  let ?m = "api_applied\<lparr>hm_appLabels := Some [(''/api'', [])]\<rparr>"
  have g: "isGroupIncluded ?m x" for x by (simp add: isGroupIncluded_iff fields)
  obtain m1 s where 1: "makeConfig example_env api_applied api_app = Ret (m1, api_app, s)"
    using g fields by (simp add: makeConfig_def defs gm_put_def api_port)
  note b = blank_vhosts_fields [OF makeConfig_step(1) [OF 1]]
  from b(1) fields(4) have "hm_appConfigFragments m1 \<noteq> None" by simp
  from gm_put_returns [OF this] obtain fs where 2: "gm_put (hm_appConfigFragments m1) ''/api'' s = Ret fs" by blast
  have "cache_ready (m1\<lparr>hm_appConfigFragments := fs\<rparr>)" using ready b(2) by (simp add: cache_ready_def)
  from cacheTasks_finds [OF this, of "[sick_task, other_task]"] obtain m2 where
    "cacheTasks (m1\<lparr>hm_appConfigFragments := fs\<rparr>) [sick_task, other_task] = Ret m2" by auto
  with 1 2 show ?thesis by (simp add: put_config_def defs)
qed

lemma api_Update: "\<exists>m2. haproxy_UpdateApp example_env answering api_applied api_app ''t1'' =
    Ret (m2, api_app, [''disable server api-0-7000/slave2:31002'' @ nl], None)"
proof -
  from api_put_config obtain m2 where p: "put_config example_env api_applied api_app = Ret (m2, api_app)" ..
  have cached: "getAppStateCacheEntry api_applied ''/api'' ''t1'' = Some 0" "go_nth (hm_taskCells api_applied) 0 = Ret other_task"
    by (simp_all add: getAppStateCacheEntry_def api_applied_def gm_get_Some go_nth_def)
  have "instance_names example_env api_applied api_app ''t1'' 0 [7000] = Ret [''api-0-7000/slave2:31002'']"
    using cached by (simp add: GetTransportProtocol_def cfg_app_def api_name other_task_def cfg_task_def
        go_nth_def task_label_def go_eval)
  moreover have "a_ports api_app = [7000]" by (simp add: cfg_app_def)
  moreover have "env_getTask example_env api_app ''t1'' = Some sick_task" "\<not> env_isAlive example_env sick_task"
    by (simp_all add: example_env_def cfg_app_def sick_task_def cfg_task_def)
  ultimately show ?thesis
    using p by (simp add: haproxy_UpdateApp_def sendCommandf_def answering_def disable_server_def)
qed

theorem update_commands_last_task_witness:
  "\<exists>m2 j appID. haproxy_UpdateApp example_env answering api_applied api_app (t_id sick_task) =
      Ret (m2, api_app, [''disable server api-0-7000/slave2:31002'' @ nl], None) \<and>
    t_host sick_task = ''slave1'' \<and>
    ''disable server api-0-7000/slave2:31002'' @ nl \<in>
      {enable_server (task_label appID other_task (t_ports other_task ! j)),
       disable_server (task_label appID other_task (t_ports other_task ! j))}"
proof -
  have t: "t_id sick_task = ''t1''" "t_host sick_task = ''slave1''"
    "find (lists_task (a_id api_app) (t_id sick_task)) (rev [api_app]) = Some api_app"
    "last (a_tasks api_app) = other_task"
    by (simp_all add: sick_task_def cfg_task_def cfg_app_def lists_task_def)
  from api_Update obtain m2 where u: "haproxy_UpdateApp example_env answering api_applied api_app (t_id sick_task) =
    Ret (m2, api_app, [''disable server api-0-7000/slave2:31002'' @ nl], None)" unfolding t(1) ..
  from update_commands_last_task [OF api_ApplyApps u list.set_intros(1)] u t(1,2)
  show ?thesis unfolding t(3) option.case t(4) by blast
qed

theorem send_all_stops_witness:
  "send_all (\<lambda>path cmd. if cmd = enable_server ''b'' then Unanswered ''eof'' else Answered) haproxy_example
     enable_server [''a'', ''b'', ''c''] = ([enable_server ''a'', enable_server ''b''], Some ''eof'')"
  using send_all_stops [of "[''a'']" "\<lambda>path cmd. if cmd = enable_server ''b'' then Unanswered ''eof'' else Answered"
      haproxy_example enable_server "''b''" "''eof''" "[''c'']"]
  by (simp add: enable_server_def)

lemma api_run: "\<exists>e. haproxy_Apply example_env haproxy_start [api_app] = Ret ((api_applied, []), e)"
  by (simp add: haproxy_Apply_def haproxy_start_def api_ApplyApps)

theorem haproxy_Apply_forgets_witness:
  "\<exists>s1. handler_run (haproxy_Apply example_env) (haproxy_Update example_env answering)
      (haproxy_Remove example_env) haproxy_start [CallRemove ''/api'' ''t1'' None, CallApply [api_app]] = Ret s1 \<and>
    config_text (fst s1) = config_text api_applied"
proof -
  have rem: "haproxy_Remove example_env haproxy_start ''/api'' ''t1'' None = Ret (haproxy_start, None)"
    by (simp add: haproxy_Remove_def haproxy_RemoveApp_def removeAppStateCacheEntry_def haproxy_start_def
        haproxy_example_def gm_keys_def gm_delete_def)
  obtain e where ap: "haproxy_Apply example_env haproxy_start [api_app] = Ret ((api_applied, []), e)"
    using api_run by blast
  have run: "handler_run (haproxy_Apply example_env) (haproxy_Update example_env answering)
      (haproxy_Remove example_env) haproxy_start ([CallRemove ''/api'' ''t1'' None] @ [CallApply [api_app]]) =
      Ret (api_applied, [])"
    using rem ap by (simp add: handler_run_def)
  have "haproxy_ok (fst haproxy_start)" by (simp add: haproxy_start_def haproxy_example_ok)
  from haproxy_Apply_forgets [OF this run ap] run show ?thesis by simp
qed

theorem haproxy_run_ok_witness:
  "\<exists>s1. handler_run (haproxy_Apply example_env) (haproxy_Update example_env answering)
      (haproxy_Remove example_env) haproxy_start [CallApply [api_app]] = Ret s1 \<and>
    vhosts_ok (hm_vhosts (fst s1)) (hm_vhostDefault (fst s1))"
proof -
  obtain e where ap: "haproxy_Apply example_env haproxy_start [api_app] = Ret ((api_applied, []), e)"
    using api_run by blast
  then have run: "handler_run (haproxy_Apply example_env) (haproxy_Update example_env answering)
      (haproxy_Remove example_env) haproxy_start [CallApply [api_app]] = Ret (api_applied, [])"
    by (simp add: handler_run_def)
  have "haproxy_ok (fst haproxy_start)" by (simp add: haproxy_start_def haproxy_example_ok)
  from haproxy_run_ok [OF this run] run show ?thesis by blast
qed

theorem destroyed_app_stays_routed_witness:
  "\<exists>s'. haproxy_Remove example_env (api_applied, []) ''/api'' ''t1'' None = Ret (s', None) \<and>
    gm_get (hm_appConfigFragments (fst s')) ''/api'' = None \<and>
    sublist (''  use_backend api-0-7000 if vhost_api_io'' @ nl) (makeConfigHead (fst s'))"
proof -
  obtain s' where r: "haproxy_Remove example_env (api_applied, []) ''/api'' ''t1'' None = Ret (s', None)"
    by (simp add: haproxy_Remove_def haproxy_RemoveApp_def removeAppStateCacheEntry_def api_applied_def
        gm_get_Some gm_keys_def gm_delete_def gm_put_def)
  have t: "matchToken ''vhost_'' ''api.io'' = ''vhost_api_io''"
    by (simp add: matchToken_def replace_ch_def)
  have v: "hm_vhosts api_applied = Some [(''api-0-7000'', [''api.io''])]" "hm_GatewayEnabled api_applied"
    by (simp_all add: api_applied_def apply_reset_def clearAppStateCache_def haproxy_example_def)
  have h: "gm_get (hm_vhosts api_applied) ''api-0-7000'' = Some [''api.io'']" by (simp add: v gm_get_Some)
  have u: "\<forall>b ws w. gm_get (hm_vhosts api_applied) b = Some ws \<longrightarrow> w \<in> set ws \<longrightarrow>
      is_suffix_vhost w = is_suffix_vhost ''api.io'' \<longrightarrow>
      matchToken ''vhost_'' w = matchToken ''vhost_'' ''api.io'' \<longrightarrow> b = ''api-0-7000''"
    by (simp add: v gm_get_Some)
  note line = gateway_has_vhost(2) [OF h list.set_intros(1) u, of http_suffix_acl http_exact_acl
      "hm_vhostDefault api_applied"]
  have "sublist (use_backend ''api-0-7000'' (matchToken ''vhost_'' ''api.io'')) (makeGatewayHTTP api_applied)"
    unfolding makeGatewayHTTP_def by (intro sublist_tail line)
  then have "sublist (use_backend ''api-0-7000'' (matchToken ''vhost_'' ''api.io'')) (makeConfigHead api_applied)"
    by (intro head_has_gateway [OF v(2)] disjI1)
  then have "sublist (''  use_backend api-0-7000 if vhost_api_io'' @ nl) (makeConfigHead api_applied)"
    by (simp add: t use_backend_def)
  with destroyed_app_stays_routed [OF r] r show ?thesis by auto
qed

end
