(* ===== verification/Haproxy_Process.thy ===== *)
theory Haproxy_Process
  imports Haproxy_Manager
begin

text \<open>
  Installing the configuration and driving the HAProxy process, the second half of
  src/haproxy_manager.go: \<open>writeConfig\<close>, \<open>reloadConfig\<close>, the hooks and the body of the ticker loop
  that \<open>Setup\<close> starts.

  Running a program is a parameter, the record \<open>proc_env\<close>: what a command does to the files, and
  whether it could be started, its wait status and its output; and which process ids are alive.
  The world is the file system with the commands run so far. A call that panics still has an
  effect on the world (deferred hooks run), so these functions return the world beside the result.
\<close>

datatype proc_result = NotStarted go_error | Exited int string "go_error option"

record proc_env =
  pe_run :: "string list \<Rightarrow> file_system \<Rightarrow> proc_result \<times> file_system"
  pe_alive :: "int \<Rightarrow> bool"

record world =
  w_fs :: file_system
  w_ran :: "string list list"

type_synonym outcome = "world \<times> go_error option go"

definition run_command :: "proc_env \<Rightarrow> world \<Rightarrow> string list \<Rightarrow> proc_result \<times> world" where
  "run_command pe w argv =
     (let (res, fs) = pe_run pe argv (w_fs w) in
      (res, w\<lparr>w_fs := fs, w_ran := w_ran w @ [argv]\<rparr>))"

text \<open>\<open>proc.ProcessState\<close> is nil when the program could not be started.\<close>

definition exec :: "proc_env \<Rightarrow> haproxy_mgr \<Rightarrow> world \<Rightarrow> string list \<Rightarrow> outcome" where
  "exec pe m w args =
     (case run_command pe w (hm_Executable m # args) of
        (NotStarted e, w') \<Rightarrow> (w', Panic NilDereference)
      | (Exited status output err, w') \<Rightarrow>
          (w', Ret (if status \<noteq> 0 then Some output else err)))"

definition execHook :: "proc_env \<Rightarrow> world \<Rightarrow> string \<Rightarrow> string \<Rightarrow> world" where
  "execHook pe w cmd arg = (if cmd = [] then w else snd (run_command pe w [cmd, arg]))"

definition beforeHook :: "proc_env \<Rightarrow> haproxy_mgr \<Rightarrow> world \<Rightarrow> world" where
  "beforeHook pe m w = execHook pe w (hm_BeforeCmd m) ''before''"

definition afterHook :: "proc_env \<Rightarrow> haproxy_mgr \<Rightarrow> world \<Rightarrow> world" where
  "afterHook pe m w = execHook pe w (hm_AfterCmd m) ''after''"

definition checkConfig :: "proc_env \<Rightarrow> haproxy_mgr \<Rightarrow> world \<Rightarrow> string \<Rightarrow> outcome" where
  "checkConfig pe m w path = exec pe m w [''-f'', path, ''-p'', hm_PidFile m, ''-c'']"

definition startArguments :: "haproxy_mgr \<Rightarrow> string list" where
  "startArguments m = [''-f'', hm_ConfigPath m, ''-p'', hm_PidFile m, ''-D'']"

definition reloadArguments :: "haproxy_mgr \<Rightarrow> int \<Rightarrow> string list" where
  "reloadArguments m pid =
     (let args = [''-f'', hm_ConfigPath m, ''-p'', hm_PidFile m, ''-D'', ''-sf'', int_str pid] in
      if hm_EnableReuseSocket m then args @ [''-x'', hm_AdminSockPath m] else args)"

definition startProcess :: "proc_env \<Rightarrow> haproxy_mgr \<Rightarrow> world \<Rightarrow> outcome" where
  "startProcess pe m w =
     (let (w', r) = exec pe m (beforeHook pe m w) (startArguments m) in (afterHook pe m w', r))"

definition reloadProcess :: "proc_env \<Rightarrow> haproxy_mgr \<Rightarrow> world \<Rightarrow> int \<Rightarrow> outcome" where
  "reloadProcess pe m w pid =
     (let (w', r) = exec pe m (beforeHook pe m w) (reloadArguments m pid) in (afterHook pe m w', r))"

text \<open>The parameter \<open>force\<close> of the source is not used there.\<close>

definition reloadConfig :: "proc_env \<Rightarrow> haproxy_mgr \<Rightarrow> world \<Rightarrow> bool \<Rightarrow> outcome" where
  "reloadConfig pe m w force =
     (case fs_read (w_fs w) (hm_PidFile m) of
        None \<Rightarrow> startProcess pe m w
      | Some pidStr \<Rightarrow>
         (case atoi (trim_space pidStr) of
            (_, Some err) \<Rightarrow> (w, Ret (Some ''atoi''))
          | (pid, None) \<Rightarrow>
              if \<not> pe_alive pe pid then startProcess pe m w
              else if \<not> FileIsIdentical (w_fs w) (hm_ConfigPath m) (hm_OldConfigPath m)
                then reloadProcess pe m w pid
              else (w, Ret None)))"

text \<open>The two renames at the end of \<open>writeConfig\<close>.\<close>

definition install_config :: "haproxy_mgr \<Rightarrow> world \<Rightarrow> string \<Rightarrow> outcome" where
  "install_config m w tempConfigFile =
     (let (saved, fs1) =
        (if fs_exists (w_fs w) (hm_ConfigPath m)
         then fs_rename (w_fs w) (hm_ConfigPath m) (hm_OldConfigPath m) else (True, w_fs w)) in
      if \<not> saved then (w\<lparr>w_fs := fs1\<rparr>, Ret (Some ''rename''))
      else
        let (renamed, fs2) = fs_rename fs1 tempConfigFile (hm_ConfigPath m) in
        (w\<lparr>w_fs := fs2\<rparr>, Ret (if renamed then None else Some ''rename'')))"

definition temp_path :: "haproxy_mgr \<Rightarrow> string" where
  "temp_path m = hm_ConfigPath m @ ''.tmp''"

definition writeConfig :: "proc_env \<Rightarrow> haproxy_mgr \<Rightarrow> world \<Rightarrow> outcome" where
  "writeConfig pe m w =
     (let config = config_text m in
      case makeConfigTail m (w_fs w) of
        Inl err \<Rightarrow> (w, Ret (Some err))
      | Inr tail \<Rightarrow>
          let tempConfigFile = temp_path m;
              (written, fs1) = fs_write (w_fs w) tempConfigFile (config @ tail);
              w1 = w\<lparr>w_fs := fs1\<rparr> in
          if \<not> written then (w1, Ret (Some ''write''))
          else
            (case checkConfig pe m w1 tempConfigFile of
               (w2, Panic p) \<Rightarrow> (w2, Panic p)
             | (w2, Ret (Some err)) \<Rightarrow> (w2, Ret (Some err))
             | (w2, Ret None) \<Rightarrow> install_config m w2 tempConfigFile))"

text \<open>One turn of the loop in \<open>Setup\<close>: an error of \<open>writeConfig\<close> is fatal, one of the reload is logged.\<close>

definition tick :: "proc_env \<Rightarrow> haproxy_mgr \<Rightarrow> world \<Rightarrow> world \<times> unit go" where
  "tick pe m w =
     (case writeConfig pe m w of
        (w1, Panic p) \<Rightarrow> (w1, Panic p)
      | (w1, Ret (Some err)) \<Rightarrow> (w1, Panic LogPanic)
      | (w1, Ret None) \<Rightarrow>
         (case reloadConfig pe m w1 False of
            (w2, Panic p) \<Rightarrow> (w2, Panic p)
          | (w2, Ret err) \<Rightarrow> (w2, Ret ())))"

section \<open>Installing a configuration\<close>

definition check_argv :: "haproxy_mgr \<Rightarrow> string list" where
  "check_argv m = [hm_Executable m, ''-f'', temp_path m, ''-p'', hm_PidFile m, ''-c'']"

text \<open>
  What the manager relies on: the commands it runs (HAProxy and the hooks) do not change the
  configuration files.
\<close>

definition config_paths :: "haproxy_mgr \<Rightarrow> string set" where
  "config_paths m = {hm_ConfigPath m, hm_OldConfigPath m, temp_path m, hm_ConfigTailPath m}"

definition config_untouched :: "proc_env \<Rightarrow> haproxy_mgr \<Rightarrow> bool" where
  "config_untouched pe m \<longleftrightarrow>
     (\<forall>argv fs. \<forall>p\<in>config_paths m. fs_read (snd (pe_run pe argv fs)) p = fs_read fs p)"

definition paths_distinct :: "haproxy_mgr \<Rightarrow> bool" where
  "paths_distinct m \<longleftrightarrow> hm_OldConfigPath m \<noteq> hm_ConfigPath m \<and> hm_OldConfigPath m \<noteq> temp_path m \<and>
     hm_ConfigTailPath m \<notin> {hm_ConfigPath m, hm_OldConfigPath m, temp_path m}"

lemma temp_path_neq [simp]: "temp_path m \<noteq> hm_ConfigPath m" "hm_ConfigPath m \<noteq> temp_path m"
  by (simp_all add: temp_path_def)

lemma run_command_keeps:
  assumes "config_untouched pe m" and "p \<in> config_paths m" and "run_command pe w argv = (res, w')"
  shows "fs_read (w_fs w') p = fs_read (w_fs w) p"
proof -
  from assms(3) have "w_fs w' = snd (pe_run pe argv (w_fs w))"
    by (auto simp: run_command_def split: prod.splits)
  with assms(1,2) show ?thesis by (simp add: config_untouched_def)
qed

lemma execHook_keeps:
  "config_untouched pe m \<Longrightarrow> p \<in> config_paths m \<Longrightarrow> fs_read (w_fs (execHook pe w cmd arg)) p = fs_read (w_fs w) p"
  using run_command_keeps [of pe m p w "[cmd, arg]"] by (cases "run_command pe w [cmd, arg]")
    (auto simp: execHook_def)

lemma exec_keeps:
  assumes "config_untouched pe m" and "p \<in> config_paths m" and "exec pe m w args = (w', r)"
  shows "fs_read (w_fs w') p = fs_read (w_fs w) p"
  using run_command_keeps [OF assms(1,2), of w "hm_Executable m # args"] assms(3)
  by (cases "run_command pe w (hm_Executable m # args)") (auto simp: exec_def split: proc_result.splits)

lemma reloadConfig_keeps:
  assumes u: "config_untouched pe m" and p: "p \<in> config_paths m" and r: "reloadConfig pe m w b = (w', r)"
  shows "fs_read (w_fs w') p = fs_read (w_fs w) p"
proof -
  have run: "fs_read (w_fs (afterHook pe m (fst (exec pe m (beforeHook pe m w) args)))) p = fs_read (w_fs w) p" for args
  proof -
    obtain w1 r1 where e: "exec pe m (beforeHook pe m w) args = (w1, r1)" by force
    have "fs_read (w_fs (beforeHook pe m w)) p = fs_read (w_fs w) p"
      by (simp add: beforeHook_def execHook_keeps [OF u p])
    with exec_keeps [OF u p e] show ?thesis
      by (simp add: e afterHook_def execHook_keeps [OF u p])
  qed
  have "w' = w \<or> (\<exists>args. w' = afterHook pe m (fst (exec pe m (beforeHook pe m w) args)))"
  proof (cases "fs_read (w_fs w) (hm_PidFile m)")
    case None
    with r show ?thesis by (auto simp: reloadConfig_def startProcess_def split_def Let_def)
  next
    case (Some s)
    obtain pid e where a: "atoi (trim_space s) = (pid, e)" by force
    show ?thesis
    proof (cases e)
      case None
      have "w' = w \<or> w' = fst (startProcess pe m w) \<or> w' = fst (reloadProcess pe m w pid)"
        using r Some a None by (auto simp: reloadConfig_def split: if_splits)
      then show ?thesis by (auto simp: startProcess_def reloadProcess_def split_def Let_def)
    next
      case (Some _)
      with r a \<open>fs_read (w_fs w) (hm_PidFile m) = _\<close> show ?thesis by (simp add: reloadConfig_def)
    qed
  qed
  then show ?thesis using run by auto
qed

lemma install_config_ok:
  assumes d: "paths_distinct m" and i: "install_config m w (temp_path m) = (w', Ret None)"
    and t: "fs_read (w_fs w) (temp_path m) = Some text"
  shows "fs_read (w_fs w') (hm_ConfigPath m) = Some text"
    and "fs_read (w_fs w) (hm_ConfigPath m) = Some c \<Longrightarrow> fs_read (w_fs w') (hm_OldConfigPath m) = Some c"
    and "fs_read (w_fs w') (hm_ConfigTailPath m) = fs_read (w_fs w) (hm_ConfigTailPath m)"
    and "w_ran w' = w_ran w"
proof -
  obtain b1 fs1 where s: "(if fs_exists (w_fs w) (hm_ConfigPath m)
      then fs_rename (w_fs w) (hm_ConfigPath m) (hm_OldConfigPath m) else (True, w_fs w)) = (b1, fs1)" by force
  obtain b2 fs2 where n: "fs_rename fs1 (temp_path m) (hm_ConfigPath m) = (b2, fs2)" by force
  from i s n have b: "b1" "b2" and w': "w' = w\<lparr>w_fs := fs2\<rparr>"
    by (auto simp: install_config_def Let_def split: if_splits)
  have r1: "fs_read fs1 = (case fs_read (w_fs w) (hm_ConfigPath m) of
      None \<Rightarrow> fs_read (w_fs w)
    | Some c \<Rightarrow> (fs_read (w_fs w))(hm_ConfigPath m := None, hm_OldConfigPath m \<mapsto> c))"
  proof (cases "fs_read (w_fs w) (hm_ConfigPath m)")
    case None
    with s show ?thesis by (simp add: fs_exists_def)
  next
    case (Some c)
    with s b(1) have mv: "fs_rename (w_fs w) (hm_ConfigPath m) (hm_OldConfigPath m) = (True, fs1)"
      by (simp add: fs_exists_def)
    have "hm_OldConfigPath m \<notin> set (fs_deny (w_fs w))"
      using fs.mv_fail [of "w_fs w" "hm_ConfigPath m" "hm_OldConfigPath m"] mv by auto
    from fs.mv_ok [OF Some this mv] Some show ?thesis by simp
  qed
  have "fs_read fs1 (temp_path m) = Some text"
    using d t by (auto simp: r1 paths_distinct_def split: option.split)
  moreover have "hm_ConfigPath m \<notin> set (fs_deny fs1)"
    using fs.mv_fail [of fs1 "temp_path m" "hm_ConfigPath m"] n b(2) by auto
  ultimately have r2: "fs_read fs2 = (fs_read fs1)(temp_path m := None, hm_ConfigPath m \<mapsto> text)"
    using fs.mv_ok n by blast
  show "fs_read (w_fs w') (hm_ConfigPath m) = Some text" and "w_ran w' = w_ran w"
    by (simp_all add: w' r2)
  show "fs_read (w_fs w) (hm_ConfigPath m) = Some c \<Longrightarrow> fs_read (w_fs w') (hm_OldConfigPath m) = Some c"
    using d by (simp add: w' r2 r1 paths_distinct_def)
  show "fs_read (w_fs w') (hm_ConfigTailPath m) = fs_read (w_fs w) (hm_ConfigTailPath m)"
    using d by (auto simp: w' r2 r1 paths_distinct_def split: option.split)
qed

text \<open>The text that is installed: head and fragments, then the tail file.\<close>

lemma writeConfig_done:
  assumes "writeConfig pe m w = (w', Ret None)"
  obtains tail fs1 out fs2 where "makeConfigTail m (w_fs w) = Inr tail"
    and "fs_write (w_fs w) (temp_path m) (config_text m @ tail) = (True, fs1)"
    and "pe_run pe (check_argv m) fs1 = (Exited 0 out None, fs2)"
    and "install_config m \<lparr>w_fs = fs2, w_ran = w_ran w @ [check_argv m]\<rparr> (temp_path m) = (w', Ret None)"
proof -
  from assms obtain tail where tail: "makeConfigTail m (w_fs w) = Inr tail"
    by (auto simp: writeConfig_def Let_def split: sum.splits)
  obtain b fs1 where wr: "fs_write (w_fs w) (temp_path m) (config_text m @ tail) = (b, fs1)" by force
  from assms tail wr have b: "b"
    by (auto simp: writeConfig_def Let_def split: if_splits)
  obtain res fs2 where run: "pe_run pe (check_argv m) fs1 = (res, fs2)" by force
  have c: "checkConfig pe m (w\<lparr>w_fs := fs1\<rparr>) (temp_path m) =
      (case res of NotStarted e \<Rightarrow> (w\<lparr>w_fs := fs2, w_ran := w_ran w @ [check_argv m]\<rparr>, Panic NilDereference)
       | Exited status out err \<Rightarrow> (w\<lparr>w_fs := fs2, w_ran := w_ran w @ [check_argv m]\<rparr>,
           Ret (if status \<noteq> 0 then Some out else err)))"
    using run by (simp add: checkConfig_def exec_def run_command_def check_argv_def split: proc_result.split)
  obtain out where "res = Exited 0 out None" and
    "install_config m (w\<lparr>w_fs := fs2, w_ran := w_ran w @ [check_argv m]\<rparr>) (temp_path m) = (w', Ret None)"
    using assms tail wr b c by (cases res) (auto simp: writeConfig_def Let_def split: if_splits option.splits)
  moreover have "w\<lparr>w_fs := fs2, w_ran := w_ran w @ [check_argv m]\<rparr> =
      \<lparr>w_fs = fs2, w_ran = w_ran w @ [check_argv m]\<rparr>" by simp
  ultimately show thesis using that [OF tail] wr run b by simp
qed

lemma fs_write_True: "fs_write s p c = (True, s') \<Longrightarrow> fs_read s' = (fs_read s)(p \<mapsto> c)"
  using fs.wr_ok [of p s c True s'] by (auto simp: fs_write_def split: if_splits)

lemma writeConfig_result:
  assumes u: "config_untouched pe m" and d: "paths_distinct m" and w: "writeConfig pe m w = (w', Ret None)"
    and tail: "makeConfigTail m (w_fs w) = Inr tail"
  shows "fs_read (w_fs w') (hm_ConfigPath m) = Some (config_text m @ tail)"
    and "fs_read (w_fs w) (hm_ConfigPath m) = Some c \<Longrightarrow> fs_read (w_fs w') (hm_OldConfigPath m) = Some c"
    and "fs_read (w_fs w') (hm_ConfigTailPath m) = fs_read (w_fs w) (hm_ConfigTailPath m)"
    and "w_ran w' = w_ran w @ [check_argv m]"
proof -
  obtain tail' fs1 out fs2 where t': "makeConfigTail m (w_fs w) = Inr tail'" and
    wr': "fs_write (w_fs w) (temp_path m) (config_text m @ tail') = (True, fs1)" and
    run: "pe_run pe (check_argv m) fs1 = (Exited 0 out None, fs2)" and
    i: "install_config m \<lparr>w_fs = fs2, w_ran = w_ran w @ [check_argv m]\<rparr> (temp_path m) = (w', Ret None)"
    by (rule writeConfig_done [OF w])
  from t' tail have "tail' = tail" by simp
  with wr' have r1: "fs_read fs1 = (fs_read (w_fs w))(temp_path m \<mapsto> config_text m @ tail)"
    using fs_write_True by blast
  have r2: "fs_read fs2 p = fs_read fs1 p" if "p \<in> config_paths m" for p
    using u that run unfolding config_untouched_def by (metis snd_conv)
  have t: "fs_read (w_fs \<lparr>w_fs = fs2, w_ran = w_ran w @ [check_argv m]\<rparr>) (temp_path m) = Some (config_text m @ tail)"
    using r2 [of "temp_path m"] by (simp add: r1 config_paths_def)
  note inst = install_config_ok [OF d i t]
  show "fs_read (w_fs w') (hm_ConfigPath m) = Some (config_text m @ tail)" by (rule inst(1))
  show "w_ran w' = w_ran w @ [check_argv m]" using inst(4) by simp
  show "fs_read (w_fs w) (hm_ConfigPath m) = Some c \<Longrightarrow> fs_read (w_fs w') (hm_OldConfigPath m) = Some c"
    using inst(2) r2 [of "hm_ConfigPath m"] by (simp add: r1 config_paths_def)
  show "fs_read (w_fs w') (hm_ConfigTailPath m) = fs_read (w_fs w) (hm_ConfigTailPath m)"
    using inst(3) r2 [of "hm_ConfigTailPath m"] d by (simp add: r1 config_paths_def paths_distinct_def)
qed

text \<open>
  C4. A configuration is installed only after HAProxy has accepted it: when \<open>writeConfig\<close>
  returns without error, the check command was run on a file with exactly the rendered text and
  exited with status zero, the configuration file holds that text, and the previous one is kept
  under the old name.
\<close>

theorem writeConfig_installs_checked:
  assumes "config_untouched pe m" and "paths_distinct m" and "writeConfig pe m w = (w', Ret None)"
  shows "\<exists>tail fs1 out fs2. makeConfigTail m (w_fs w) = Inr tail \<and>
    fs_read fs1 (temp_path m) = Some (config_text m @ tail) \<and>
    pe_run pe (check_argv m) fs1 = (Exited 0 out None, fs2) \<and>
    fs_read (w_fs w') (hm_ConfigPath m) = Some (config_text m @ tail) \<and>
    (fs_read (w_fs w) (hm_ConfigPath m) \<noteq> None \<longrightarrow>
       fs_read (w_fs w') (hm_OldConfigPath m) = fs_read (w_fs w) (hm_ConfigPath m))"
proof -
  obtain tail fs1 out fs2 where
    tail: "makeConfigTail m (w_fs w) = Inr tail" and
    wr: "fs_write (w_fs w) (temp_path m) (config_text m @ tail) = (True, fs1)" and
    run: "pe_run pe (check_argv m) fs1 = (Exited 0 out None, fs2)"
    by (rule writeConfig_done [OF assms(3)])
  from fs_write_True [OF wr] have "fs_read fs1 (temp_path m) = Some (config_text m @ tail)" by simp
  moreover note writeConfig_result(1) [OF assms tail]
  moreover have "fs_read (w_fs w') (hm_OldConfigPath m) = fs_read (w_fs w) (hm_ConfigPath m)"
    if "fs_read (w_fs w) (hm_ConfigPath m) \<noteq> None"
    using that writeConfig_result(2) [OF assms tail] by (cases "fs_read (w_fs w) (hm_ConfigPath m)") auto
  ultimately show ?thesis using tail run by blast
qed

section \<open>Reloads\<close>

definition running :: "proc_env \<Rightarrow> haproxy_mgr \<Rightarrow> file_system \<Rightarrow> int \<Rightarrow> bool" where
  "running pe m fs pid \<longleftrightarrow>
     (\<exists>s. fs_read fs (hm_PidFile m) = Some s \<and> atoi (trim_space s) = (pid, None)) \<and> pe_alive pe pid"

lemma reloadConfig_running:
  "running pe m (w_fs w) pid \<Longrightarrow> reloadConfig pe m w b =
     (if FileIsIdentical (w_fs w) (hm_ConfigPath m) (hm_OldConfigPath m) then (w, Ret None)
      else reloadProcess pe m w pid)"
  by (auto simp: running_def reloadConfig_def)

definition hook_argv :: "string \<Rightarrow> string \<Rightarrow> string list list" where
  "hook_argv cmd arg = (if cmd = [] then [] else [[cmd, arg]])"

lemma run_command_ran: "w_ran (snd (run_command pe w argv)) = w_ran w @ [argv]"
  by (simp add: run_command_def split_def Let_def)

lemma execHook_ran: "w_ran (execHook pe w cmd arg) = w_ran w @ hook_argv cmd arg"
  by (simp add: execHook_def hook_argv_def run_command_ran)

lemma exec_ran: "w_ran (fst (exec pe m w args)) = w_ran w @ [hm_Executable m # args]"
  using run_command_ran [of pe w "hm_Executable m # args"]
  by (cases "run_command pe w (hm_Executable m # args)") (auto simp: exec_def split: proc_result.split)

text \<open>
  C22. With HAProxy running, a turn of the loop reloads it exactly when the rendered text differs
  from the installed configuration; the reload runs between the two hooks.
\<close>

theorem tick_reloads_on_change:
  assumes "config_untouched pe m" and "paths_distinct m" and "writeConfig pe m w = (w1, Ret None)"
    and "running pe m (w_fs w1) pid" and "makeConfigTail m (w_fs w) = Inr tail"
    and "fs_read (w_fs w) (hm_ConfigPath m) = Some installed"
  shows "w_ran (fst (tick pe m w)) = w_ran w @ [check_argv m] @
    (if installed = config_text m @ tail then []
     else hook_argv (hm_BeforeCmd m) ''before'' @ [hm_Executable m # reloadArguments m pid] @
          hook_argv (hm_AfterCmd m) ''after'')"
proof -
  note res = writeConfig_result [OF assms(1-3,5)]
  have same: "FileIsIdentical (w_fs w1) (hm_ConfigPath m) (hm_OldConfigPath m) \<longleftrightarrow>
      installed = config_text m @ tail"
    using res(1) res(2) [OF assms(6)] by (auto simp: FileIsIdentical_eq)
  have "fst (tick pe m w) = fst (reloadConfig pe m w1 False)"
    using assms(3) by (auto simp: tick_def split: prod.split go.split)
  moreover have "w_ran (fst (reloadProcess pe m w1 pid)) = w_ran w1 @ hook_argv (hm_BeforeCmd m) ''before'' @
      [hm_Executable m # reloadArguments m pid] @ hook_argv (hm_AfterCmd m) ''after''"
    using exec_ran [of pe m "beforeHook pe m w1" "reloadArguments m pid"]
    by (simp add: reloadProcess_def split_def Let_def afterHook_def beforeHook_def execHook_ran)
  ultimately show ?thesis using res(4) reloadConfig_running [OF assms(4), of False] same by simp
qed

text \<open>
  C24. A reload that failed is not tried again: after any turn of the loop that did not panic,
  whether its reload succeeded or not, the next turn with the same state only checks the
  configuration, because by then the installed file and the previous one are the same.
\<close>

theorem failed_reload_not_retried:
  assumes "config_untouched pe m" and "paths_distinct m" and "tick pe m w = (w1, Ret ())"
    and "writeConfig pe m w1 = (w2, Ret None)" and "running pe m (w_fs w2) pid"
  shows "tick pe m w1 = (w2, Ret ()) \<and> w_ran w2 = w_ran w1 @ [check_argv m]"
proof -
  from assms(3) obtain w0 r where w0: "writeConfig pe m w = (w0, Ret None)"
    and rl: "reloadConfig pe m w0 False = (w1, r)"
    by (auto simp: tick_def split: prod.splits go.splits option.splits)
  obtain tail where tail: "makeConfigTail m (w_fs w) = Inr tail" by (rule writeConfig_done [OF w0])
  note res = writeConfig_result [OF assms(1,2) w0 tail]
  have keep: "fs_read (w_fs w1) p = fs_read (w_fs w0) p" if "p \<in> config_paths m" for p
    by (rule reloadConfig_keeps [OF assms(1) that rl])
  have "fs_read (w_fs w1) (hm_ConfigTailPath m) = fs_read (w_fs w) (hm_ConfigTailPath m)"
    using keep [of "hm_ConfigTailPath m"] res(3) by (simp add: config_paths_def)
  then have tail1: "makeConfigTail m (w_fs w1) = Inr tail"
    using tail by (simp add: makeConfigTail_def split: if_splits)
  have inst: "fs_read (w_fs w1) (hm_ConfigPath m) = Some (config_text m @ tail)"
    using keep [of "hm_ConfigPath m"] res(1) by (simp add: config_paths_def)
  note res1 = writeConfig_result [OF assms(1,2,4) tail1]
  from res1(1) res1(2) [OF inst]
  have "FileIsIdentical (w_fs w2) (hm_ConfigPath m) (hm_OldConfigPath m)"
    by (simp add: FileIsIdentical_eq)
  with reloadConfig_running [OF assms(5), of False] assms(4) res1(4) show ?thesis
    by (simp add: tick_def)
qed

text \<open>
  C23. A rejected configuration is fatal: if HAProxy exits with a bad status on the rendered text,
  the configuration files keep their contents but the loop panics, which ends the program; if the
  program cannot be started at all, the loop dereferences a nil pointer.
\<close>

theorem rejected_config_is_fatal:
  assumes "config_untouched pe m" and "paths_distinct m" and "makeConfigTail m (w_fs w) = Inr tail"
    and "fs_write (w_fs w) (temp_path m) (config_text m @ tail) = (True, fs1)"
    and "pe_run pe (check_argv m) fs1 = (res, fs2)"
    and "(\<exists>status out e. res = Exited status out e \<and> status \<noteq> 0) \<or> (\<exists>e. res = NotStarted e)"
  shows "\<exists>w' p. tick pe m w = (w', Panic p) \<and> p \<in> {LogPanic, NilDereference} \<and>
    fs_read (w_fs w') (hm_ConfigPath m) = fs_read (w_fs w) (hm_ConfigPath m) \<and>
    fs_read (w_fs w') (hm_OldConfigPath m) = fs_read (w_fs w) (hm_OldConfigPath m)"
proof -
  let ?w' = "w\<lparr>w_fs := fs2, w_ran := w_ran w @ [check_argv m]\<rparr>"
  have c: "checkConfig pe m (w\<lparr>w_fs := fs1\<rparr>) (temp_path m) =
      (case res of NotStarted e \<Rightarrow> (?w', Panic NilDereference)
       | Exited status out err \<Rightarrow> (?w', Ret (if status \<noteq> 0 then Some out else err)))"
    using assms(5) by (simp add: checkConfig_def exec_def run_command_def check_argv_def split: proc_result.split)
  from assms(6) have "\<exists>p. tick pe m w = (?w', Panic p) \<and> p \<in> {LogPanic, NilDereference}"
  proof (elim disjE exE conjE)
    fix status out e
    assume "res = Exited status out e" and "status \<noteq> 0"
    with assms(3,4) c show ?thesis by (simp add: tick_def writeConfig_def Let_def)
  next
    fix e
    assume "res = NotStarted e"
    with assms(3,4) c show ?thesis by (simp add: tick_def writeConfig_def Let_def)
  qed
  moreover note r1 = fs_write_True [OF assms(4)]
  have "fs_read fs2 p = fs_read fs1 p" if "p \<in> config_paths m" for p
    using assms(1,5) that unfolding config_untouched_def by (metis snd_conv)
  then have "fs_read (w_fs ?w') (hm_ConfigPath m) = fs_read (w_fs w) (hm_ConfigPath m)"
    "fs_read (w_fs ?w') (hm_OldConfigPath m) = fs_read (w_fs w) (hm_OldConfigPath m)"
    using assms(2) by (simp_all add: r1 config_paths_def paths_distinct_def)
  ultimately show ?thesis by blast
qed

section \<open>A concrete process\<close>

text \<open>
  A HAProxy that accepts every configuration and runs as process 42, one that rejects every
  configuration, and a run-state directory with an older configuration.
\<close>

definition quiet_env :: proc_env where
  "quiet_env = \<lparr>pe_run = (\<lambda>argv fs. (Exited 0 [] None, fs)), pe_alive = (\<lambda>pid. pid = 42)\<rparr>"

definition strict_env :: proc_env where
  "strict_env = \<lparr>pe_run = (\<lambda>argv fs. (Exited 256 ''bad'' None, fs)), pe_alive = (\<lambda>pid. pid = 42)\<rparr>"

definition live_world :: world where
  "live_world = \<lparr>w_fs = \<lparr>fs_files = [(''haproxy.cfg'', ''old''), (''haproxy.pid'', ''42'')],
     fs_dirs = [], fs_deny = []\<rparr>, w_ran = []\<rparr>"

lemmas process_eval = quiet_env_def strict_env_def live_world_def haproxy_example_def

lemma quiet_untouched: "config_untouched quiet_env m" "config_untouched strict_env m"
  by (simp_all add: config_untouched_def quiet_env_def strict_env_def)

lemma example_paths_distinct: "paths_distinct haproxy_example"
  by (simp add: paths_distinct_def temp_path_def haproxy_example_def)

lemma example_text_neq: "''old'' \<noteq> config_text haproxy_example @ s"
  by (simp add: config_text_def makeConfigHead_def)

lemma atoi_42: "atoi (trim_space ''42'') = (42, None)"
proof -
  have "trim_space ''42'' = ''42''"
    by (simp add: trim_space_def trim_str_def trim_left_def)
  moreover have "''42'' = int_str 42" by (simp add: go_eval)
  ultimately show ?thesis using atoi_int_str [of 42] by (simp add: in_int64_def)
qed

lemma example_fields [simp]:
  "hm_ConfigPath haproxy_example = ''haproxy.cfg''" "hm_OldConfigPath haproxy_example = ''haproxy.cfg.old''"
  "hm_PidFile haproxy_example = ''haproxy.pid''" "temp_path haproxy_example = ''haproxy.cfg.tmp''"
  "hm_BeforeCmd haproxy_example = []" "hm_AfterCmd haproxy_example = []" "hm_ConfigTailPath haproxy_example = []"
  by (simp_all add: haproxy_example_def temp_path_def)

lemma example_tail: "makeConfigTail haproxy_example fs = Inr []"
  by (simp add: makeConfigTail_def haproxy_example_def)


lemma quiet_exec: "exec quiet_env m w args = (w\<lparr>w_ran := w_ran w @ [hm_Executable m # args]\<rparr>, Ret None)"
  by (simp add: exec_def run_command_def quiet_env_def)

lemma quiet_writeConfig:
  assumes "fs_read (w_fs w) ''haproxy.cfg'' \<noteq> None" and "fs_deny (w_fs w) = []"
    and "fs_read (w_fs w) ''haproxy.pid'' = Some ''42''"
  shows "\<exists>w'. writeConfig quiet_env haproxy_example w = (w', Ret None) \<and>
    fs_read (w_fs w') ''haproxy.cfg'' \<noteq> None \<and> fs_deny (w_fs w') = [] \<and>
    fs_read (w_fs w') ''haproxy.pid'' = Some ''42''"
  using assms
  by (auto simp: writeConfig_def example_tail checkConfig_def quiet_exec
      install_config_def fs_write_def fs_rename_def fs_exists_def fs_read_map_of
      update_conv' delete_conv' Let_def)

lemma quiet_running:
  "fs_read fs ''haproxy.pid'' = Some ''42'' \<Longrightarrow> running quiet_env haproxy_example fs 42"
  by (simp add: running_def atoi_42 quiet_env_def)

lemma live_world_ok:
  "fs_read (w_fs live_world) ''haproxy.cfg'' = Some ''old''" "fs_deny (w_fs live_world) = []"
  "fs_read (w_fs live_world) ''haproxy.pid'' = Some ''42''"
  by (simp_all add: live_world_def fs_read_def)

lemma quiet_live:
  obtains w1 where "writeConfig quiet_env haproxy_example live_world = (w1, Ret None)"
    and "fs_read (w_fs w1) ''haproxy.cfg'' \<noteq> None" and "fs_deny (w_fs w1) = []"
    and "fs_read (w_fs w1) ''haproxy.pid'' = Some ''42''"
  using quiet_writeConfig [of live_world] live_world_ok by auto

theorem writeConfig_installs_checked_witness:
  "\<exists>w'. writeConfig quiet_env haproxy_example live_world = (w', Ret None) \<and>
     fs_read (w_fs w') (hm_ConfigPath haproxy_example) = Some (config_text haproxy_example) \<and>
     fs_read (w_fs w') (hm_OldConfigPath haproxy_example) = Some ''old''"
proof -
  obtain w1 where w1: "writeConfig quiet_env haproxy_example live_world = (w1, Ret None)"
    by (rule quiet_live)
  note r = writeConfig_installs_checked [OF quiet_untouched(1) example_paths_distinct w1]
  have "fs_read (w_fs live_world) (hm_ConfigPath haproxy_example) = Some ''old''"
    by (simp add: live_world_def haproxy_example_def fs_read_def)
  with r w1 show ?thesis by (auto simp: example_tail)
qed

theorem tick_reloads_on_change_witness:
  "w_ran (fst (tick quiet_env haproxy_example live_world)) =
     [check_argv haproxy_example, hm_Executable haproxy_example # reloadArguments haproxy_example 42]"
proof -
  obtain w1 where w1: "writeConfig quiet_env haproxy_example live_world = (w1, Ret None)"
    and pid: "fs_read (w_fs w1) ''haproxy.pid'' = Some ''42''"
    by (rule quiet_live)
  have "fs_read (w_fs live_world) (hm_ConfigPath haproxy_example) = Some ''old''"
    by (simp add: live_world_def haproxy_example_def fs_read_def)
  from tick_reloads_on_change [OF quiet_untouched(1) example_paths_distinct w1 quiet_running [OF pid]
      example_tail this]
  have "w_ran (fst (tick quiet_env haproxy_example live_world)) =
    w_ran live_world @ [check_argv haproxy_example] @ hook_argv (hm_BeforeCmd haproxy_example) ''before'' @
      [hm_Executable haproxy_example # reloadArguments haproxy_example 42] @
      hook_argv (hm_AfterCmd haproxy_example) ''after''"
    using example_text_neq [of "[]"] by simp
  then show ?thesis
    by (simp add: hook_argv_def) (simp add: live_world_def haproxy_example_def)
qed

theorem failed_reload_not_retried_witness:
  "\<exists>w1 w2. tick quiet_env haproxy_example live_world = (w1, Ret ()) \<and>
     tick quiet_env haproxy_example w1 = (w2, Ret ()) \<and> w_ran w2 = w_ran w1 @ [check_argv haproxy_example]"
proof -
  obtain w0 where w0: "writeConfig quiet_env haproxy_example live_world = (w0, Ret None)"
    and cfg: "fs_read (w_fs w0) ''haproxy.cfg'' \<noteq> None" and deny: "fs_deny (w_fs w0) = []"
    and pid: "fs_read (w_fs w0) ''haproxy.pid'' = Some ''42''"
    by (rule quiet_live)
  obtain w1 where t: "tick quiet_env haproxy_example live_world = (w1, Ret ())" and fs: "w_fs w1 = w_fs w0"
    using w0 reloadConfig_running [OF quiet_running [OF pid], of False]
    by (cases "FileIsIdentical (w_fs w0) ''haproxy.cfg'' ''haproxy.cfg.old''")
      (auto simp: tick_def reloadProcess_def quiet_exec beforeHook_def afterHook_def execHook_def Let_def)
  obtain w2 where w2: "writeConfig quiet_env haproxy_example w1 = (w2, Ret None)"
    and "fs_read (w_fs w2) ''haproxy.pid'' = Some ''42''"
    using quiet_writeConfig [of w1] cfg deny pid fs by auto
  from failed_reload_not_retried [OF quiet_untouched(1) example_paths_distinct t w2 quiet_running [OF this(2)]] t
  show ?thesis by blast
qed

theorem rejected_config_is_fatal_witness:
  "\<exists>w' p. tick strict_env haproxy_example live_world = (w', Panic p) \<and> p \<in> {LogPanic, NilDereference} \<and>
     fs_read (w_fs w') (hm_ConfigPath haproxy_example) = fs_read (w_fs live_world) (hm_ConfigPath haproxy_example) \<and>
     fs_read (w_fs w') (hm_OldConfigPath haproxy_example) = fs_read (w_fs live_world) (hm_OldConfigPath haproxy_example)"
proof -
  obtain fs1 where wr: "fs_write (w_fs live_world) (temp_path haproxy_example)
      (config_text haproxy_example @ []) = (True, fs1)"
    by (simp add: fs_write_def live_world_def)
  show ?thesis
    by (rule rejected_config_is_fatal [OF quiet_untouched(2) example_paths_distinct example_tail wr,
        of "Exited 256 ''bad'' None" fs1]) (simp_all add: strict_env_def)
qed

end
