(* ===== verification/Service.thy ===== *)
theory Service
  imports Sse Api Dns_Manager Udp_Manager Files_Manager Haproxy_Process
begin

text \<open>
  The service, src/main.go: the settings, the list of handlers that they enable, and the reactions
  to Marathon's events. An event fetches applications from Marathon and calls every handler in
  turn; the errors of the handlers are logged and do not stop the others.

  An application is one object, which all handlers share: the DNS manager keeps a pointer to it,
  and the HAProxy manager sorts its tasks in place. The state \<open>runtime\<close> therefore has a heap of
  applications, where every fetched object is allocated, besides the handlers with their states,
  the world (files and commands), the number of requests to Marathon and the logged errors.

  Parsing JSON, the command line and the log are not modelled: \<open>service_env\<close> has the decoding of
  the three kinds of events as parameters, besides those of the handlers.
\<close>

section \<open>State\<close>

record mmsd_config =
  ms_Verbose :: bool
  ms_RunStateDir :: string
  ms_FilterGroups :: string
  ms_LocalHealthChecks :: bool
  ms_BindIP :: string
  ms_FilesEnabled :: bool
  ms_MarathonScheme :: string
  ms_MarathonIP :: string
  ms_MarathonPort :: uint
  ms_ReconnectDelay :: int
  ms_GatewayEnabled :: bool
  ms_GatewayAddr :: string
  ms_GatewayPortHTTP :: uint
  ms_GatewayPortHTTPS :: uint
  ms_TCPEnabled :: bool
  ms_HaproxyBin :: string
  ms_HaproxyTailCfg :: string
  ms_HaproxyPort :: uint
  ms_HaproxyReloadInterval :: int
  ms_HaproxySyslogFacility :: string
  ms_HaproxyBeforeCmd :: string
  ms_HaproxyAfterCmd :: string
  ms_HaproxyReuseSocketPath :: string
  ms_HaproxyEnableReuseSocket :: bool
  ms_UDPEnabled :: bool
  ms_DnsEnabled :: bool
  ms_DnsPort :: uint
  ms_DnsBaseName :: string
  ms_DnsTTL :: int
  ms_DnsPushSRV :: bool

datatype handler = HDns dns_manager | HUdp udp_state | HHaproxy haproxy_state | HFiles files_state

record runtime =
  rt_handlers :: "handler list"
  rt_heap :: app_heap
  rt_world :: world
  rt_requests :: nat
  rt_logged :: "go_error list"

record status_update =
  su_appId :: string
  su_taskId :: string
  su_taskStatus :: task_status

record health_changed =
  hs_appId :: string
  hs_taskId :: string
  hs_alive :: bool

record service_env =
  se_host :: host_env
  se_udp :: udp_env
  se_admin :: admin_socket
  se_proc :: proc_env
  se_marathon :: marathon_client
  se_statusUpdate :: "string \<Rightarrow> status_update option"
  se_healthChanged :: "string \<Rightarrow> health_changed option"
  se_appTerminated :: "string \<Rightarrow> string option"

section \<open>Calling one handler\<close>

text \<open>
  The three methods of the interface \<open>mmsdHandler\<close>, by the type of the handler. The references are
  valid: they were allocated just before. A nil application is dereferenced by every \<open>Update\<close>.
\<close>

type_synonym call_result = "(app_heap \<times> world \<times> handler \<times> go_error option) go"

fun store_apps :: "app_heap \<Rightarrow> app_ref list \<Rightarrow> marathon_app list \<Rightarrow> app_heap" where
  "store_apps heap (ref # refs) (app # apps) = store_apps (heap[ref := app]) refs apps"
| "store_apps heap _ _ = heap"

definition call_Apply :: "service_env \<Rightarrow> app_ref list \<Rightarrow> app_heap \<Rightarrow> world \<Rightarrow> handler \<Rightarrow> call_result" where
  "call_Apply se refs heap w h =
     (let apps = map ((!) heap) refs in
      case h of
        HDns m \<Rightarrow> go_bind (dns_ApplyRefs (se_host se) heap m refs) (\<lambda>(m', err). Ret (heap, w, HDns m', err))
      | HUdp st \<Rightarrow> go_bind (udp_Apply (se_udp se) (se_host se) st apps) (\<lambda>(st', err). Ret (heap, w, HUdp st', err))
      | HHaproxy s \<Rightarrow> go_bind (haproxy_ApplyApps (se_host se) (fst s) apps) (\<lambda>(m', apps').
          Ret (store_apps heap refs apps', w, HHaproxy (m', snd s), None))
      | HFiles m \<Rightarrow> go_bind (files_Apply (m\<lparr>fm_fs := w_fs w\<rparr>) apps) (\<lambda>(m', err).
          Ret (heap, w\<lparr>w_fs := fm_fs m'\<rparr>, HFiles m', err)))"

definition call_Update :: "service_env \<Rightarrow> app_ref option \<Rightarrow> string \<Rightarrow> app_heap \<Rightarrow> world \<Rightarrow> handler \<Rightarrow> call_result" where
  "call_Update se refo taskID heap w h =
     (case refo of
        None \<Rightarrow> Panic NilDereference
      | Some ref \<Rightarrow>
         (case h of
            HDns m \<Rightarrow> go_bind (updateApp (se_host se) heap m ref) (\<lambda>(m', err). Ret (heap, w, HDns m', err))
          | HUdp st \<Rightarrow> go_bind (udp_Update (se_udp se) (se_host se) st (heap ! ref) taskID) (\<lambda>(st', err).
              Ret (heap, w, HUdp st', err))
          | HHaproxy s \<Rightarrow> go_bind (haproxy_UpdateApp (se_host se) (se_admin se) (fst s) (heap ! ref) taskID)
              (\<lambda>(m', app', sent, err). Ret (heap[ref := app'], w, HHaproxy (m', snd s @ sent), err))
          | HFiles m \<Rightarrow> go_bind (files_Update (m\<lparr>fm_fs := w_fs w\<rparr>) (heap ! ref) taskID) (\<lambda>(m', err).
              Ret (heap, w\<lparr>w_fs := fm_fs m'\<rparr>, HFiles m', err))))"

definition call_Remove :: "service_env \<Rightarrow> string \<Rightarrow> string \<Rightarrow> app_ref option \<Rightarrow> app_heap \<Rightarrow> world \<Rightarrow> handler \<Rightarrow> call_result" where
  "call_Remove se appID taskID refo heap w h =
     (let appo = map_option ((!) heap) refo in
      case h of
        HDns m \<Rightarrow> go_bind (dns_RemoveRef (se_host se) heap m appID refo) (\<lambda>(m', err). Ret (heap, w, HDns m', err))
      | HUdp st \<Rightarrow> go_bind (udp_Remove (se_udp se) (se_host se) st appID taskID appo) (\<lambda>(st', err).
          Ret (heap, w, HUdp st', err))
      | HHaproxy s \<Rightarrow> go_bind (haproxy_RemoveApp (se_host se) (fst s) appID taskID appo) (\<lambda>(m', appo').
          Ret (case (refo, appo') of (Some ref, Some app') \<Rightarrow> heap[ref := app'] | _ \<Rightarrow> heap,
            w, HHaproxy (m', snd s), None))
      | HFiles m \<Rightarrow> go_bind (files_Remove (m\<lparr>fm_fs := w_fs w\<rparr>) appID taskID appo) (\<lambda>(m', err).
          Ret (heap, w\<lparr>w_fs := fm_fs m'\<rparr>, HFiles m', err)))"

section \<open>Calling every handler\<close>

fun each_handler :: "(app_heap \<Rightarrow> world \<Rightarrow> handler \<Rightarrow> call_result) \<Rightarrow> app_heap \<Rightarrow> world \<Rightarrow> handler list
    \<Rightarrow> (app_heap \<times> world \<times> handler list \<times> go_error list) go" where
  "each_handler call heap w [] = Ret (heap, w, [], [])"
| "each_handler call heap w (h # hs) =
     go_bind (call heap w h) (\<lambda>(heap1, w1, h', err).
     go_bind (each_handler call heap1 w1 hs) (\<lambda>(heap2, w2, hs', errs).
       Ret (heap2, w2, h' # hs', (case err of Some e \<Rightarrow> e # errs | None \<Rightarrow> errs))))"

definition all_handlers :: "(app_heap \<Rightarrow> world \<Rightarrow> handler \<Rightarrow> call_result) \<Rightarrow> runtime \<Rightarrow> runtime go" where
  "all_handlers call rt =
     go_bind (each_handler call (rt_heap rt) (rt_world rt) (rt_handlers rt)) (\<lambda>(heap, w, hs, errs).
       Ret (rt\<lparr>rt_handlers := hs, rt_heap := heap, rt_world := w, rt_logged := rt_logged rt @ errs\<rparr>))"

definition getMarathonApp :: "service_env \<Rightarrow> mmsd_config \<Rightarrow> runtime \<Rightarrow> string
    \<Rightarrow> runtime \<times> (go_error + app_ref option)" where
  "getMarathonApp se cfg rt appID =
     (case se_marathon se (ms_MarathonIP cfg) (ms_MarathonPort cfg) of
        Inl err \<Rightarrow> (rt, Inl err)
      | Inr m \<Rightarrow>
          let rt' = rt\<lparr>rt_requests := Suc (rt_requests rt)\<rparr> in
          (case mc_getApp m (rt_requests rt) appID of
             Inl err \<Rightarrow> (rt', Inl err)
           | Inr None \<Rightarrow> (rt', Inr None)
           | Inr (Some app) \<Rightarrow> (rt'\<lparr>rt_heap := rt_heap rt @ [app]\<rparr>, Inr (Some (length (rt_heap rt))))))"

text \<open>\<open>mmsdService.Update\<close> fetches the application itself and does not use its argument \<open>alive\<close>.\<close>

definition mmsd_Update :: "service_env \<Rightarrow> mmsd_config \<Rightarrow> runtime \<Rightarrow> string \<Rightarrow> string \<Rightarrow> bool \<Rightarrow> runtime go" where
  "mmsd_Update se cfg rt appID taskID alive =
     (case getMarathonApp se cfg rt appID of
        (rt', Inl err) \<Rightarrow> Ret rt'
      | (rt', Inr app) \<Rightarrow> all_handlers (call_Update se app taskID) rt')"

definition mmsd_Remove :: "service_env \<Rightarrow> runtime \<Rightarrow> string \<Rightarrow> string \<Rightarrow> app_ref option \<Rightarrow> runtime go" where
  "mmsd_Remove se rt appID taskID app = all_handlers (call_Remove se appID taskID app) rt"

definition MaybeResetFromTasks :: "service_env \<Rightarrow> mmsd_config \<Rightarrow> runtime \<Rightarrow> bool \<Rightarrow> (runtime \<times> go_error option) go" where
  "MaybeResetFromTasks se cfg rt force =
     (case se_marathon se (ms_MarathonIP cfg) (ms_MarathonPort cfg) of
        Inl err \<Rightarrow> Ret (rt, Some (''Could not create new marathon service. '' @ err))
      | Inr m \<Rightarrow>
          let rt' = rt\<lparr>rt_requests := Suc (rt_requests rt)\<rparr> in
          (case mc_getApps m (rt_requests rt) of
             Inl err \<Rightarrow> Ret (rt', Some (''Could not get apps. '' @ err))
           | Inr apps \<Rightarrow>
               let heap = rt_heap rt @ apps in
               go_bind (all_handlers (call_Apply se [length (rt_heap rt)..<length heap]) (rt'\<lparr>rt_heap := heap\<rparr>))
                 (\<lambda>rt2. Ret (rt2, None))))"

section \<open>Events\<close>

definition statusUpdateEvent :: "service_env \<Rightarrow> mmsd_config \<Rightarrow> runtime \<Rightarrow> status_update \<Rightarrow> runtime go" where
  "statusUpdateEvent se cfg rt event =
     (if su_taskStatus event = TaskRunning then
        (case getMarathonApp se cfg rt (su_appId event) of
           (rt', Inl err) \<Rightarrow> Ret rt'
         | (rt', Inr None) \<Rightarrow> Panic NilDereference
         | (rt', Inr (Some ref)) \<Rightarrow>
             if length (a_healthChecks (rt_heap rt' ! ref)) = 0
             then mmsd_Update se cfg rt' (su_appId event) (su_taskId event) True
             else Ret rt')
      else if su_taskStatus event \<in> {TaskFinished, TaskFailed, TaskKilling, TaskKilled, TaskLost} then
        (case getMarathonApp se cfg rt (su_appId event) of
           (rt', Inl err) \<Rightarrow> Ret rt'
         | (rt', Inr app) \<Rightarrow> mmsd_Remove se rt' (su_appId event) (su_taskId event) app)
      else Ret rt)"

definition appTerminatedEvent :: "service_env \<Rightarrow> runtime \<Rightarrow> string \<Rightarrow> runtime go" where
  "appTerminatedEvent se rt appID = mmsd_Remove se rt appID '''' None"

definition healthStatusChangedEvent :: "service_env \<Rightarrow> mmsd_config \<Rightarrow> runtime \<Rightarrow> health_changed \<Rightarrow> runtime go" where
  "healthStatusChangedEvent se cfg rt event =
     (case getMarathonApp se cfg rt (hs_appId event) of
        (rt', Inl err) \<Rightarrow> Ret rt'
      | (rt', Inr None) \<Rightarrow> Ret rt'
      | (rt', Inr (Some ref)) \<Rightarrow>
         (case env_getTask (se_host se) (rt_heap rt' ! ref) (hs_taskId event) of
            None \<Rightarrow> mmsd_Remove se rt' (hs_appId event) (hs_taskId event) (Some ref)
          | Some task \<Rightarrow> mmsd_Update se cfg rt' (hs_appId event) (hs_taskId event) (hs_alive event)))"

text \<open>
  The event source with its listeners. A listener is known by the name of its event; what it does
  with the data is \<open>listener\<close>, and \<open>callbacks\<close> runs the calls that a connection made, in order
  (the calls of \<open>OnOpen\<close> and \<open>OnError\<close> only log).
\<close>

definition setupEventBusListener :: "mmsd_config \<Rightarrow> event_source go" where
  "setupEventBusListener cfg =
     (let url = ''http://'' @ ms_MarathonIP cfg @ '':'' @ uint_str (ms_MarathonPort cfg) @ ''/v2/events'';
          sse = (NewEventSource url (ms_ReconnectDelay cfg))
            \<lparr>es_onOpen := Some ''OnOpen'', es_onError := Some ''OnError''\<rparr> in
      go_bind (AddEventListener sse ''status_update_event'' ''status_update_event'') (\<lambda>sse.
      go_bind (AddEventListener sse ''health_status_changed_event'' ''health_status_changed_event'') (\<lambda>sse.
        AddEventListener sse ''app_terminated_event'' ''app_terminated_event'')))"

definition listener :: "service_env \<Rightarrow> mmsd_config \<Rightarrow> runtime \<Rightarrow> callback \<Rightarrow> string \<Rightarrow> runtime go" where
  "listener se cfg rt cb data =
     (if cb = ''status_update_event'' then
        (case se_statusUpdate se data of None \<Rightarrow> Ret rt | Some event \<Rightarrow> statusUpdateEvent se cfg rt event)
      else if cb = ''health_status_changed_event'' then
        (case se_healthChanged se data of None \<Rightarrow> Ret rt | Some event \<Rightarrow> healthStatusChangedEvent se cfg rt event)
      else if cb = ''app_terminated_event'' then
        (case se_appTerminated se data of None \<Rightarrow> Ret rt | Some appID \<Rightarrow> appTerminatedEvent se rt appID)
      else Ret rt)"

primrec callback_step :: "service_env \<Rightarrow> mmsd_config \<Rightarrow> runtime \<Rightarrow> sse_call \<Rightarrow> runtime go" where
  "callback_step se cfg rt (CallHandler cb data) = listener se cfg rt cb data"
| "callback_step se cfg rt (CallOnMessage cb event data) = Ret rt"
| "callback_step se cfg rt (CallOnOpen cb event data) = Ret rt"
| "callback_step se cfg rt (CallOnError cb event data) = Ret rt"
| "callback_step se cfg rt (Sleep duration) = Ret rt"

definition callbacks :: "service_env \<Rightarrow> mmsd_config \<Rightarrow> runtime \<Rightarrow> sse_call list \<Rightarrow> runtime go" where
  "callbacks se cfg = go_fold (callback_step se cfg)"

section \<open>Setting up\<close>

definition new_dns :: "mmsd_config \<Rightarrow> dns_manager" where
  "new_dns cfg =
     \<lparr>dm_verbose = ms_Verbose cfg, dm_serviceAddr = ms_BindIP cfg, dm_servicePort = ms_DnsPort cfg,
      dm_baseName = ms_DnsBaseName cfg, dm_dnsTTL = ms_DnsTTL cfg, dm_pushSRV = ms_DnsPushSRV cfg, dm_db = None\<rparr>"

definition new_udp :: "mmsd_config \<Rightarrow> udp_state" where
  "new_udp cfg = udp_manager.extend
     (NewUdpManager (ms_BindIP cfg) (ms_Verbose cfg) (ms_UDPEnabled cfg)) \<lparr>us_socks = [], us_serving = []\<rparr>"

definition new_haproxy :: "mmsd_config \<Rightarrow> haproxy_mgr" where
  "new_haproxy cfg =
     \<lparr>hm_Enabled = ms_TCPEnabled cfg, hm_Verbose = ms_Verbose cfg, hm_LocalHealthChecks = ms_LocalHealthChecks cfg,
      hm_FilterGroups = split_str CHR '','' (ms_FilterGroups cfg), hm_Address = ms_BindIP cfg,
      hm_GatewayEnabled = ms_GatewayEnabled cfg, hm_GatewayAddr = ms_GatewayAddr cfg,
      hm_GatewayPortHTTP = ms_GatewayPortHTTP cfg, hm_GatewayPortHTTPS = ms_GatewayPortHTTPS cfg,
      hm_Executable = ms_HaproxyBin cfg, hm_ConfigPath = path_join (ms_RunStateDir cfg) ''haproxy.cfg'',
      hm_ConfigTailPath = ms_HaproxyTailCfg cfg,
      hm_OldConfigPath = path_join (ms_RunStateDir cfg) ''haproxy.cfg.old'',
      hm_PidFile = path_join (ms_RunStateDir cfg) ''haproxy.pid'', hm_ManagementPort = ms_HaproxyPort cfg,
      hm_ReloadInterval = ms_HaproxyReloadInterval cfg,
      hm_AdminSockPath = path_join (ms_RunStateDir cfg) ''haproxy.sock'',
      hm_SyslogFacility = ms_HaproxySyslogFacility cfg, hm_BeforeCmd = ms_HaproxyBeforeCmd cfg,
      hm_AfterCmd = ms_HaproxyAfterCmd cfg, hm_ReuseSocketPath = [],
      hm_EnableReuseSocket = ms_HaproxyEnableReuseSocket cfg,
      hm_appConfigFragments = None, hm_appLabels = None, hm_appStateCache = None, hm_taskCells = [],
      hm_vhosts = None, hm_vhostDefault = [], hm_vhostsHTTPS = None, hm_vhostDefaultHTTPS = []\<rparr>"

definition new_files :: "mmsd_config \<Rightarrow> file_system \<Rightarrow> files_state" where
  "new_files cfg fs =
     \<lparr>fm_enabled = ms_FilesEnabled cfg, fm_verbose = ms_Verbose cfg, fm_basePath = ms_RunStateDir cfg @ ''/confd'',
      fm_fs = fs\<rparr>"

text \<open>The handlers in the order of the list; the \<open>Setup\<close> of none of them returns an error.\<close>

definition new_handlers :: "mmsd_config \<Rightarrow> file_system \<Rightarrow> handler list" where
  "new_handlers cfg fs =
     (if ms_DnsEnabled cfg then [HDns (new_dns cfg)] else []) @
     (if ms_UDPEnabled cfg then [HUdp (new_udp cfg)] else []) @
     (if ms_TCPEnabled cfg then [HHaproxy (new_haproxy cfg, [])] else []) @
     (if ms_FilesEnabled cfg then [HFiles (new_files cfg fs)] else [])"

definition setupHandlers :: "service_env \<Rightarrow> mmsd_config \<Rightarrow> world \<Rightarrow> runtime go" where
  "setupHandlers se cfg w =
     go_bind (MaybeResetFromTasks se cfg
         \<lparr>rt_handlers = new_handlers cfg (w_fs w), rt_heap = [], rt_world = w, rt_requests = 0, rt_logged = []\<rparr> True)
       (\<lambda>(rt, err). Ret rt)"

definition main_config :: "file_system \<Rightarrow> string \<Rightarrow> mmsd_config" where
  "main_config fs PATH =
     \<lparr>ms_Verbose = False, ms_RunStateDir = ''/var/run/mmsd'', ms_FilterGroups = ''*'', ms_LocalHealthChecks = True,
      ms_BindIP = ''0.0.0.0'', ms_FilesEnabled = True, ms_MarathonScheme = ''http'', ms_MarathonIP = ''127.0.0.1'',
      ms_MarathonPort = 8080, ms_ReconnectDelay = 4000000000, ms_GatewayEnabled = False, ms_GatewayAddr = ''0.0.0.0'',
      ms_GatewayPortHTTP = 80, ms_GatewayPortHTTPS = 443, ms_TCPEnabled = True,
      ms_HaproxyBin = locateExe fs PATH ''haproxy'', ms_HaproxyTailCfg = ''/etc/mmsd/haproxy-tail.cfg'',
      ms_HaproxyPort = 8081, ms_HaproxyReloadInterval = 5000000000, ms_HaproxySyslogFacility = ''local5'',
      ms_HaproxyBeforeCmd = [], ms_HaproxyAfterCmd = [], ms_HaproxyReuseSocketPath = [],
      ms_HaproxyEnableReuseSocket = False, ms_UDPEnabled = True, ms_DnsEnabled = False, ms_DnsPort = 53,
      ms_DnsBaseName = ''mmsd.'', ms_DnsTTL = 5000000000, ms_DnsPushSRV = False\<rparr>"

text \<open>
  \<open>Run\<close>, which starts the service: \<open>parse\<close> is the command line, which may change every setting and
  the port of the API, and may ask for the version only.
\<close>

definition appVersion :: string where
  "appVersion = ''0.13.0''"

definition mmsd_Run :: "service_env \<Rightarrow> (mmsd_config \<Rightarrow> uint \<Rightarrow> mmsd_config \<times> uint \<times> bool) \<Rightarrow> mmsd_config
    \<Rightarrow> world \<Rightarrow> (runtime \<times> event_source \<times> api_config) option go" where
  "mmsd_Run se parse cfg w =
     (let (cfg', apiPort, showVersionAndExit) = parse cfg 8082 in
      if showVersionAndExit then Ret None
      else
        go_bind (setupHandlers se cfg' w) (\<lambda>rt.
        go_bind (setupEventBusListener cfg') (\<lambda>sse.
          Ret (Some (rt, sse,
            NewAPI appVersion (ms_MarathonIP cfg') (ms_MarathonPort cfg') (ms_BindIP cfg') apiPort)))))"

section \<open>Steps of the service\<close>

text \<open>
  After the set-up the program takes calls of the event source and, in another goroutine, turns of
  the HAProxy loop. The mutex of the HAProxy manager orders a turn before or after a call of that
  handler, and the other handlers do not touch its state and files, so the interleavings are the
  sequences of whole steps.
\<close>

datatype service_step = SseCall sse_call | HaproxyTick

fun find_haproxy :: "handler list \<Rightarrow> haproxy_mgr option" where
  "find_haproxy [] = None"
| "find_haproxy (HHaproxy s # hs) = Some (fst s)"
| "find_haproxy (h # hs) = find_haproxy hs"

primrec service_do :: "service_env \<Rightarrow> mmsd_config \<Rightarrow> runtime \<Rightarrow> service_step \<Rightarrow> runtime go" where
  "service_do se cfg rt (SseCall call) = callback_step se cfg rt call"
| "service_do se cfg rt HaproxyTick =
     (case find_haproxy (rt_handlers rt) of
        None \<Rightarrow> Ret rt
      | Some m \<Rightarrow>
         (case tick (se_proc se) m (rt_world rt) of
            (w, Panic p) \<Rightarrow> Panic p
          | (w, Ret u) \<Rightarrow> Ret (rt\<lparr>rt_world := w\<rparr>)))"

definition service_run :: "service_env \<Rightarrow> mmsd_config \<Rightarrow> runtime \<Rightarrow> service_step list \<Rightarrow> runtime go" where
  "service_run se cfg = go_fold (service_do se cfg)"

end
