(* ===== verification/Service_Invariant.thy ===== *)
theory Service_Invariant
  imports Service
begin

text \<open>
  What every state of the service satisfies. The handlers share the application objects, and the
  HAProxy manager permutes their tasks while the DNS manager points to them; so the invariant of
  the DNS manager alone (the addresses are those of the tasks, in order) does not survive in the
  service, and is weakened to addresses in any order (\<open>dns_served\<close>). The locale \<open>service_call\<close> is
  what the service relies on when it calls a method of its handlers.
\<close>

section \<open>What rendering does to the applications\<close>

text \<open>Two states of an application object: the tasks may have been permuted, nothing else.\<close>

definition same_app :: "marathon_app \<Rightarrow> marathon_app \<Rightarrow> bool" where
  "same_app a b \<longleftrightarrow> b\<lparr>a_tasks := []\<rparr> = a\<lparr>a_tasks := []\<rparr> \<and> mset (a_tasks b) = mset (a_tasks a)"

lemma same_app_refl [simp]: "same_app a a"
  by (simp add: same_app_def)

lemma same_app_sym: "same_app a b \<Longrightarrow> same_app b a"
  by (simp add: same_app_def)

lemma same_app_trans: "same_app a b \<Longrightarrow> same_app b c \<Longrightarrow> same_app a c"
  by (simp add: same_app_def)

lemma same_app_id: "same_app a b \<Longrightarrow> a_id b = a_id a"
  unfolding same_app_def by (drule conjunct1, drule arg_cong [of _ _ a_id]) simp

lemma same_app_mset: "same_app a b \<Longrightarrow> mset (a_tasks b) = mset (a_tasks a)"
  by (simp add: same_app_def)

lemma makeConfigForPort_same:
  "sort_ok (env_sortTasks env) \<Longrightarrow> makeConfigForPort env m app i = Ret (m', app', s) \<Longrightarrow> same_app app app'"
  by (auto simp: makeConfigForPort_def go_bind_eq_Ret Let_def same_app_def mset_sortTasks split: if_splits)

lemma config_ports_same:
  assumes "sort_ok (env_sortTasks env)"
  shows "config_ports env m app r i pds = Ret (m', app', s) \<Longrightarrow> same_app app app'"
proof (induction pds arbitrary: m app r i)
  case (Cons pd pds)
  show ?case
  proof (cases "isGroupIncluded m (pd_label pd ''lb-group'')")
    case True
    with Cons.prems obtain m1 app1 s1 where 1: "makeConfigForPort env m app i = Ret (m1, app1, s1)"
      and 2: "config_ports env m1 app1 (r @ s1) (Suc i) pds = Ret (m', app', s)"
      by (auto simp: go_bind_eq_Ret)
    show ?thesis by (rule same_app_trans [OF makeConfigForPort_same [OF assms 1] Cons.IH [OF 2]])
  next
    case False
    with Cons show ?thesis by auto
  qed
qed simp

lemma makeConfig_same:
  assumes "sort_ok (env_sortTasks env)" and "makeConfig env m app = Ret (m', app', s)"
  shows "same_app app app'"
proof -
  from assms(2) obtain l where "config_ports env (m\<lparr>hm_appLabels := l\<rparr>) app [] 0 (a_portDefs app) = Ret (m', app', s)"
    by (auto simp: makeConfig_def go_bind_eq_Ret Let_def)
  from config_ports_same [OF assms(1) this] show ?thesis .
qed

lemma put_config_same:
  "sort_ok (env_sortTasks env) \<Longrightarrow> put_config env m app = Ret (m', app') \<Longrightarrow> same_app app app'"
  by (auto simp: put_config_def go_bind_eq_Ret dest: makeConfig_same)

lemma put_configs_same:
  "sort_ok (env_sortTasks env) \<Longrightarrow> put_configs env m apps = Ret (m', apps') \<Longrightarrow> list_all2 same_app apps apps'"
  by (induction apps arbitrary: m apps') (auto simp: go_bind_eq_Ret dest: put_config_same)

lemma UpdateApp_same:
  "sort_ok (env_sortTasks env) \<Longrightarrow> haproxy_UpdateApp env admin m app tid = Ret (m', app', sent, err) \<Longrightarrow>
   same_app app app'"
  by (auto simp: haproxy_UpdateApp_def go_bind_eq_Ret Let_def split: if_split_asm prod.split_asm
      dest: put_config_same)

lemma RemoveApp_same:
  "sort_ok (env_sortTasks env) \<Longrightarrow> haproxy_RemoveApp env m aid tid (Some app) = Ret (m', appo') \<Longrightarrow>
   \<exists>app'. appo' = Some app' \<and> same_app app app'"
  by (auto simp: haproxy_RemoveApp_def go_bind_eq_Ret dest: makeConfig_same)

section \<open>The heap\<close>

definition heap_le :: "app_heap \<Rightarrow> app_heap \<Rightarrow> bool" where
  "heap_le heap heap' \<longleftrightarrow> length heap \<le> length heap' \<and> (\<forall>i<length heap. same_app (heap ! i) (heap' ! i))"

lemma heap_le_refl [simp]: "heap_le heap heap"
  by (simp add: heap_le_def)

lemma heap_le_trans: "heap_le a b \<Longrightarrow> heap_le b c \<Longrightarrow> heap_le a c"
  unfolding heap_le_def by (meson less_le_trans order_trans same_app_trans)

lemma heap_le_append [simp]: "heap_le heap (heap @ apps)"
  by (simp add: heap_le_def nth_append)

lemma nth_update_cases: "i < length xs \<Longrightarrow> xs[k := x] ! i = (if k = i then x else xs ! i)"
  by (cases "k < length xs") (auto simp: nth_list_update)

lemma heap_le_update: "same_app (heap ! ref) app \<Longrightarrow> heap_le heap (heap[ref := app])"
  by (simp add: heap_le_def nth_update_cases)

lemma store_apps_le:
  assumes "list_all2 (\<lambda>ref app. same_app (heap ! ref) app) refs apps" and "heap_le heap heap'"
    and "length heap' = length heap"
  shows "heap_le heap (store_apps heap' refs apps)"
  using assms
proof (induction refs apps arbitrary: heap' rule: list_all2_induct)
  case (Cons ref refs app apps)
  have "heap_le heap (heap'[ref := app])"
    using Cons.hyps(1) Cons.prems by (auto simp: heap_le_def nth_update_cases)
  with Cons.IH [of "heap'[ref := app]"] Cons.prems(2) show ?case by simp
qed simp

text \<open>Names resolve to the same addresses in another order when tasks are permuted.\<close>

lemma resolve_tasks_mset:
  assumes "resolve_tasks env ts = Inr ips" and "mset us = mset ts"
  shows "\<exists>ips'. resolve_tasks env us = Inr ips' \<and> mset ips' = mset ips"
proof -
  let ?f = "\<lambda>t. ip_bytes (the (env_resolveIP env (t_host t)))"
  let ?ok = "\<lambda>ts. \<forall>t\<in>set ts. env_resolveIP env (t_host t) \<noteq> None"
  have eq: "resolve_tasks env ts = (if ?ok ts then Inr (map ?f ts) else Inl ''resolve'')" for ts
    by (induction ts) (auto split: option.splits)
  from assms(2) have "set us = set ts" by (rule mset_eq_setD)
  with assms show ?thesis by (auto simp: eq split: if_splits)
qed

section \<open>The invariant\<close>

definition dns_served :: "host_env \<Rightarrow> app_heap \<Rightarrow> dns_manager \<Rightarrow> bool" where
  "dns_served env heap m \<longleftrightarrow>
     (\<forall>name e. gm_get (dm_db m) name = Some e \<longrightarrow>
        ae_app e < length heap \<and> makeDnsNameFromAppId (a_id (heap ! ae_app e)) = name \<and>
        (\<exists>ips. resolve_tasks env (a_tasks (heap ! ae_app e)) = Inr ips \<and> mset ips = mset (ae_ipAddresses e)))"

definition handler_ok :: "host_env \<Rightarrow> app_heap \<Rightarrow> handler \<Rightarrow> bool" where
  "handler_ok env heap h =
     (case h of HDns m \<Rightarrow> dns_served env heap m | HUdp st \<Rightarrow> udp_ok st
      | HHaproxy s \<Rightarrow> haproxy_ok (fst s) | HFiles m \<Rightarrow> True)"

definition service_ok :: "host_env \<Rightarrow> runtime \<Rightarrow> bool" where
  "service_ok env rt \<longleftrightarrow> (\<forall>h\<in>set (rt_handlers rt). handler_ok env (rt_heap rt) h)"

datatype kind = KDns | KUdp | KHaproxy | KFiles

fun handler_kind :: "handler \<Rightarrow> kind" where
  "handler_kind (HDns m) = KDns"
| "handler_kind (HUdp st) = KUdp"
| "handler_kind (HHaproxy s) = KHaproxy"
| "handler_kind (HFiles m) = KFiles"

lemma dns_served_mono:
  assumes "dns_served env heap m" and le: "heap_le heap heap'"
  shows "dns_served env heap' m"
  unfolding dns_served_def
proof (intro allI impI)
  fix name e
  assume "gm_get (dm_db m) name = Some e"
  with assms(1) obtain ips where i: "ae_app e < length heap"
    and n: "makeDnsNameFromAppId (a_id (heap ! ae_app e)) = name"
    and r: "resolve_tasks env (a_tasks (heap ! ae_app e)) = Inr ips" "mset ips = mset (ae_ipAddresses e)"
    unfolding dns_served_def by blast
  from le i have j: "ae_app e < length heap'" and s: "same_app (heap ! ae_app e) (heap' ! ae_app e)"
    by (auto simp: heap_le_def)
  from resolve_tasks_mset [OF r(1) same_app_mset [OF s]] r(2) n j same_app_id [OF s]
  show "ae_app e < length heap' \<and> makeDnsNameFromAppId (a_id (heap' ! ae_app e)) = name \<and>
        (\<exists>ips. resolve_tasks env (a_tasks (heap' ! ae_app e)) = Inr ips \<and> mset ips = mset (ae_ipAddresses e))"
    by auto
qed

lemma handler_ok_mono: "handler_ok env heap h \<Longrightarrow> heap_le heap heap' \<Longrightarrow> handler_ok env heap' h"
  by (cases h) (auto simp: handler_ok_def intro: dns_served_mono)

lemma dns_served_put:
  assumes "dns_served env heap m" and "updateApp env heap m ref = Ret (m', err)"
  shows "dns_served env heap m'"
proof -
  from assms(2) have ref: "ref < length heap"
    by (auto simp: updateApp_def go_bind_eq_Ret go_nth_eq_Ret)
  show ?thesis
  proof (cases "resolve_tasks env (a_tasks (heap ! ref))")
    case (Inl e)
    with updateApp_Inl [OF ref] assms show ?thesis by simp
  next
    case (Inr ips)
    with assms(2) ref obtain db where "gm_put (dm_db m) (makeDnsNameFromAppId (a_id (heap ! ref)))
        \<lparr>ae_ipAddresses = ips, ae_app = ref\<rparr> = Ret db" and "m' = m\<lparr>dm_db := db\<rparr>"
      by (auto simp: updateApp_def go_bind_eq_Ret go_nth_def)
    with assms(1) Inr ref show ?thesis by (auto simp: dns_served_def dest!: gm_get_put split: if_splits)
  qed
qed

lemma dns_served_Apply:
  "dns_ApplyRefs env heap m refs = Ret (m', err) \<Longrightarrow> dns_served env heap m'"
proof -
  have "dns_served env heap m \<Longrightarrow> updateApps env heap m refs = Ret (m', err) \<Longrightarrow> dns_served env heap m'" for m
    by (induction refs arbitrary: m) (auto simp: go_bind_eq_Ret split: option.splits dest: dns_served_put)
  moreover have "dns_served env heap (dns_clear m)" by (simp add: dns_served_def dns_clear_def)
  moreover assume "dns_ApplyRefs env heap m refs = Ret (m', err)"
  ultimately show ?thesis by (simp add: dns_ApplyRefs_def)
qed

lemma dns_served_delete: "dns_served env heap m \<Longrightarrow> dns_served env heap (m\<lparr>dm_db := gm_delete (dm_db m) name\<rparr>)"
  by (simp add: dns_served_def gm_get_delete)

lemma dns_served_Remove:
  "dns_served env heap m \<Longrightarrow> dns_RemoveRef env heap m aid refo = Ret (m', err) \<Longrightarrow> dns_served env heap m'"
  by (cases refo) (auto simp: dns_RemoveRef_def dest: dns_served_put intro: dns_served_delete)

section \<open>The contract of a call\<close>

locale service_call =
  fixes env :: host_env and call :: "app_heap \<Rightarrow> world \<Rightarrow> handler \<Rightarrow> call_result"
  assumes call_ok: "sort_ok (env_sortTasks env) \<Longrightarrow> handler_ok env heap h \<Longrightarrow>
      call heap w h = Ret (heap', w', h', err) \<Longrightarrow> heap_le heap heap' \<and> handler_ok env heap' h'"
    and call_kind: "call heap w h = Ret (heap', w', h', err) \<Longrightarrow> handler_kind h' = handler_kind h"
begin

lemma each_ok:
  assumes "sort_ok (env_sortTasks env)" and "\<forall>h\<in>set hs. handler_ok env heap h"
    and "each_handler call heap w hs = Ret (heap', w', hs', errs)"
  shows "heap_le heap heap' \<and> (\<forall>h\<in>set hs'. handler_ok env heap' h)"
  using assms(2,3)
proof (induction hs arbitrary: heap w heap' w' hs' errs)
  case (Cons h hs)
  from Cons.prems(2) obtain heap1 w1 h1 err hs1 errs1 where c: "call heap w h = Ret (heap1, w1, h1, err)"
    and e: "each_handler call heap1 w1 hs = Ret (heap', w', hs1, errs1)" and hs': "hs' = h1 # hs1"
    by (auto simp: go_bind_eq_Ret)
  from call_ok [OF assms(1) _ c] Cons.prems(1) have 1: "heap_le heap heap1" "handler_ok env heap1 h1" by auto
  have "\<forall>h\<in>set hs. handler_ok env heap1 h" using Cons.prems(1) handler_ok_mono [OF _ 1(1)] by simp
  from Cons.IH [OF this e] 1 hs' show ?case by (auto intro: heap_le_trans handler_ok_mono)
qed simp

lemma each_kinds:
  "each_handler call heap w hs = Ret (heap', w', hs', errs) \<Longrightarrow> map handler_kind hs' = map handler_kind hs"
  by (induction hs arbitrary: heap w heap' w' hs' errs) (auto simp: go_bind_eq_Ret dest: call_kind)

lemma all_ok:
  assumes "sort_ok (env_sortTasks env)" and "service_ok env rt" and "all_handlers call rt = Ret rt'"
  shows "service_ok env rt'"
  using assms(2,3) each_ok [OF assms(1), of "rt_handlers rt" "rt_heap rt" "rt_world rt"]
  by (auto simp: all_handlers_def service_ok_def go_bind_eq_Ret)

lemma all_kinds:
  "all_handlers call rt = Ret rt' \<Longrightarrow> map handler_kind (rt_handlers rt') = map handler_kind (rt_handlers rt)"
  by (auto simp: all_handlers_def go_bind_eq_Ret dest: each_kinds)

end

lemma list_all2_store: "list_all2 same_app (map ((!) heap) refs) apps \<Longrightarrow>
    heap_le heap (store_apps heap refs apps)"
  by (rule store_apps_le) (simp_all add: list_all2_map1)

interpretation apply_call: service_call "se_host se" "call_Apply se refs"
proof unfold_locales
  fix heap heap' :: app_heap and w w' :: world and h h' :: handler and err
  assume c: "call_Apply se refs heap w h = Ret (heap', w', h', err)"
  show "handler_kind h' = handler_kind h"
    using c by (cases h) (auto simp: call_Apply_def Let_def go_bind_eq_Ret)
  assume s: "sort_ok (env_sortTasks (se_host se))" and ok: "handler_ok (se_host se) heap h"
  show "heap_le heap heap' \<and> handler_ok (se_host se) heap' h'"
    using c ok by (cases h)
      (auto simp: call_Apply_def Let_def go_bind_eq_Ret handler_ok_def haproxy_ApplyApps_def
        intro: dns_served_Apply udp.Apply_inv list_all2_store put_configs_same [OF s]
          haproxy_ok_put_configs [OF haproxy_ok_reset])
qed

interpretation update_call: service_call "se_host se" "call_Update se refo tid"
proof unfold_locales
  fix heap heap' :: app_heap and w w' :: world and h h' :: handler and err
  assume c: "call_Update se refo tid heap w h = Ret (heap', w', h', err)"
  then obtain ref where r: "refo = Some ref" by (cases refo) (auto simp: call_Update_def)
  show "handler_kind h' = handler_kind h"
    using c r by (cases h) (auto simp: call_Update_def go_bind_eq_Ret)
  assume s: "sort_ok (env_sortTasks (se_host se))" and ok: "handler_ok (se_host se) heap h"
  show "heap_le heap heap' \<and> handler_ok (se_host se) heap' h'"
    using c ok r by (cases h)
      (auto simp: call_Update_def go_bind_eq_Ret handler_ok_def
        intro: dns_served_put udp.Update_inv heap_le_update UpdateApp_same [OF s] haproxy_ok_UpdateApp)
qed

interpretation remove_call: service_call "se_host se" "call_Remove se aid tid refo"
proof unfold_locales
  fix heap heap' :: app_heap and w w' :: world and h h' :: handler and err
  assume c: "call_Remove se aid tid refo heap w h = Ret (heap', w', h', err)"
  show "handler_kind h' = handler_kind h"
    using c by (cases h) (auto simp: call_Remove_def Let_def go_bind_eq_Ret)
  assume s: "sort_ok (env_sortTasks (se_host se))" and ok: "handler_ok (se_host se) heap h"
  show "heap_le heap heap' \<and> handler_ok (se_host se) heap' h'"
  proof (cases h)
    case (HHaproxy hs)
    with c obtain m' appo' where r: "haproxy_RemoveApp (se_host se) (fst hs) aid tid (map_option ((!) heap) refo) =
        Ret (m', appo')" and h': "h' = HHaproxy (m', snd hs)"
      and heap': "heap' = (case (refo, appo') of (Some ref, Some app') \<Rightarrow> heap[ref := app'] | _ \<Rightarrow> heap)"
      by (auto simp: call_Remove_def Let_def go_bind_eq_Ret)
    have "haproxy_ok m'" using haproxy_ok_RemoveApp [OF _ r] ok HHaproxy by (simp add: handler_ok_def)
    moreover have "heap_le heap heap'"
      using r heap'
      by (cases refo; cases appo') (auto dest!: RemoveApp_same [OF s] intro: heap_le_update)
    ultimately show ?thesis by (simp add: h' handler_ok_def)
  qed (use c ok in \<open>auto simp: call_Remove_def Let_def go_bind_eq_Ret handler_ok_def
      intro: dns_served_Remove udp.Remove_inv\<close>)
qed

section \<open>Steps\<close>

lemma getMarathonApp_heap:
  "getMarathonApp se cfg rt appID = (rt', r) \<Longrightarrow>
   rt_handlers rt' = rt_handlers rt \<and> heap_le (rt_heap rt) (rt_heap rt')"
  by (auto simp: getMarathonApp_def Let_def split: sum.splits option.splits)

lemma service_ok_heap:
  "service_ok env rt \<Longrightarrow> rt_handlers rt' = rt_handlers rt \<and> heap_le (rt_heap rt) (rt_heap rt') \<Longrightarrow>
   service_ok env rt'"
  by (auto simp: service_ok_def intro: handler_ok_mono)

text \<open>A property of a state that every call of the handlers and every fetch keeps.\<close>

locale service_property =
  fixes se :: service_env and P :: "runtime \<Rightarrow> bool"
  assumes fetch: "P rt \<Longrightarrow> getMarathonApp se cfg rt appID = (rt', r) \<Longrightarrow> P rt'"
    and updates: "P rt \<Longrightarrow> all_handlers (call_Update se refo tid) rt = Ret rt' \<Longrightarrow> P rt'"
    and removes: "P rt \<Longrightarrow> all_handlers (call_Remove se aid tid refo) rt = Ret rt' \<Longrightarrow> P rt'"
    and world: "P rt \<Longrightarrow> P (rt\<lparr>rt_world := w\<rparr>)"
begin

lemma Update: "P rt \<Longrightarrow> mmsd_Update se cfg rt aid tid alive = Ret rt' \<Longrightarrow> P rt'"
  by (auto simp: mmsd_Update_def split: prod.splits sum.splits dest: fetch intro: updates)

lemma Remove: "P rt \<Longrightarrow> mmsd_Remove se rt aid tid refo = Ret rt' \<Longrightarrow> P rt'"
  by (simp add: mmsd_Remove_def removes)

lemma status: "P rt \<Longrightarrow> statusUpdateEvent se cfg rt event = Ret rt' \<Longrightarrow> P rt'"
  by (auto simp: statusUpdateEvent_def split: if_splits prod.splits sum.splits option.splits
      dest: fetch Update Remove)

lemma health: "P rt \<Longrightarrow> healthStatusChangedEvent se cfg rt event = Ret rt' \<Longrightarrow> P rt'"
  by (auto simp: healthStatusChangedEvent_def split: prod.splits sum.splits option.splits
      dest: fetch Update Remove)

lemma listens: "P rt \<Longrightarrow> listener se cfg rt cb data = Ret rt' \<Longrightarrow> P rt'"
  by (auto simp: listener_def appTerminatedEvent_def split: if_splits option.splits
      dest: status health Remove)

lemma step: "P rt \<Longrightarrow> service_do se cfg rt step = Ret rt' \<Longrightarrow> P rt'"
proof (cases step)
  case (SseCall call)
  then show "P rt \<Longrightarrow> service_do se cfg rt step = Ret rt' \<Longrightarrow> P rt'"
    by (cases call) (auto dest: listens)
next
  case HaproxyTick
  assume P: "P rt" and s: "service_do se cfg rt step = Ret rt'"
  have "rt' = rt \<or> (\<exists>w. rt' = rt\<lparr>rt_world := w\<rparr>)"
  proof (cases "find_haproxy (rt_handlers rt)")
    case None
    with s HaproxyTick show ?thesis by simp
  next
    case (Some m)
    obtain w r where t: "tick (se_proc se) m (rt_world rt) = (w, r)" by force
    with s HaproxyTick Some have "rt' = rt\<lparr>rt_world := w\<rparr>" by (cases r) simp_all
    then show ?thesis by blast
  qed
  then show "P rt'" using P world [OF P] by (elim disjE exE) simp_all
qed

lemma run: "P rt \<Longrightarrow> service_run se cfg rt steps = Ret rt' \<Longrightarrow> P rt'"
  unfolding service_run_def by (erule go_fold_invariant) (auto dest: step)

end

interpretation kinds: service_property se "\<lambda>rt. map handler_kind (rt_handlers rt) = ks"
  by unfold_locales
    (auto dest: getMarathonApp_heap update_call.all_kinds remove_call.all_kinds)

interpretation safe: service_property se "\<lambda>rt. sort_ok (env_sortTasks (se_host se)) \<longrightarrow> service_ok (se_host se) rt"
proof unfold_locales
  fix cfg rt rt' appID r w refo tid aid
  assume P: "sort_ok (env_sortTasks (se_host se)) \<longrightarrow> service_ok (se_host se) rt"
  show "getMarathonApp se cfg rt appID = (rt', r) \<Longrightarrow> sort_ok (env_sortTasks (se_host se)) \<longrightarrow> service_ok (se_host se) rt'"
    using P service_ok_heap [OF _ getMarathonApp_heap] by blast
  show "all_handlers (call_Update se refo tid) rt = Ret rt' \<Longrightarrow>
      sort_ok (env_sortTasks (se_host se)) \<longrightarrow> service_ok (se_host se) rt'"
    using P update_call.all_ok by blast
  show "all_handlers (call_Remove se aid tid refo) rt = Ret rt' \<Longrightarrow>
      sort_ok (env_sortTasks (se_host se)) \<longrightarrow> service_ok (se_host se) rt'"
    using P remove_call.all_ok by blast
  show "sort_ok (env_sortTasks (se_host se)) \<longrightarrow> service_ok (se_host se) (rt\<lparr>rt_world := w\<rparr>)"
    using P by (simp add: service_ok_def)
qed

section \<open>After the set-up\<close>

definition config_kinds :: "mmsd_config \<Rightarrow> kind list" where
  "config_kinds cfg =
     (if ms_DnsEnabled cfg then [KDns] else []) @ (if ms_UDPEnabled cfg then [KUdp] else []) @
     (if ms_TCPEnabled cfg then [KHaproxy] else []) @ (if ms_FilesEnabled cfg then [KFiles] else [])"

lemma new_handlers_kinds: "map handler_kind (new_handlers cfg fs) = config_kinds cfg"
  by (simp add: new_handlers_def config_kinds_def)

lemma new_handlers_ok: "h \<in> set (new_handlers cfg fs) \<Longrightarrow> handler_ok env heap h"
  by (auto simp: new_handlers_def handler_ok_def dns_served_def new_dns_def udp_ok_def new_udp_def
      NewUdpManager_def udp_manager.extend_def new_haproxy_def haproxy_ok_def tables_ok_def vhosts_ok_def
      refs_ok_def cache_ready_def getAppStateCacheEntry_def split: if_splits)

lemma setupHandlers_cases:
  assumes "setupHandlers se cfg w = Ret rt"
  shows "rt_handlers rt = new_handlers cfg (w_fs w) \<or>
    (\<exists>rt0 refs. rt_handlers rt0 = new_handlers cfg (w_fs w) \<and> all_handlers (call_Apply se refs) rt0 = Ret rt)"
proof (cases "se_marathon se (ms_MarathonIP cfg) (ms_MarathonPort cfg)")
  case (Inl err)
  with assms show ?thesis by (auto simp: setupHandlers_def MaybeResetFromTasks_def)
next
  case (Inr m)
  show ?thesis
  proof (cases "mc_getApps m 0")
    case (Inl err)
    with assms Inr show ?thesis by (auto simp: setupHandlers_def MaybeResetFromTasks_def)
  next
    case (Inr apps)
    with assms \<open>se_marathon se _ _ = _\<close> have "all_handlers (call_Apply se [0..<length apps])
        \<lparr>rt_handlers = new_handlers cfg (w_fs w), rt_heap = apps, rt_world = w, rt_requests = Suc 0,
         rt_logged = []\<rparr> = Ret rt"
      by (simp add: setupHandlers_def MaybeResetFromTasks_def Let_def go_bind_eq_Ret)
    then show ?thesis by (intro disjI2 exI conjI) (auto simp only: runtime.simps)
  qed
qed

lemma setupHandlers_ok:
  assumes "sort_ok (env_sortTasks (se_host se))" and "setupHandlers se cfg w = Ret rt"
  shows "service_ok (se_host se) rt \<and> map handler_kind (rt_handlers rt) = config_kinds cfg"
  using setupHandlers_cases [OF assms(2)]
proof (elim disjE exE conjE)
  assume "rt_handlers rt = new_handlers cfg (w_fs w)"
  then show ?thesis by (auto simp: service_ok_def new_handlers_kinds intro: new_handlers_ok)
next
  fix rt0 refs
  assume h: "rt_handlers rt0 = new_handlers cfg (w_fs w)" and a: "all_handlers (call_Apply se refs) rt0 = Ret rt"
  from h have "service_ok (se_host se) rt0" by (auto simp: service_ok_def intro: new_handlers_ok)
  from apply_call.all_ok [OF assms(1) this a] apply_call.all_kinds [OF a] h
  show ?thesis by (simp add: new_handlers_kinds)
qed

text \<open>
  C2. In every state the program reaches, from its set-up through any sequence of events, streams
  and turns of the HAProxy loop, it has the handlers its settings enable, in the order DNS, UDP,
  HAProxy, files; the DNS, the UDP and the HAProxy manager satisfy their invariants (the files manager
  has none: it keeps no tables, only its settings); and every entry of the DNS database points to an
  application of that name, with exactly the addresses of that application's tasks, whatever the
  HAProxy manager did to the order of the tasks.
\<close>

theorem service_run_ok:
  assumes "sort_ok (env_sortTasks (se_host se))" and "setupHandlers se cfg w = Ret rt0"
    and "service_run se cfg rt0 steps = Ret rt"
  shows "map handler_kind (rt_handlers rt) = config_kinds cfg \<and>
    (\<forall>h\<in>set (rt_handlers rt). handler_ok (se_host se) (rt_heap rt) h)"
proof -
  note start = setupHandlers_ok [OF assms(1,2)]
  have "service_ok (se_host se) rt" using safe.run [OF _ assms(3)] start assms(1) by blast
  moreover have "map handler_kind (rt_handlers rt) = config_kinds cfg"
    using kinds.run [OF _ assms(3)] start by blast
  ultimately show ?thesis by (simp add: service_ok_def)
qed

section \<open>A service without applications at its start\<close>

text \<open>
  The maps of the DNS and the HAProxy manager are made by \<open>Apply\<close> only, and the service calls
  \<open>Apply\<close> only once, with the first answer of Marathon.
\<close>

definition handler_unmade :: "handler \<Rightarrow> bool" where
  "handler_unmade h =
     (case h of HDns m \<Rightarrow> dm_db m = None | HHaproxy s \<Rightarrow> hm_appConfigFragments (fst s) = None | _ \<Rightarrow> True)"

lemma each_handler_keeps:
  assumes "\<And>heap w h heap' w' h' err. call heap w h = Ret (heap', w', h', err) \<Longrightarrow> Q h \<Longrightarrow> Q h'"
  shows "each_handler call heap w hs = Ret (heap', w', hs', errs) \<Longrightarrow> \<forall>h\<in>set hs. Q h \<Longrightarrow> \<forall>h\<in>set hs'. Q h"
  by (induction hs arbitrary: heap w heap' w' hs' errs) (auto simp: go_bind_eq_Ret dest: assms)

lemma all_handlers_keeps:
  assumes "\<And>heap w h heap' w' h' err. call heap w h = Ret (heap', w', h', err) \<Longrightarrow> Q h \<Longrightarrow> Q h'"
    and "all_handlers call rt = Ret rt'" and "\<forall>h\<in>set (rt_handlers rt). Q h"
  shows "\<forall>h\<in>set (rt_handlers rt'). Q h"
proof -
  from assms(2) obtain heap' w' hs' errs where
    e: "each_handler call (rt_heap rt) (rt_world rt) (rt_handlers rt) = Ret (heap', w', hs', errs)"
    and "rt_handlers rt' = hs'"
    by (auto simp: all_handlers_def go_bind_eq_Ret)
  moreover have "\<forall>h\<in>set hs'. Q h" by (rule each_handler_keeps [of call Q, OF assms(1) e assms(3)])
  ultimately show ?thesis by simp
qed

lemma put_config_unmade: "hm_appConfigFragments m = None \<Longrightarrow> put_config env m app \<noteq> Ret r"
  by (cases r) (auto simp: put_config_def go_bind_eq_Ret dest!: makeConfig_step(1) blank_vhosts_fields(1))

lemma UpdateApp_unmade:
  "hm_appConfigFragments m = None \<Longrightarrow> haproxy_UpdateApp env admin m app tid \<noteq> Ret r"
  by (auto simp: haproxy_UpdateApp_def go_bind_eq_Ret put_config_unmade)

lemma RemoveApp_unmade:
  assumes "hm_appConfigFragments m = None" and "haproxy_RemoveApp env m aid tid appo = Ret (m', appo')"
  shows "hm_appConfigFragments m' = None"
proof (cases appo)
  case None
  with assms show ?thesis
    by (auto simp: haproxy_RemoveApp_def go_bind_eq_Ret dest!: remove_keeps_fragments)
next
  case (Some app)
  with assms obtain m1 app1 s where 1: "makeConfig env m app = Ret (m1, app1, s)"
    by (auto simp: haproxy_RemoveApp_def go_bind_eq_Ret)
  then have "hm_appConfigFragments m1 = None"
    using assms(1) blank_vhosts_fields(1) [OF makeConfig_step(1) [OF 1]] by simp
  with assms(2) Some 1 show ?thesis
    by (auto simp: haproxy_RemoveApp_def go_bind_eq_Ret split: if_splits dest!: remove_keeps_fragments)
qed

lemma updateApp_unmade: "dm_db m = None \<Longrightarrow> updateApp env heap m ref = Ret (m', err) \<Longrightarrow> dm_db m' = None"
  by (cases "go_nth heap ref"; cases "resolve_tasks env (a_tasks (heap ! ref))")
    (auto simp: updateApp_def go_bind_eq_Ret go_nth_eq_Ret)

interpretation unmade: service_property se "\<lambda>rt. \<forall>h\<in>set (rt_handlers rt). handler_unmade h"
proof unfold_locales
  fix cfg and rt rt' :: runtime and appID r refo tid aid
  assume P: "\<forall>h\<in>set (rt_handlers rt). handler_unmade h"
  show "getMarathonApp se cfg rt appID = (rt', r) \<Longrightarrow> \<forall>h\<in>set (rt_handlers rt'). handler_unmade h"
    using P getMarathonApp_heap [of se cfg rt appID rt' r] by simp
  have u: "handler_unmade h'" if "call_Update se refo tid heap w h = Ret (heap', w', h', err)" "handler_unmade h"
    for heap w h heap' w' h' err
    using that by (cases h; cases refo)
      (auto simp: call_Update_def go_bind_eq_Ret handler_unmade_def UpdateApp_unmade dest: updateApp_unmade)
  show "all_handlers (call_Update se refo tid) rt = Ret rt' \<Longrightarrow> \<forall>h\<in>set (rt_handlers rt'). handler_unmade h"
    by (rule all_handlers_keeps [of "call_Update se refo tid", OF u _ P])
  have v: "handler_unmade h'" if "call_Remove se aid tid refo heap w h = Ret (heap', w', h', err)" "handler_unmade h"
    for heap w h heap' w' h' err
    using that by (cases h; cases refo)
      (auto simp: call_Remove_def Let_def go_bind_eq_Ret handler_unmade_def dns_RemoveRef_def
        dest: updateApp_unmade RemoveApp_unmade)
  show "all_handlers (call_Remove se aid tid refo) rt = Ret rt' \<Longrightarrow> \<forall>h\<in>set (rt_handlers rt'). handler_unmade h"
    by (rule all_handlers_keeps [of "call_Remove se aid tid refo", OF v _ P])
qed simp

lemma each_handler_panics:
  assumes "h \<in> set hs" and "\<And>heap w. \<not> returns (call heap w h)"
  shows "\<not> returns (each_handler call heap w hs)"
  using assms(1)
proof (induction hs arbitrary: heap w)
  case (Cons k hs)
  show ?case
  proof (cases "k = h")
    case True
    with assms(2) show ?thesis by (auto simp: returns_iff go_bind_eq_Ret)
  next
    case False
    with Cons show ?thesis by (auto simp: returns_iff go_bind_eq_Ret)
  qed
qed simp

text \<open>
  C16. A service that starts while Marathon does not answer never recovers: it goes on running, but
  in every state it reaches afterwards the DNS database does not exist (so every query is answered
  with nothing) and the HAProxy configuration has no services; and the first update that it does
  fetch an application for panics when HAProxy is enabled.
\<close>

theorem failed_start_never_recovers:
  assumes "se_marathon se (ms_MarathonIP cfg) (ms_MarathonPort cfg) = Inl e1 \<or>
      (\<exists>m. se_marathon se (ms_MarathonIP cfg) (ms_MarathonPort cfg) = Inr m \<and> mc_getApps m 0 = Inl e1)"
  shows "\<exists>rt0. setupHandlers se cfg w = Ret rt0 \<and>
    (\<forall>steps rt. service_run se cfg rt0 steps = Ret rt \<longrightarrow>
       (\<forall>m. HDns m \<in> set (rt_handlers rt) \<longrightarrow> gm_get (dm_db m) = Map.empty) \<and>
       (\<forall>s. HHaproxy s \<in> set (rt_handlers rt) \<longrightarrow> config_text (fst s) = makeConfigHead (fst s) \<and>
          (\<forall>rt2 ref. getMarathonApp se cfg rt appID = (rt2, Inr (Some ref)) \<longrightarrow>
             \<not> returns (mmsd_Update se cfg rt appID taskID alive))))"
proof -
  obtain rt0 where rt0: "setupHandlers se cfg w = Ret rt0" "rt_handlers rt0 = new_handlers cfg (w_fs w)"
    using assms by (auto simp: setupHandlers_def MaybeResetFromTasks_def)
  have start: "\<forall>h\<in>set (rt_handlers rt0). handler_unmade h"
    by (auto simp: rt0(2) new_handlers_def handler_unmade_def new_dns_def new_haproxy_def)
  have "(\<forall>m. HDns m \<in> set (rt_handlers rt) \<longrightarrow> gm_get (dm_db m) = Map.empty) \<and>
       (\<forall>s. HHaproxy s \<in> set (rt_handlers rt) \<longrightarrow> config_text (fst s) = makeConfigHead (fst s) \<and>
          (\<forall>rt2 ref. getMarathonApp se cfg rt appID = (rt2, Inr (Some ref)) \<longrightarrow>
             \<not> returns (mmsd_Update se cfg rt appID taskID alive)))"
    if run: "service_run se cfg rt0 steps = Ret rt" for steps rt
  proof (intro conjI allI impI)
    have un: "\<forall>h\<in>set (rt_handlers rt). handler_unmade h" by (rule unmade.run [OF start run])
    fix m assume "HDns m \<in> set (rt_handlers rt)"
    with un show "gm_get (dm_db m) = Map.empty" by (force simp: handler_unmade_def fun_eq_iff)
  next
    have un: "\<forall>h\<in>set (rt_handlers rt). handler_unmade h" by (rule unmade.run [OF start run])
    fix s assume s: "HHaproxy s \<in> set (rt_handlers rt)"
    with un have none: "hm_appConfigFragments (fst s) = None" by (force simp: handler_unmade_def)
    then show "config_text (fst s) = makeConfigHead (fst s)"
      by (simp add: config_text_def cluster_names_def gm_keys_def)
    fix rt2 ref assume f: "getMarathonApp se cfg rt appID = (rt2, Inr (Some ref))"
    then have "HHaproxy s \<in> set (rt_handlers rt2)" using s getMarathonApp_heap [OF f] by simp
    then have "\<not> returns (each_handler (call_Update se (Some ref) taskID) (rt_heap rt2) (rt_world rt2) (rt_handlers rt2))"
      by (rule each_handler_panics) (auto simp: returns_iff call_Update_def go_bind_eq_Ret UpdateApp_unmade [OF none])
    then show "\<not> returns (mmsd_Update se cfg rt appID taskID alive)"
      using f by (auto simp: mmsd_Update_def all_handlers_def returns_iff go_bind_eq_Ret)
  qed
  with rt0(1) show ?thesis by blast
qed

section \<open>Events from the stream\<close>

lemma setupEventBusListener_source:
  obtains sse where "setupEventBusListener cfg = Ret sse" and "es_readyState sse = CONNECTING"
    and "es_onMessage sse = None" and "es_onOpen sse = Some ''OnOpen''" and "es_onError sse = Some ''OnError''"
    and "gm_get (es_handlers sse) = [''status_update_event'' \<mapsto> ''status_update_event'',
      ''health_status_changed_event'' \<mapsto> ''health_status_changed_event'',
      ''app_terminated_event'' \<mapsto> ''app_terminated_event'']"
  by (simp add: setupEventBusListener_def NewEventSource_def AddEventListener_def gm_put_def gm_make_def Let_def
      gm_get_Some fun_upd_twist)

lemma callbacks_append: "callbacks se cfg rt (xs @ ys) = go_bind (callbacks se cfg rt xs) (\<lambda>rt. callbacks se cfg rt ys)"
  by (simp add: callbacks_def go_fold_append)

lemma stream_callbacks:
  assumes "\<forall>ev\<in>set evs. event_ok ev"
  shows "\<exists>sse sse' calls. setupEventBusListener cfg = Ret sse \<and>
    Run sse (Response 200 (map Line (concat (map event_lines evs))) err) = Ret (sse', calls) \<and>
    callbacks se cfg rt calls = go_fold (\<lambda>rt (et, ds). listener se cfg rt et (event_data ds)) rt evs"
proof -
  obtain sse where sse: "setupEventBusListener cfg = Ret sse" "es_readyState sse = CONNECTING"
    "es_onMessage sse = None" "es_onOpen sse = Some ''OnOpen''" "es_onError sse = Some ''OnError''"
    "gm_get (es_handlers sse) = [''status_update_event'' \<mapsto> ''status_update_event'',
      ''health_status_changed_event'' \<mapsto> ''health_status_changed_event'',
      ''app_terminated_event'' \<mapsto> ''app_terminated_event'']"
    by (rule setupEventBusListener_source)
  let ?calls = "concat (map (\<lambda>(et, ds). event_calls sse et (event_data ds)) evs)"
  let ?es = "if evs = [] then sse else sse\<lparr>es_readyState := OPEN\<rparr>"
  have one: "callbacks se cfg rt (event_calls sse et d) = listener se cfg rt et d" for rt et d
    by (auto simp: event_calls_def sse callbacks_def listener_def)
  have "callbacks se cfg rt ?calls = go_fold (\<lambda>rt (et, ds). listener se cfg rt et (event_data ds)) rt evs"
    by (induction evs arbitrary: rt) (auto simp: callbacks_append one, auto simp: callbacks_def)
  moreover have "on_error ?es err = [CallOnError ''OnError'' ''error'' err]"
    by (simp add: on_error_def sse)
  moreover have "Run sse (Response 200 (map Line (concat (map event_lines evs))) err) =
      Ret (?es, CallOnOpen ''OnOpen'' ''open'' ''Connected.'' # ?calls @ on_error ?es err)"
    using run_events [OF assms, of sse] by (simp add: Run_def sse)
  ultimately show ?thesis using sse(1) by (auto simp: callbacks_def go_fold_append)
qed

text \<open>
  C14. The stream drives the service: whatever well-formed events Marathon sends on a connection,
  the three listeners react to exactly the events of their types, in order, each with the data of
  that event, and events of other types change nothing.
\<close>

theorem stream_drives_service:
  assumes "\<forall>ev\<in>set evs. event_ok ev"
  shows "\<exists>sse sse' calls. setupEventBusListener cfg = Ret sse \<and>
    Run sse (Response 200 (map Line (concat (map event_lines evs))) err) = Ret (sse', calls) \<and>
    callbacks se cfg rt calls = go_fold (\<lambda>rt (et, ds). listener se cfg rt et (event_data ds)) rt evs"
  using assms by (rule stream_callbacks)

section \<open>Fetching twice\<close>

text \<open>
  The service crashes when an application disappears at the wrong moment: a TASK_RUNNING event
  for an application that Marathon no longer knows, be it at the first fetch or (for an application
  without health checks, with any handler enabled) at the second one that \<open>Update\<close> makes,
  dereferences a nil pointer.
\<close>

theorem vanished_app_panics:
  assumes "se_marathon se (ms_MarathonIP cfg) (ms_MarathonPort cfg) = Inr m"
    and "su_taskStatus event = TaskRunning"
    and "mc_getApp m (rt_requests rt) (su_appId event) = Inr None \<or>
      mc_getApp m (rt_requests rt) (su_appId event) = Inr (Some app) \<and> a_healthChecks app = [] \<and>
      mc_getApp m (Suc (rt_requests rt)) (su_appId event) = Inr None \<and> rt_handlers rt \<noteq> []"
  shows "statusUpdateEvent se cfg rt event = Panic NilDereference"
  using assms(3)
proof
  assume "mc_getApp m (rt_requests rt) (su_appId event) = Inr None"
  with assms(1,2) show ?thesis by (simp add: statusUpdateEvent_def getMarathonApp_def)
next
  assume a: "mc_getApp m (rt_requests rt) (su_appId event) = Inr (Some app) \<and> a_healthChecks app = [] \<and>
      mc_getApp m (Suc (rt_requests rt)) (su_appId event) = Inr None \<and> rt_handlers rt \<noteq> []"
  then obtain h hs where "rt_handlers rt = h # hs" by (cases "rt_handlers rt") auto
  with a assms(1,2) show ?thesis
    by (simp add: statusUpdateEvent_def getMarathonApp_def mmsd_Update_def all_handlers_def call_Update_def)
qed

text \<open>
  A running task is published: after the TASK_RUNNING event of an application without health
  checks that Marathon knows and whose hosts resolve, the DNS handler answers for its name with the
  addresses of the tasks Marathon reported at the second fetch, and nothing else in the database
  has changed; the other handlers have at most reordered the tasks of that application.
\<close>

lemma running_task_published:
  assumes "sort_ok (env_sortTasks (se_host se))" and "service_ok (se_host se) rt"
    and "se_marathon se (ms_MarathonIP cfg) (ms_MarathonPort cfg) = Inr m"
    and "su_taskStatus event = TaskRunning"
    and "mc_getApp m (rt_requests rt) (su_appId event) = Inr (Some app1)" and "a_healthChecks app1 = []"
    and "mc_getApp m (Suc (rt_requests rt)) (su_appId event) = Inr (Some app2)"
    and "resolve_tasks (se_host se) (a_tasks app2) = Inr ips"
    and "rt_handlers rt = HDns d # hs" and "dm_db d \<noteq> None"
    and "statusUpdateEvent se cfg rt event = Ret rt'"
  shows "\<exists>d' e. hd (rt_handlers rt') = HDns d' \<and>
    gm_get (dm_db d') = (gm_get (dm_db d))(dns_name app2 \<mapsto> e) \<and> ae_ipAddresses e = ips \<and>
    ae_app e < length (rt_heap rt') \<and> same_app app2 (rt_heap rt' ! ae_app e)"
proof -
  let ?heap = "rt_heap rt @ [app1, app2]" and ?ref = "Suc (length (rt_heap rt))"
  let ?rt2 = "rt\<lparr>rt_requests := Suc (Suc (rt_requests rt)), rt_heap := ?heap\<rparr>"
  have all: "all_handlers (call_Update se (Some ?ref) (su_taskId event)) ?rt2 = Ret rt'"
    using assms(3-7,11) by (simp add: statusUpdateEvent_def getMarathonApp_def mmsd_Update_def nth_append)
  have app: "?heap ! ?ref = app2" by (simp add: nth_append)
  from updateApp_Inr [OF assms(10), of ?ref ?heap "se_host se" ips] assms(8) app obtain db where
    u: "updateApp (se_host se) ?heap d ?ref = Ret (d\<lparr>dm_db := db\<rparr>, None)" and
    g: "gm_get db = (gm_get (dm_db d))(dns_name app2 \<mapsto> \<lparr>ae_ipAddresses = ips, ae_app = ?ref\<rparr>)"
    by (auto simp del: fun_upd_apply)
  let ?call = "call_Update se (Some ?ref) (su_taskId event)"
  have c: "?call ?heap (rt_world rt) (HDns d) = Ret (?heap, rt_world rt, HDns (d\<lparr>dm_db := db\<rparr>), None)"
    using u by (simp add: call_Update_def)
  from all assms(9) c obtain heap' w' hs' errs where
    e: "each_handler ?call ?heap (rt_world rt) hs = Ret (heap', w', hs', errs)"
    and rt': "rt_handlers rt' = HDns (d\<lparr>dm_db := db\<rparr>) # hs'" "rt_heap rt' = heap'"
    by (auto simp: all_handlers_def go_bind_eq_Ret)
  have "\<forall>h\<in>set hs. handler_ok (se_host se) ?heap h"
    using assms(2,9) by (auto simp: service_ok_def intro: handler_ok_mono)
  from update_call.each_ok [OF assms(1) this e] have "heap_le ?heap heap'" by blast
  then have "?ref < length heap'" and "same_app app2 (heap' ! ?ref)"
    using app by (auto simp: heap_le_def dest: spec [of _ ?ref])
  with g rt' show ?thesis by (auto simp del: fun_upd_apply)
qed

lemma dnsHandler_addresses:
  assumes "gm_get (dm_db m) name = Some e" and "ae_app e < length heap"
  shows "\<exists>reply. dnsHandler heap m [(name @ ''.'' @ dm_baseName m, TypeA)] = Ret reply \<and>
    map rr_ip (rp_answer reply) = map To4 (ae_ipAddresses e)"
  using assms by (cases "dm_pushSRV m") (auto simp: dnsHandler_def go_nth_def makeAllSRV_def makeAllA_def)

text \<open>
  C20. From the bytes of the stream to the answer of a query: when Marathon's stream delivers the
  TASK_RUNNING event of an application without health checks, Marathon knows the application at both
  fetches, and its hosts resolve, then after the callbacks of that connection an A query for the
  application is answered with exactly the addresses of the tasks Marathon reported, in their order,
  while the entries of all other names are as before.
\<close>

theorem running_event_answered:
  assumes "sort_ok (env_sortTasks (se_host se))" and "service_ok (se_host se) rt"
    and "rt_handlers rt = HDns d # hs" and "dm_db d \<noteq> None"
    and "event_ok (''status_update_event'', ds)"
    and "se_statusUpdate se (event_data ds) = Some event" and "su_taskStatus event = TaskRunning"
    and "se_marathon se (ms_MarathonIP cfg) (ms_MarathonPort cfg) = Inr m"
    and "mc_getApp m (rt_requests rt) (su_appId event) = Inr (Some app1)" and "a_healthChecks app1 = []"
    and "mc_getApp m (Suc (rt_requests rt)) (su_appId event) = Inr (Some app2)"
    and "resolve_tasks (se_host se) (a_tasks app2) = Inr ips"
    and "setupEventBusListener cfg = Ret sse"
    and "Run sse (Response 200 (map Line (event_lines (''status_update_event'', ds))) err) = Ret (sse', calls)"
    and "callbacks se cfg rt calls = Ret rt'"
  shows "\<exists>d' reply. hd (rt_handlers rt') = HDns d' \<and>
    dnsHandler (rt_heap rt') d' [(dns_name app2 @ ''.'' @ dm_baseName d', TypeA)] = Ret reply \<and>
    map rr_ip (rp_answer reply) = map To4 ips \<and>
    (\<forall>name. name \<noteq> dns_name app2 \<longrightarrow> gm_get (dm_db d') name = gm_get (dm_db d) name)"
proof -
  from stream_callbacks [of "[(''status_update_event'', ds)]" cfg err se rt] assms(5,13-15)
  have "go_fold (\<lambda>rt (et, ds). listener se cfg rt et (event_data ds)) rt [(''status_update_event'', ds)] = Ret rt'"
    by auto
  then have "statusUpdateEvent se cfg rt event = Ret rt'"
    using assms(6) by (simp add: listener_def)
  from running_task_published [OF assms(1,2,8,7,9-12,3,4) this] obtain d' e where
    d': "hd (rt_handlers rt') = HDns d'" "gm_get (dm_db d') = (gm_get (dm_db d))(dns_name app2 \<mapsto> e)"
    "ae_ipAddresses e = ips" "ae_app e < length (rt_heap rt')" by blast
  from d'(2) have "gm_get (dm_db d') (dns_name app2) = Some e" by simp
  from dnsHandler_addresses [OF this d'(4)] d' show ?thesis by auto
qed

section \<open>An example\<close>

text \<open>
  A Marathon that reports one application with two tasks, and settings that enable the DNS handler;
  a Marathon that refuses connections, and settings that enable all four.
\<close>

definition empty_world :: world where
  "empty_world = \<lparr>w_fs = \<lparr>fs_files = [], fs_dirs = [], fs_deny = []\<rparr>, w_ran = []\<rparr>"

definition dns_cfg :: mmsd_config where
  "dns_cfg = (main_config (w_fs empty_world) ''/usr/bin'')
     \<lparr>ms_DnsEnabled := True, ms_UDPEnabled := False, ms_TCPEnabled := False, ms_FilesEnabled := False\<rparr>"

definition full_cfg :: mmsd_config where
  "full_cfg = (main_config (w_fs empty_world) ''/usr/bin'')\<lparr>ms_DnsEnabled := True\<rparr>"

definition two_webs_marathon :: marathon_client where
  "two_webs_marathon ip port = Inr \<lparr>mc_getApps = (\<lambda>n. Inr [two_webs]),
     mc_getApp = (\<lambda>n aid. if aid = ''/web'' then Inr (Some two_webs) else Inr None)\<rparr>"

definition service_example :: "marathon_client \<Rightarrow> service_env" where
  "service_example mc = \<lparr>se_host = example_env, se_udp = example_udp, se_admin = answering,
     se_proc = quiet_env, se_marathon = mc, se_statusUpdate = (\<lambda>data. None),
     se_healthChanged = (\<lambda>data. None), se_appTerminated = (\<lambda>data. Some data)\<rparr>"

definition web_runtime :: runtime where
  "web_runtime = \<lparr>rt_handlers = [HDns (web_db\<lparr>dm_db := dm_db web_db\<rparr>)], rt_heap = [two_webs],
     rt_world = empty_world, rt_requests = 1, rt_logged = []\<rparr>"

lemmas service_eval = service_example_def dns_cfg_def full_cfg_def main_config_def new_handlers_def
  new_dns_def setupHandlers_def MaybeResetFromTasks_def all_handlers_def call_Apply_def

lemma service_env_ok: "sort_ok (env_sortTasks (se_host (service_example mc)))"
  by (simp add: service_example_def example_env_sort_ok)

lemma web_setup: "setupHandlers (service_example two_webs_marathon) dns_cfg empty_world = Ret web_runtime"
  by (simp add: service_eval two_webs_marathon_def web_runtime_def dns_eval)

definition refusing :: marathon_client where
  "refusing ip port = Inl ''connection refused''"

lemma full_setup: "setupHandlers (service_example refusing) full_cfg empty_world =
    Ret \<lparr>rt_handlers = new_handlers full_cfg (w_fs empty_world), rt_heap = [], rt_world = empty_world,
      rt_requests = 0, rt_logged = []\<rparr>"
  by (simp add: setupHandlers_def MaybeResetFromTasks_def service_example_def refusing_def)

lemma full_terminated: "\<exists>rt. service_run (service_example refusing) full_cfg
    \<lparr>rt_handlers = new_handlers full_cfg (w_fs empty_world), rt_heap = [], rt_world = empty_world,
      rt_requests = 0, rt_logged = []\<rparr> [SseCall (CallHandler ''app_terminated_event'' ''/web'')] = Ret rt"
  by (simp add: service_run_def listener_def service_example_def appTerminatedEvent_def mmsd_Remove_def
      all_handlers_def new_handlers_def full_cfg_def main_config_def call_Remove_def dns_RemoveRef_def
      udp_Remove_def haproxy_RemoveApp_def removeAppStateCacheEntry_def files_Remove_def new_haproxy_def gm_get_def gm_keys_def)

theorem service_run_ok_witness:
  "\<exists>rt0 rt. setupHandlers (service_example refusing) full_cfg empty_world = Ret rt0 \<and>
     service_run (service_example refusing) full_cfg rt0 [SseCall (CallHandler ''app_terminated_event'' ''/web'')] = Ret rt \<and>
     map handler_kind (rt_handlers rt) = [KDns, KUdp, KHaproxy, KFiles]"
proof -
  obtain rt where rt: "service_run (service_example refusing) full_cfg
    \<lparr>rt_handlers = new_handlers full_cfg (w_fs empty_world), rt_heap = [], rt_world = empty_world,
      rt_requests = 0, rt_logged = []\<rparr> [SseCall (CallHandler ''app_terminated_event'' ''/web'')] = Ret rt"
    using full_terminated by blast
  from service_run_ok [OF service_env_ok full_setup rt] full_setup rt
  show ?thesis by (simp add: config_kinds_def full_cfg_def main_config_def)
qed

theorem failed_start_never_recovers_witness:
  "\<exists>rt0 rt s. setupHandlers (service_example refusing) full_cfg empty_world = Ret rt0 \<and>
     service_run (service_example refusing) full_cfg rt0 [SseCall (CallHandler ''app_terminated_event'' ''/web'')] = Ret rt \<and>
     HHaproxy s \<in> set (rt_handlers rt) \<and> config_text (fst s) = makeConfigHead (fst s)"
proof -
  obtain rt where rt: "service_run (service_example refusing) full_cfg
    \<lparr>rt_handlers = new_handlers full_cfg (w_fs empty_world), rt_heap = [], rt_world = empty_world,
      rt_requests = 0, rt_logged = []\<rparr> [SseCall (CallHandler ''app_terminated_event'' ''/web'')] = Ret rt"
    using full_terminated by blast
  have "KHaproxy \<in> set (map handler_kind (rt_handlers rt))"
    using kinds.run [OF refl rt] by (simp add: new_handlers_kinds config_kinds_def full_cfg_def main_config_def)
  then obtain h where h: "h \<in> set (rt_handlers rt)" "handler_kind h = KHaproxy" by auto
  from h(2) obtain s where "h = HHaproxy s" by (cases h) auto
  with h(1) have "HHaproxy s \<in> set (rt_handlers rt)" by simp
  moreover have "se_marathon (service_example refusing) (ms_MarathonIP full_cfg) (ms_MarathonPort full_cfg) =
      Inl ''connection refused''"
    by (simp add: service_example_def refusing_def)
  from failed_start_never_recovers [OF disjI1 [OF this], of empty_world "[]" "[]" True] obtain rt0 where
    "setupHandlers (service_example refusing) full_cfg empty_world = Ret rt0" and
    all: "\<And>steps rt s. service_run (service_example refusing) full_cfg rt0 steps = Ret rt \<Longrightarrow>
      HHaproxy s \<in> set (rt_handlers rt) \<Longrightarrow> config_text (fst s) = makeConfigHead (fst s)" by blast
  with full_setup rt have "HHaproxy s \<in> set (rt_handlers rt) \<Longrightarrow> config_text (fst s) = makeConfigHead (fst s)"
    using all [of "[SseCall (CallHandler ''app_terminated_event'' ''/web'')]" rt s] by simp
  ultimately show ?thesis using full_setup rt by blast
qed

theorem stream_drives_service_witness:
  "\<exists>sse sse' calls. setupEventBusListener dns_cfg = Ret sse \<and>
     Run sse (Response 200 (map Line (event_lines (''app_terminated_event'', [''/web'']))) ''eof'') = Ret (sse', calls) \<and>
     callbacks (service_example two_webs_marathon) dns_cfg web_runtime calls =
       listener (service_example two_webs_marathon) dns_cfg web_runtime ''app_terminated_event'' (''/web'' @ cr)"
proof -
  have "\<forall>ev\<in>set [(''app_terminated_event'', [''/web''])]. event_ok ev"
    by (simp add: one_line_def)
  from stream_drives_service [OF this, of dns_cfg "''eof''" "service_example two_webs_marathon" web_runtime]
  show ?thesis by simp
qed

definition web_running :: status_update where
  "web_running = \<lparr>su_appId = ''/web'', su_taskId = ''t1'', su_taskStatus = TaskRunning\<rparr>"

theorem vanished_app_panics_witness:
  "statusUpdateEvent (service_example two_webs_marathon) dns_cfg web_runtime (web_running\<lparr>su_appId := ''/gone''\<rparr>) =
     Panic NilDereference"
  by (rule vanished_app_panics [of _ _ "\<lparr>mc_getApps = (\<lambda>n. Inr [two_webs]),
     mc_getApp = (\<lambda>n aid. if aid = ''/web'' then Inr (Some two_webs) else Inr None)\<rparr>"])
    (simp_all add: service_example_def two_webs_marathon_def web_running_def)

section \<open>A reset of all four handlers\<close>

lemma store_apps_append:
  "length apps' = length apps \<Longrightarrow> store_apps (heap @ apps) [length heap..<length heap + length apps] apps' = heap @ apps'"
proof (induction apps' arbitrary: heap apps)
  case (Cons a' apps')
  then obtain b bs where b: "apps = b # bs" by (cases apps) auto
  have "[length heap..<length heap + length apps] = length heap # [length (heap @ [a'])..<length (heap @ [a']) + length bs]"
    by (subst upt_conv_Cons) (simp_all add: b)
  moreover have "(heap @ apps)[length heap := a'] = (heap @ [a']) @ bs" by (simp add: b list_update_append)
  ultimately show ?case using Cons.IH [of bs "heap @ [a']"] Cons.prems b by simp
qed simp

text \<open>
  C10. A reset is the composition of the four handlers: whatever the state, if each of them returns
  from \<open>Apply\<close> on its own, the service ends with exactly their results. An error of one does not stop
  the others, and all errors are logged; DNS and UDP see the applications as Marathon reported them,
  HAProxy leaves each with its tasks permuted, and that order is what the instance files list.
\<close>

theorem reset_composes:
  assumes "sort_ok (env_sortTasks (se_host se))"
    and "se_marathon se (ms_MarathonIP cfg) (ms_MarathonPort cfg) = Inr m"
    and "mc_getApps m (rt_requests rt) = Inr apps"
    and "rt_handlers rt = [HDns d, HUdp u, HHaproxy hs, HFiles f]"
    and "dns_Apply (se_host se) (d, rt_heap rt) apps = Ret ((d', heap1), e1)"
    and "udp_Apply (se_udp se) (se_host se) u apps = Ret (u', e2)"
    and "haproxy_ApplyApps (se_host se) (fst hs) apps = Ret (h', apps')"
    and "files_Apply (f\<lparr>fm_fs := w_fs (rt_world rt)\<rparr>) apps' = Ret (f', e4)"
  shows "\<exists>rt'. MaybeResetFromTasks se cfg rt force = Ret (rt', None) \<and>
    rt_handlers rt' = [HDns d', HUdp u', HHaproxy (h', snd hs), HFiles f'] \<and>
    rt_heap rt' = rt_heap rt @ apps' \<and> list_all2 same_app apps apps' \<and> w_fs (rt_world rt') = fm_fs f' \<and>
    rt_logged rt' = rt_logged rt @ map the (filter (\<lambda>e. e \<noteq> None) [e1, e2, e4])"
proof -
  have same: "list_all2 same_app apps apps'"
    using assms(7) by (simp add: haproxy_ApplyApps_def put_configs_same [OF assms(1)])
  then have len: "length apps' = length apps" by (simp add: list_all2_lengthD)
  let ?refs = "[length (rt_heap rt)..<length (rt_heap rt) + length apps]"
  have deref: "map ((!) (rt_heap rt @ as)) ?refs = as" if "length as = length apps" for as
    using map_nth_alloc [of "rt_heap rt" as] that by simp
  have dns: "dns_ApplyRefs (se_host se) (rt_heap rt @ apps) d ?refs = Ret (d', e1)"
    using assms(5) by (auto simp: dns_Apply_def Let_def go_bind_eq_Ret)
  show ?thesis
    using assms(2-4,6-8) dns deref [OF refl] deref [OF len] same
    by (simp add: MaybeResetFromTasks_def Let_def all_handlers_def call_Apply_def store_apps_append [OF len]
        split: option.split)
qed

theorem reset_composes_witness:
  "\<exists>rt'. MaybeResetFromTasks (service_example (\<lambda>ip port. Inr \<lparr>mc_getApps = (\<lambda>n. Inr [api_app]), mc_getApp = (\<lambda>n aid. Inr None)\<rparr>))
       full_cfg \<lparr>rt_handlers = [HDns dns_start, HUdp udp_start, HHaproxy haproxy_start, HFiles (files_start [] [])],
         rt_heap = [], rt_world = \<lparr>w_fs = fm_fs (files_start [] [''run'']), w_ran = []\<rparr>, rt_requests = 0, rt_logged = []\<rparr>
       True = Ret (rt', None) \<and>
     map handler_kind (rt_handlers rt') = [KDns, KUdp, KHaproxy, KFiles] \<and> rt_heap rt' = [api_app] \<and>
     rt_logged rt' = [''mkdir'']"
proof -
  let ?mc = "\<lambda>ip port. Inr \<lparr>mc_getApps = (\<lambda>n. Inr [api_app]), mc_getApp = (\<lambda>n aid. Inr None)\<rparr>"
  let ?se = "service_example ?mc" and ?f = "files_start [] []"
  let ?rt = "\<lparr>rt_handlers = [HDns dns_start, HUdp udp_start, HHaproxy haproxy_start, HFiles ?f],
         rt_heap = [], rt_world = \<lparr>w_fs = fm_fs (files_start [] [''run'']), w_ran = []\<rparr>, rt_requests = 0, rt_logged = []\<rparr>"
  have m: "se_marathon ?se (ms_MarathonIP full_cfg) (ms_MarathonPort full_cfg) =
      Inr \<lparr>mc_getApps = (\<lambda>n. Inr [api_app]), mc_getApp = (\<lambda>n aid. Inr None)\<rparr>"
    by (simp add: service_example_def)
  obtain d' heap1 where dns: "dns_Apply (se_host ?se) (dns_start, rt_heap ?rt) [api_app] = Ret ((d', heap1), None)"
    by (simp add: service_example_def dns_eval cfg_app_def sick_task_def other_task_def cfg_task_def)
  have udp: "udp_Apply (se_udp ?se) (se_host ?se) udp_start [api_app] = Ret (udp_start, None)"
    by (simp add: udp_Apply_def applyApp_def apply_port_def cfg_app_def GetTransportProtocol_def)
  have hap: "haproxy_ApplyApps (se_host ?se) (fst haproxy_start) [api_app] = Ret (api_applied, [api_app])"
    using api_ApplyApps by (simp add: haproxy_start_def service_example_def)
  have fil: "files_Apply (?f\<lparr>fm_fs := w_fs (rt_world ?rt)\<rparr>) [api_app] =
      Ret (files_start [] [''run''], Some ''mkdir'')"
    by (simp add: files_Apply_def fs_mkdir_def files_start_def)
  from reset_composes [OF service_env_ok m _ _ dns udp hap fil, of True] obtain rt' where
    "MaybeResetFromTasks ?se full_cfg ?rt True = Ret (rt', None)" "rt_heap rt' = [api_app]"
    "rt_handlers rt' = [HDns d', HUdp udp_start, HHaproxy (api_applied, snd haproxy_start), HFiles (files_start [] [''run''])]"
    "rt_logged rt' = [''mkdir'']" by auto
  then show ?thesis by (intro exI [of _ rt']) simp
qed

text \<open>A client whose parser takes every status update to be that of the running web application.\<close>

definition running_env :: service_env where
  "running_env = (service_example two_webs_marathon)\<lparr>se_statusUpdate := (\<lambda>data. Some web_running)\<rparr>"

theorem running_event_answered_witness:
  "\<exists>sse sse' calls rt' d' reply. setupEventBusListener dns_cfg = Ret sse \<and>
     Run sse (Response 200 (map Line (event_lines (''status_update_event'', [''{}'']))) ''eof'') = Ret (sse', calls) \<and>
     callbacks running_env dns_cfg web_runtime calls = Ret rt' \<and> hd (rt_handlers rt') = HDns d' \<and>
     dnsHandler (rt_heap rt') d' [(''web'' @ ''.'' @ dm_baseName d', TypeA)] = Ret reply \<and>
     map rr_ip (rp_answer reply) = map To4 [[10, 0, 0, 1], [10, 0, 0, 2]]"
proof -
  let ?m = "\<lparr>mc_getApps = (\<lambda>n. Inr [two_webs]),
     mc_getApp = (\<lambda>n aid. if aid = ''/web'' then Inr (Some two_webs) else Inr None)\<rparr>"
  have h: "se_host running_env = example_env" by (simp add: running_env_def service_example_def)
  have sort: "sort_ok (env_sortTasks (se_host running_env))" by (simp add: h example_env_sort_ok)
  have m: "se_marathon running_env (ms_MarathonIP dns_cfg) (ms_MarathonPort dns_cfg) = Inr ?m"
    by (simp add: running_env_def service_example_def two_webs_marathon_def)
  have s: "su_taskStatus web_running = TaskRunning" "su_appId web_running = ''/web''"
    "se_statusUpdate running_env d = Some web_running" for d
    by (simp_all add: web_running_def running_env_def)
  have ok: "service_ok (se_host running_env) web_runtime"
    using setupHandlers_ok [OF service_env_ok web_setup] by (simp add: h service_example_def)
  have r: "resolve_tasks (se_host running_env) (a_tasks two_webs) = Inr [[10, 0, 0, 1], [10, 0, 0, 2]]"
    by (simp add: h dns_eval)
  have n: "dns_name two_webs = ''web''" by (simp add: dns_eval)
  have g: "getMarathonApp running_env dns_cfg rt ''/web'' =
      (rt\<lparr>rt_requests := Suc (rt_requests rt), rt_heap := rt_heap rt @ [two_webs]\<rparr>, Inr (Some (length (rt_heap rt))))" for rt
    by (simp add: getMarathonApp_def m)
  have "a_healthChecks two_webs = []" by (simp add: web_app_def)
  then obtain rt' where rt': "statusUpdateEvent running_env dns_cfg web_runtime web_running = Ret rt'"
    by (simp add: statusUpdateEvent_def g s mmsd_Update_def all_handlers_def call_Update_def
        web_runtime_def nth_append) (simp add: h dns_eval)
  have ev: "event_ok (''status_update_event'', [''{}''])" by (simp add: one_line_def)
  from stream_callbacks [of "[(''status_update_event'', [''{}''])]" dns_cfg "''eof''" running_env web_runtime] ev
  obtain sse sse' calls where c: "setupEventBusListener dns_cfg = Ret sse"
    "Run sse (Response 200 (map Line (event_lines (''status_update_event'', [''{}'']))) ''eof'') = Ret (sse', calls)"
    "callbacks running_env dns_cfg web_runtime calls = Ret rt'"
    using rt' s(3) by (auto simp: listener_def)
  from running_event_answered [OF sort ok _ _ ev s(3) s(1) m _ _ _ r c, where ?app1.0 = two_webs and hs = "[]"] n
  obtain d' reply where "hd (rt_handlers rt') = HDns d'"
    "dnsHandler (rt_heap rt') d' [(''web'' @ ''.'' @ dm_baseName d', TypeA)] = Ret reply"
    "map rr_ip (rp_answer reply) = map To4 [[10, 0, 0, 1], [10, 0, 0, 2]]"
    by (auto simp: s web_runtime_def web_app_def)
  with c show ?thesis by blast
qed

end
