(* ===== verification/Udp_Refines.thy ===== *)
theory Udp_Refines
  imports Udp_Manager
begin

text \<open>
  The UDP manager (src/udp_manager.go over src/udpproxy) as an abstract table: a map from services
  to the address, the scheduler and the backends of their frontend. \<open>udp_call\<close> is the specification
  of a call on the table, with the cases in which the program crashes. The three levels of the code,
  a port, an application and a call of the service, are simulated by those of the specification; each
  is an interpretation of the contract \<open>simulation\<close>, whose loops carry it to the next.
\<close>

section \<open>The specification\<close>

text \<open>What a client can see of a frontend: where it listens, how it schedules, and its backends.\<close>

record udp_view =
  uv_addr :: string
  uv_scheduler :: scheduler
  uv_backends :: "string \<Rightarrow> string option"

definition fe_view :: "frontend \<Rightarrow> udp_view" where
  "fe_view fe = \<lparr>uv_addr = fe_addr fe, uv_scheduler = fe_scheduler fe,
     uv_backends = map_of (map (\<lambda>be. (be_name be, be_addr be)) (fe_backends fe))\<rparr>"

type_synonym udp_table = "string \<Rightarrow> udp_view option"

definition frontends :: "udp_state \<Rightarrow> udp_table" where
  "frontends st name = map_option fe_view (gm_get (um_servers st) name)"

text \<open>
  The backends after a synchronisation with wanted names and addresses: a known one keeps the
  address it had, a new one gets the first of its addresses that resolves, all others are gone.
\<close>

fun first_address :: "udp_env \<Rightarrow> (string \<times> string) list \<Rightarrow> string \<Rightarrow> string option" where
  "first_address ue [] n = None"
| "first_address ue ((m, a) # ps) n =
     (if m = n \<and> ue_resolve ue a \<noteq> None then ue_resolve ue a else first_address ue ps n)"

definition sync_backends :: "udp_env \<Rightarrow> (string \<times> string) list \<Rightarrow> (string \<Rightarrow> string option)
    \<Rightarrow> string \<Rightarrow> string option" where
  "sync_backends ue ps B n =
     (if n \<in> fst ` set ps
      then (case B n of Some addr \<Rightarrow> Some addr | None \<Rightarrow> first_address ue ps n) else None)"

text \<open>
  A port that has no frontend yet gets one, if its address can be bound; the frontends of the
  manager hold their addresses. If it cannot be bound the program crashes.
\<close>

definition open_frontend :: "udp_env \<Rightarrow> string \<Rightarrow> scheduler \<Rightarrow> udp_table \<Rightarrow> udp_view go" where
  "open_frontend ue addr sched V =
     (case ue_resolve ue addr of
        None \<Rightarrow> Panic NilDereference
      | Some a \<Rightarrow>
          if ue_refused ue a \<or> (\<exists>n v. V n = Some v \<and> uv_addr v = a) then Panic NilDereference
          else Ret \<lparr>uv_addr = a, uv_scheduler = sched, uv_backends = Map.empty\<rparr>)"

definition all_ports :: "host_env \<Rightarrow> nat \<Rightarrow> marathon_task list \<Rightarrow> bool" where
  "all_ports env i tasks \<longleftrightarrow> (\<forall>t\<in>set tasks. env_isAlive env t \<longrightarrow> i < length (t_ports t))"

definition udp_port :: "udp_env \<Rightarrow> host_env \<Rightarrow> string \<Rightarrow> marathon_app \<Rightarrow> udp_table \<Rightarrow> nat \<Rightarrow> udp_table go" where
  "udp_port ue env bind app V i =
     (if GetTransportProtocol app i = ''udp'' then
        go_bind (service_name app i) (\<lambda>name.
        go_bind (case V name of
              Some v \<Rightarrow> Ret v
            | None \<Rightarrow> open_frontend ue (bind @ '':'' @ uint_str (pd_port (a_portDefs app ! i))) (frontend_sched app) V)
          (\<lambda>v.
        if all_ports env i (a_tasks app)
        then Ret (V(name \<mapsto> v\<lparr>uv_backends := sync_backends ue (wanted_backends env i (a_tasks app)) (uv_backends v)\<rparr>))
        else Panic IndexOutOfRange))
      else Ret V)"

definition udp_app :: "udp_env \<Rightarrow> host_env \<Rightarrow> string \<Rightarrow> udp_table \<Rightarrow> marathon_app \<Rightarrow> udp_table go" where
  "udp_app ue env bind V app = go_fold (udp_port ue env bind app) V [0..<length (a_ports app)]"

fun udp_call :: "udp_env \<Rightarrow> host_env \<Rightarrow> string \<Rightarrow> udp_table \<Rightarrow> handler_call \<Rightarrow> udp_table go" where
  "udp_call ue env bind V (CallApply apps) = go_fold (udp_app ue env bind) V apps"
| "udp_call ue env bind V (CallUpdate app taskID) = udp_app ue env bind V app"
| "udp_call ue env bind V (CallRemove appID taskID (Some app)) = udp_app ue env bind V app"
| "udp_call ue env bind V (CallRemove appID taskID None) =
     Ret (\<lambda>name. if prefix appID name then None else V name)"

section \<open>Synchronising one frontend\<close>

abbreviation be_map :: "frontend \<Rightarrow> string \<Rightarrow> string option" where
  "be_map fe \<equiv> uv_backends (fe_view fe)"

lemma be_map_def: "be_map fe = map_of (map (\<lambda>be. (be_name be, be_addr be)) (fe_backends fe))"
  by (simp add: fe_view_def)

lemma dom_be_map: "be_map fe n = None \<longleftrightarrow> n \<notin> set (fe_names fe)"
  by (auto simp: be_map_def fe_names_def map_of_eq_None_iff image_image)

lemma be_map_ClearTouch: "be_map (ClearTouch fe) = be_map fe"
  by (simp add: be_map_def ClearTouch_def comp_def)

lemma be_map_touch: "be_map (touch_at fe i) = be_map fe"
proof -
  let ?g = "\<lambda>be. (be_name be, be_addr be)"
  have "map ?g (fe_backends (touch_at fe i)) = map ?g (fe_backends fe)"
    by (cases "i < length (fe_backends fe)")
      (simp_all add: touch_at_def map_update Touch_def list_update_same_conv list_update_beyond)
  then show ?thesis by (simp add: be_map_def)
qed

lemma be_map_AddBackend:
  "AddBackend ue fe n a = (r, fe') \<Longrightarrow>
     be_map fe' m = (case be_map fe m of Some addr \<Rightarrow> Some addr
       | None \<Rightarrow> if m = n then ue_resolve ue a else None)"
proof (cases "find_backend (fe_backends fe) n")
  case None
  assume "AddBackend ue fe n a = (r, fe')"
  with None show ?thesis
    by (auto simp: AddBackend_def NewBackend_def be_map_def map_add_def split: option.splits)
next
  case (Some i)
  then have "be_map fe n \<noteq> None"
    using find_backend_None [of "fe_backends fe" n] by (simp add: dom_be_map fe_names_def)
  moreover assume "AddBackend ue fe n a = (r, fe')"
  ultimately show ?thesis using Some by (auto simp: AddBackend_def split: option.splits)
qed

lemma be_map_fold:
  "be_map (foldl (\<lambda>f (n, a). case AddBackend ue f n a of (Inr i, f') \<Rightarrow> touch_at f' i | (Inl e, f') \<Rightarrow> f') fe ps) m =
     (case be_map fe m of Some addr \<Rightarrow> Some addr | None \<Rightarrow> first_address ue ps m)"
proof (induction ps arbitrary: fe)
  case Nil
  show ?case by (simp split: option.split)
next
  case (Cons p ps)
  obtain n a where p: "p = (n, a)" by (cases p)
  obtain r f' where r: "AddBackend ue fe n a = (r, f')" by (cases "AddBackend ue fe n a")
  let ?f = "case r of Inl e \<Rightarrow> f' | Inr i \<Rightarrow> touch_at f' i"
  have "be_map ?f m = be_map f' m" by (cases r) (simp_all add: be_map_touch)
  with Cons.IH [of ?f] be_map_AddBackend [OF r, of m] show ?case
    by (cases r) (auto simp: p r split: option.splits)
qed

lemma map_of_kept:
  "distinct (map f xs) \<Longrightarrow>
   map_of (map (\<lambda>x. (f x, g x)) (filter P xs)) n =
     (if n \<in> f ` set (filter P xs) then map_of (map (\<lambda>x. (f x, g x)) xs) n else None)"
  by (induction xs) (auto simp: rev_image_eqI)

lemma first_address_None: "first_address ue ps n = None \<longleftrightarrow> (\<forall>a. (n, a) \<in> set ps \<longrightarrow> ue_resolve ue a = None)"
  by (induction ue ps n rule: first_address.induct) auto

lemma sync_view:
  assumes "distinct (fe_names fe)"
  shows "fe_view (sync_frontend ue fe ps) = (fe_view fe)\<lparr>uv_backends := sync_backends ue ps (be_map fe)\<rparr>"
proof -
  let ?f = "foldl (\<lambda>f (n, a). case AddBackend ue f n a of (Inr i, f') \<Rightarrow> touch_at f' i | (Inl e, f') \<Rightarrow> f')
    (ClearTouch fe) ps"
  have s: "sync_frontend ue fe ps = RemoveUntouched ?f" by (simp add: sync_frontend_def sync_pool_def)
  have "distinct (fe_names ?f)"
    using conjunct1 [OF pool.add_touch_fold [of "ClearTouch fe" ?f ue ps]] assms
    by (simp add: map_fst_fe_live) (simp add: ClearTouch_def fe_names_def comp_def)
  then have kept: "be_map (sync_frontend ue fe ps) n =
      (if n \<in> set (fe_names (sync_frontend ue fe ps)) then be_map ?f n else None)" for n
    unfolding s by (simp add: be_map_def RemoveUntouched_def fe_names_def map_of_kept)
  have "be_map (sync_frontend ue fe ps) n = sync_backends ue ps (be_map fe) n" for n
    using sync_frontend_names [OF assms, of ue ps] dom_be_map [of fe n] first_address_None [of ue ps n]
    by (auto simp: kept be_map_fold be_map_ClearTouch sync_backends_def image_iff split: option.splits)
      (metis fst_conv)+
  with sync_frame [of ue fe ps] show ?thesis by (simp add: fe_view_def fun_eq_iff)
qed

lemma add_tasks_total:
  "go_fold (add_task ue env i) fe tasks =
     (if all_ports env i tasks
      then Ret (foldl (\<lambda>f (n, a). case AddBackend ue f n a of (Inr i, f') \<Rightarrow> touch_at f' i | (Inl e, f') \<Rightarrow> f')
                 fe (wanted_backends env i tasks))
      else Panic IndexOutOfRange)"
proof (induction tasks arbitrary: fe)
  case (Cons t tasks)
  show ?case
  proof (cases "env_isAlive env t")
    case False
    with Cons.IH show ?thesis by (simp add: add_task_def all_ports_def wanted_backends_def)
  next
    case True
    show ?thesis
    proof (cases "i < length (t_ports t)")
      case False
      with True show ?thesis by (auto simp: add_task_def all_ports_def go_nth_def)
    next
      case alive: True
      obtain r f where r: "AddBackend ue fe (backend_name t) (backend_addr t (t_ports t ! i)) = (r, f)"
        by (cases "AddBackend ue fe (backend_name t) (backend_addr t (t_ports t ! i))")
      with True alive have "add_task ue env i fe t = Ret (case r of Inr i \<Rightarrow> touch_at f i | Inl e \<Rightarrow> f)"
        by (simp add: add_task_def go_nth_def split: sum.split)
      with True alive r Cons.IH [of "case r of Inr i \<Rightarrow> touch_at f i | Inl e \<Rightarrow> f"] show ?thesis
        by (simp add: all_ports_def wanted_backends_def)
    qed
  qed
qed (simp add: all_ports_def wanted_backends_def)

section \<open>The refinement\<close>

text \<open>The manager's sockets are those of its frontends: none is lost, none is bound twice.\<close>

definition udp_closed :: "string \<Rightarrow> udp_state \<Rightarrow> bool" where
  "udp_closed bind st \<longleftrightarrow> udp_ok st \<and> um_bindAddr st = bind \<and>
     (\<forall>a\<in>set (us_socks st). \<exists>n v. frontends st n = Some v \<and> uv_addr v = a)"

lemma udp_closed_socks:
  assumes "udp_closed bind st"
  shows "a \<in> set (us_socks st) \<longleftrightarrow> (\<exists>n v. frontends st n = Some v \<and> uv_addr v = a)"
proof
  assume "\<exists>n v. frontends st n = Some v \<and> uv_addr v = a"
  then obtain n fe where "gm_get (um_servers st) n = Some fe" "a = fe_addr fe"
    by (auto simp: frontends_def fe_view_def)
  with assms udp_okD show "a \<in> set (us_socks st)" by (auto simp: udp_closed_def server_ok_def)
qed (use assms in \<open>simp add: udp_closed_def\<close>)

lemma NewFrontend_view:
  assumes "udp_closed bind st"
  shows "case NewFrontend ue (us_socks st) name addr sched of
      (Inl err, socks) \<Rightarrow> open_frontend ue addr sched (frontends st) = Panic NilDereference \<and> socks = us_socks st
    | (Inr fe, socks) \<Rightarrow> open_frontend ue addr sched (frontends st) = Ret (fe_view fe) \<and>
        socks = fe_addr fe # us_socks st \<and> fe_names fe = []"
  using udp_closed_socks [OF assms]
  by (auto simp: NewFrontend_def ListenUDP_def open_frontend_def fe_view_def fe_names_def split: option.split)

lemma frontends_put:
  "gm_put (um_servers st) name fe = Ret servers \<Longrightarrow>
     frontends (st\<lparr>um_servers := servers\<rparr>) = (frontends st)(name \<mapsto> fe_view fe)"
  by (auto simp: frontends_def gm_get_put fun_eq_iff)

text \<open>The frontend of a port: the one that is there, or the new one.\<close>

lemma GetFrontend_view:
  assumes c: "udp_closed bind st" and n: "service_name app i = Ret name"
  shows "case (case frontends st name of Some v \<Rightarrow> Ret v
      | None \<Rightarrow> open_frontend ue (bind @ '':'' @ uint_str (pd_port (a_portDefs app ! i))) (frontend_sched app) (frontends st)) of
    Panic p \<Rightarrow> p = NilDereference \<and> (\<exists>err. GetFrontend ue st app i = Ret (Inl err, st))
  | Ret v \<Rightarrow> \<exists>fe st1. GetFrontend ue st app i = Ret (Inr name, st1) \<and> gm_get (um_servers st1) name = Some fe \<and>
      fe_view fe = v \<and> distinct (fe_names fe) \<and> um_servers st1 \<noteq> None \<and> um_bindAddr st1 = bind \<and>
      frontends st1 = (frontends st)(name \<mapsto> v) \<and> set (us_socks st1) = insert (uv_addr v) (set (us_socks st))"
proof (cases "gm_get (um_servers st) name")
  case (Some fe)
  from c Some have "server_ok st name fe" by (simp add: udp_closed_def udp_okD)
  then have "distinct (fe_names fe)" "fe_addr fe \<in> set (us_socks st)" by (simp_all add: server_ok_def)
  moreover have "GetFrontend ue st app i = Ret (Inr name, st)"
    using n Some by (auto simp: GetFrontend_def service_name_def go_run)
  moreover have "frontends st name = Some (fe_view fe)" by (simp add: frontends_def Some)
  ultimately show ?thesis
    using Some c by (auto simp: udp_closed_def udp_ok_def fe_view_def insert_absorb fun_upd_triv)
next
  case None
  let ?addr = "bind @ '':'' @ uint_str (pd_port (a_portDefs app ! i))"
  obtain r socks where r: "NewFrontend ue (us_socks st) name ?addr (frontend_sched app) = (r, socks)"
    by (cases "NewFrontend ue (us_socks st) name ?addr (frontend_sched app)")
  have f: "frontends st name = None" by (simp add: frontends_def None)
  note view = NewFrontend_view [OF c, where ue = ue and name = name and addr = ?addr and sched = "frontend_sched app", unfolded r]
  have g: "GetFrontend ue st app i =
      (case r of Inl err \<Rightarrow> Ret (Inl err, st\<lparr>us_socks := socks\<rparr>)
       | Inr fe \<Rightarrow> go_bind (gm_put (um_servers st) name fe) (\<lambda>servers.
           Ret (Inr name, st\<lparr>um_servers := servers, us_socks := socks\<rparr>)))"
  proof -
    from n have "go_nth (a_portDefs app) i = Ret (a_portDefs app ! i)"
      "PrettifyAppId (a_id app) i (pd_port (a_portDefs app ! i)) = Ret name"
      by (auto simp: service_name_def go_run)
    moreover have "um_bindAddr st = bind" using c by (simp add: udp_closed_def)
    ultimately show ?thesis using None r by (simp add: GetFrontend_def split: sum.split)
  qed
  show ?thesis
  proof (cases r)
    case (Inl err)
    with view g f show ?thesis by simp
  next
    case (Inr fe)
    from c obtain servers where p: "gm_put (um_servers st) name fe = Ret servers" "servers \<noteq> None"
      using gm_put_returns [of "um_servers st" name fe] by (auto simp: udp_closed_def udp_ok_def)
    from gm_get_put [OF p(1)] have "gm_get servers name = Some fe" by simp
    moreover have "frontends (st\<lparr>um_servers := servers, us_socks := socks\<rparr>) = (frontends st)(name \<mapsto> fe_view fe)"
      using frontends_put [OF p(1)] by (simp add: frontends_def fun_eq_iff)
    ultimately show ?thesis using view g f p Inr c by (simp add: udp_closed_def fe_view_def)
  qed
qed

lemma udp_closed_update:
  assumes c: "udp_closed bind st" and ok: "udp_ok st'" and "um_bindAddr st' = bind"
    and v: "\<And>w. frontends st name = Some w \<Longrightarrow> uv_addr w = uv_addr v"
    and f: "frontends st' = (frontends st)(name \<mapsto> v)"
    and s: "set (us_socks st') = insert (uv_addr v) (set (us_socks st))"
  shows "udp_closed bind st'"
  unfolding udp_closed_def
proof (intro conjI ballI)
  fix a assume "a \<in> set (us_socks st')"
  then consider "a = uv_addr v" | n u where "frontends st n = Some u" "uv_addr u = a"
    using udp_closed_socks [OF c, of a] by (auto simp: s)
  then show "\<exists>n u. frontends st' n = Some u \<and> uv_addr u = a"
  proof cases
    case 1
    then show ?thesis by (auto simp: f)
  next
    case (2 n u)
    show ?thesis
    proof (cases "n = name")
      case True
      with 2 v [of u] have "uv_addr v = a" by simp
      then show ?thesis by (auto simp: f)
    next
      case False
      with 2 have "frontends st' n = Some u" by (simp add: f)
      with 2 show ?thesis by blast
    qed
  qed
qed (use assms in simp_all)

text \<open>One port: both sides do the same, and where the manager returns it keeps its invariant.\<close>

lemma apply_port_view:
  assumes c: "udp_closed bind st"
  shows "(\<exists>p. apply_port ue env app st i = Panic p \<and> udp_port ue env bind app (frontends st) i = Panic p) \<or>
    (\<exists>st'. apply_port ue env app st i = Ret st' \<and> udp_closed bind st' \<and>
       udp_port ue env bind app (frontends st) i = Ret (frontends st'))"
proof (cases "GetTransportProtocol app i = ''udp''")
  case False
  with c show ?thesis by (simp add: apply_port_def udp_port_def)
next
  case udp: True
  show ?thesis
  proof (cases "service_name app i")
    case (Panic p)
    then have "GetFrontend ue st app i = Panic p"
      by (auto simp: GetFrontend_def service_name_def go_bind_eq_Panic)
    with udp Panic show ?thesis by (simp add: apply_port_def udp_port_def)
  next
    case (Ret name)
    define old where "old = (case frontends st name of Some v \<Rightarrow> Ret v
      | None \<Rightarrow> open_frontend ue (bind @ '':'' @ uint_str (pd_port (a_portDefs app ! i))) (frontend_sched app) (frontends st))"
    note get = GetFrontend_view [OF c Ret, of ue, folded old_def]
    let ?ps = "wanted_backends env i (a_tasks app)"
    have spec: "udp_port ue env bind app (frontends st) i = go_bind old (\<lambda>v.
        if all_ports env i (a_tasks app)
        then Ret ((frontends st)(name \<mapsto> v\<lparr>uv_backends := sync_backends ue ?ps (uv_backends v)\<rparr>))
        else Panic IndexOutOfRange)"
      using udp Ret by (simp add: udp_port_def old_def)
    show ?thesis
    proof (cases old)
      case (Panic p)
      with get udp spec show ?thesis by (auto simp: apply_port_def)
    next
      case old: (Ret v)
      with get obtain fe st1 where g: "GetFrontend ue st app i = Ret (Inr name, st1)"
        "gm_get (um_servers st1) name = Some fe" "fe_view fe = v" "distinct (fe_names fe)"
        "um_servers st1 \<noteq> None" "um_bindAddr st1 = bind" "frontends st1 = (frontends st)(name \<mapsto> v)"
        "set (us_socks st1) = insert (uv_addr v) (set (us_socks st))" by auto
      show ?thesis
      proof (cases "all_ports env i (a_tasks app)")
        case False
        with g udp old spec show ?thesis by (simp add: apply_port_def add_tasks_total)
      next
        case True
        let ?fe = "sync_frontend ue fe ?ps"
        obtain servers where p: "gm_put (um_servers st1) name ?fe = Ret servers"
          using gm_put_returns [OF g(5), of name ?fe] by auto
        define st' where "st' = st1\<lparr>um_servers := servers, us_serving := fe_addr fe # us_serving st1\<rparr>"
        have a: "apply_port ue env app st i = Ret st'"
          using udp g p True by (simp add: apply_port_def add_tasks_total st'_def sync_frontend_def sync_pool_def)
        have f: "frontends st' = (frontends st)(name \<mapsto> v\<lparr>uv_backends := sync_backends ue ?ps (uv_backends v)\<rparr>)"
          using frontends_put [OF p] g(3,7) sync_view [OF g(4), of ue ?ps]
          by (simp add: st'_def frontends_def fun_eq_iff)
        have "udp_closed bind st'"
        proof (rule udp_closed_update [OF c _ _ _ f])
          show "udp_ok st'" using c udp_ok_apply_port [OF _ a] by (simp add: udp_closed_def)
          show "frontends st name = Some w \<Longrightarrow> uv_addr w = uv_addr (v\<lparr>uv_backends := sync_backends ue ?ps (uv_backends v)\<rparr>)" for w
            using old by (simp add: old_def)
        qed (simp_all add: st'_def g(6,8))
        with a f old spec True show ?thesis by simp
      qed
    qed
  qed
qed

interpretation port_sim: simulation "udp_closed bind" frontends "apply_port ue env app" "udp_port ue env bind app"
  for ue env bind app
proof
  fix st i st'
  assume c: "udp_closed bind st"
  note p = apply_port_view [OF c, of ue env app i]
  from p show "go_bind (apply_port ue env app st i) (\<lambda>s. Ret (frontends s)) = udp_port ue env bind app (frontends st) i"
    by auto
  from p show "udp_closed bind st'" if "apply_port ue env app st i = Ret st'" using that by auto
qed

interpretation app_sim: simulation "udp_closed bind" frontends "applyApp ue env" "udp_app ue env bind"
  for ue env bind
proof
  fix st app st'
  assume c: "udp_closed bind st"
  show "go_bind (applyApp ue env st app) (\<lambda>s. Ret (frontends s)) = udp_app ue env bind (frontends st) app"
    unfolding applyApp_def udp_app_def by (rule port_sim.fold_view [OF c])
  show "udp_closed bind st'" if "applyApp ue env st app = Ret st'"
    using that unfolding applyApp_def by (rule port_sim.fold_inv [OF c])
qed

text \<open>The removal of an application by the prefix of its names, on any table.\<close>

abbreviation close_step :: "udp_state \<Rightarrow> string \<Rightarrow> udp_state" where
  "close_step st name \<equiv> (case gm_get (um_servers st) name of
       Some fe \<Rightarrow> (close_server fe st)\<lparr>um_servers := gm_delete (um_servers st) name\<rparr>
     | None \<Rightarrow> st)"

lemma close_frontends:
  assumes "udp_closed bind st"
  shows "udp_closed bind (foldl close_step st ns) \<and>
    frontends (foldl close_step st ns) = (\<lambda>n. if n \<in> set ns then None else frontends st n)"
  using assms
proof (induction ns arbitrary: st)
  case (Cons n ns)
  have one: "udp_closed bind (close_step st n) \<and> frontends (close_step st n) = (frontends st)(n := None)"
  proof (cases "gm_get (um_servers st) n")
    case None
    with Cons.prems show ?thesis by (simp add: frontends_def fun_upd_idem)
  next
    case (Some fe)
    let ?st = "(close_server fe st)\<lparr>um_servers := gm_delete (um_servers st) n\<rparr>"
    have f: "frontends ?st = (frontends st)(n := None)"
      by (simp add: frontends_def gm_get_delete fun_eq_iff)
    have "udp_ok ?st" and "um_bindAddr ?st = bind"
      using Cons.prems udp_ok_close [OF _ Some] by (simp_all add: udp_closed_def close_server_def)
    moreover have "\<exists>m v. frontends ?st m = Some v \<and> uv_addr v = a" if "a \<in> set (us_socks ?st)" for a
    proof -
      from that have "a \<noteq> fe_addr fe" "a \<in> set (us_socks st)" by (auto simp: close_server_def CloseFrontend_def)
      with udp_closed_socks [OF Cons.prems] obtain m v where m: "frontends st m = Some v" "uv_addr v = a" by blast
      with \<open>a \<noteq> fe_addr fe\<close> have "m \<noteq> n" by (auto simp: frontends_def Some fe_view_def)
      with m f show ?thesis by auto
    qed
    ultimately show ?thesis using f Some by (simp add: udp_closed_def)
  qed
  from Cons.IH [OF conjunct1 [OF one]] conjunct2 [OF one] show ?case by (auto simp: fun_eq_iff)
qed simp_all

lemma removeApp_view:
  assumes "udp_closed bind st"
  shows "udp_closed bind (removeApp st appID)"
    and "frontends (removeApp st appID) = (\<lambda>n. if prefix appID n then None else frontends st n)"
proof -
  have "frontends st n = None" if "n \<notin> set (gm_keys (um_servers st))" for n
    using that by (simp add: set_gm_keys frontends_def domIff)
  with close_frontends [OF assms, of "filter (prefix appID) (gm_keys (um_servers st))"]
  show "udp_closed bind (removeApp st appID)"
    and "frontends (removeApp st appID) = (\<lambda>n. if prefix appID n then None else frontends st n)"
    by (auto simp: removeApp_def fun_eq_iff)
qed

interpretation call_sim: simulation "udp_closed bind" frontends
    "\<lambda>s call. go_bind (handler_step (udp_Apply ue env) (udp_Update ue env) (udp_Remove ue env) s call) (\<lambda>(s', err). Ret s')"
    "udp_call ue env bind"
  for ue env bind
proof
  fix st call st'
  assume c: "udp_closed bind st"
  let ?f = "go_bind (handler_step (udp_Apply ue env) (udp_Update ue env) (udp_Remove ue env) st call) (\<lambda>(s', err). Ret s')"
  consider (fold) apps where "?f = go_fold (applyApp ue env) st apps"
      "udp_call ue env bind (frontends st) call = go_fold (udp_app ue env bind) (frontends st) apps"
    | (gone) aid tid where "call = CallRemove aid tid None"
  proof (cases call)
    case (CallApply apps)
    then show thesis by (intro fold [of apps]) (simp_all add: udp_Apply_def go_bind_assoc)
  next
    case (CallUpdate app tid)
    then show thesis by (intro fold [of "[app]"]) (simp_all add: udp_Update_def go_bind_assoc)
  next
    case (CallRemove aid tid appo)
    then show thesis
      by (cases appo) (auto intro: gone fold [of "[app]" for app] simp: udp_Remove_def go_bind_assoc)
  qed
  then have "go_bind ?f (\<lambda>s. Ret (frontends s)) = udp_call ue env bind (frontends st) call \<and>
      (\<forall>s'. ?f = Ret s' \<longrightarrow> udp_closed bind s')"
  proof cases
    case (fold apps)
    then show ?thesis using app_sim.fold_view [OF c] app_sim.fold_inv [OF c] by simp
  next
    case (gone aid tid)
    with removeApp_view [OF c] show ?thesis by (simp add: udp_Remove_def)
  qed
  then show "go_bind ?f (\<lambda>s. Ret (frontends s)) = udp_call ue env bind (frontends st) call"
    and "?f = Ret st' \<Longrightarrow> udp_closed bind st'" by blast+
qed

lemma run_frontends:
  "udp_closed bind st \<Longrightarrow>
   go_fold (udp_call ue env bind) (frontends st) calls =
     go_bind (handler_run (udp_Apply ue env) (udp_Update ue env) (udp_Remove ue env) st calls) (\<lambda>s. Ret (frontends s))"
  unfolding handler_run_def by (rule call_sim.fold_view [symmetric])

text \<open>
  C8. The UDP manager implements its abstract table exactly. Seen from outside (the address, the
  scheduler and the backends of every service), a sequence of calls of the service does what the
  specification of the same calls does, whether it returns or panics; a frontend keeps the address
  and the scheduler it was made with, a known task keeps its address, and the bound sockets are
  always those of the frontends.
\<close>

theorem udp_run_refines:
  assumes "udp_closed bind st"
  shows "go_bind (handler_run (udp_Apply ue env) (udp_Update ue env) (udp_Remove ue env) st calls)
      (\<lambda>st'. Ret (frontends st', set (us_socks st'))) =
    go_bind (go_fold (udp_call ue env bind) (frontends st) calls)
      (\<lambda>V. Ret (V, {uv_addr v | v. \<exists>name. V name = Some v}))"
proof -
  let ?run = "handler_run (udp_Apply ue env) (udp_Update ue env) (udp_Remove ue env) st calls"
  have "set (us_socks st') = {uv_addr v | v. \<exists>name. frontends st' name = Some v}" if "?run = Ret st'" for st'
    using udp_closed_socks [OF call_sim.fold_inv [OF assms that [unfolded handler_run_def]]]
    by (simp add: set_eq_iff) metis
  moreover have "go_fold (udp_call ue env bind) (frontends st) calls = go_bind ?run (\<lambda>s. Ret (frontends s))"
    by (rule run_frontends [OF assms])
  ultimately show ?thesis by (cases ?run) auto
qed

text \<open>An application is applied and then destroyed: its frontend stays.\<close>

lemma udp_start_closed: "udp_closed ''0.0.0.0'' udp_start"
  by (simp add: udp_closed_def udp_start_ok)
    (simp add: udp_start_def NewUdpManager_def udp_manager.extend_def)

theorem udp_run_refines_witness:
  "go_bind (go_fold (udp_call example_udp example_env ''0.0.0.0'') (frontends udp_start)
      [CallApply [dns_app [dns_task]], CallRemove ''/infra/dns'' '''' None])
    (\<lambda>V. Ret (V, {uv_addr v | v. \<exists>name. V name = Some v})) =
   Ret ([''infra.dns-0-53'' \<mapsto> \<lparr>uv_addr = ''0.0.0.0:53'', uv_scheduler = RoundRobin,
          uv_backends = [''slave1-t1'' \<mapsto> ''slave1:31053'']\<rparr>], {''0.0.0.0:53''})"
proof -
  have "frontends udp_serving_dns = [''infra.dns-0-53'' \<mapsto> \<lparr>uv_addr = ''0.0.0.0:53'', uv_scheduler = RoundRobin,
          uv_backends = [''slave1-t1'' \<mapsto> ''slave1:31053'']\<rparr>]"
    and "us_socks udp_serving_dns = [''0.0.0.0:53'']"
    by (simp_all add: frontends_def udp_serving_dns_def gm_get_Some fe_view_def dns_frontend_def fun_eq_iff)
  then show ?thesis
    using udp_run_refines [OF udp_start_closed, of example_udp example_env
      "[CallApply [dns_app [dns_task]], CallRemove ''/infra/dns'' '''' None]"]
    by (simp only: run_example) simp
qed

end
