(* ===== verification/Haproxy_Fragments.thy ===== *)
theory Haproxy_Fragments
  imports Haproxy_Manager
begin

text \<open>
  The configuration over every sequence of handler calls. The abstract state is the map from
  application ids to the fragments of the configuration; a fragment is what a fresh manager with
  the same settings renders for the application (\<open>fragment\<close>). The code's manager, with its history
  of virtual hosts, labels and cached tasks, implements that map (\<open>run_fragments\<close>), and the text it
  renders is the head followed by the fragments in the order of their ids (\<open>config_text_fragments\<close>).
\<close>

section \<open>Rendering does not depend on the history\<close>

definition hosts_made :: "haproxy_mgr \<Rightarrow> bool" where
  "hosts_made m \<longleftrightarrow> hm_vhosts m \<noteq> None \<and> hm_vhostsHTTPS m \<noteq> None"

lemma static_settings:
  assumes "static m = static n"
  shows "port_text env m = port_text env n" and "isGroupIncluded m = isGroupIncluded n"
proof -
  note fields = arg_cong [OF assms, of hm_Address] arg_cong [OF assms, of hm_FilterGroups]
    arg_cong [OF assms, of hm_LocalHealthChecks]
  show "port_text env m = port_text env n" and "isGroupIncluded m = isGroupIncluded n"
    using fields by (simp_all add: static_def fun_eq_iff port_text_def server_opts_def isGroupIncluded_def)
qed

lemma static_hosts:
  "static (m\<lparr>hm_vhosts := v, hm_vhostDefault := d, hm_vhostsHTTPS := w, hm_vhostDefaultHTTPS := e\<rparr>) = static m"
  "static (m\<lparr>hm_appLabels := l\<rparr>) = static m"
  by (simp_all add: static_def)

lemma set_vhosts_returns:
  assumes "v \<noteq> None"
  shows "\<exists>v' d'. set_vhosts v d a hosts flag = Ret (v', d') \<and> v' \<noteq> None"
proof (cases "hosts = []")
  case True
  with assms show ?thesis by (simp add: set_vhosts_def del: not_None_eq)
next
  case False
  from gm_put_returns [OF assms, of a hosts] obtain v' where "gm_put v a hosts = Ret v'" "v' \<noteq> None" by blast
  with False show ?thesis by (simp add: set_vhosts_def)
qed

lemma port_elsewhere:
  assumes r: "makeConfigForPort env m app i = Ret (m', app', s)"
    and n: "static m = static n" "hosts_made n"
  shows "\<exists>n'. makeConfigForPort env n app i = Ret (n', app', s) \<and> static m' = static n' \<and> hosts_made n'"
proof (cases "GetTransportProtocol app i = ''tcp''")
  case False
  with assms show ?thesis by (auto simp: makeConfigForPort_def)
next
  case True
  with r obtain pd name where d: "go_nth (a_portDefs app) i = Ret pd"
    "PrettifyAppId (a_id app) i (pd_port pd) = Ret name"
    and m': "static m' = static m" "app' = app\<lparr>a_tasks := sortTasks env (a_tasks app) i\<rparr>"
    "s = port_text env m app i pd name (sortTasks env (a_tasks app) i)"
    by (auto simp: makeConfigForPort_def go_bind_eq_Ret Let_def static_hosts)
  from n(2) have "hm_vhosts n \<noteq> None" "hm_vhostsHTTPS n \<noteq> None" by (simp_all add: hosts_made_def)
  from set_vhosts_returns [OF this(1)] set_vhosts_returns [OF this(2)] obtain v e w f where
    "set_vhosts (hm_vhosts n) (hm_vhostDefault n) name (makeStringArray (pd_label pd LB_VHOST_HTTP))
       (pd_label pd LB_VHOST_DEFAULT_HTTP) = Ret (v, e)" "v \<noteq> None"
    "set_vhosts (hm_vhostsHTTPS n) (hm_vhostDefaultHTTPS n) name (makeStringArray (pd_label pd LB_VHOST_HTTPS))
       (pd_label pd LB_VHOST_DEFAULT_HTTPS) = Ret (w, f)" "w \<noteq> None"
    by metis
  with True d m' n(1) static_settings(1) [OF n(1), of env] show ?thesis
    by (simp add: makeConfigForPort_def Let_def static_hosts hosts_made_def)
qed

lemma config_ports_elsewhere:
  "config_ports env m app r i pds = Ret (m', app', s) \<Longrightarrow> static m = static n \<Longrightarrow> hosts_made n \<Longrightarrow>
   \<exists>n'. config_ports env n app r i pds = Ret (n', app', s)"
proof (induction pds arbitrary: m n app r i)
  case (Cons pd pds)
  note same = static_settings(2) [OF Cons.prems(2)]
  show ?case
  proof (cases "isGroupIncluded m (pd_label pd ''lb-group'')")
    case True
    with Cons.prems(1) obtain m1 app1 s1 where 1: "makeConfigForPort env m app i = Ret (m1, app1, s1)"
      and 2: "config_ports env m1 app1 (r @ s1) (Suc i) pds = Ret (m', app', s)"
      by (auto simp: go_bind_eq_Ret)
    from port_elsewhere [OF 1 Cons.prems(2,3)] obtain n1 where
      "makeConfigForPort env n app i = Ret (n1, app1, s1)" "static m1 = static n1" "hosts_made n1" by blast
    with Cons.IH [OF 2, of n1] True same show ?thesis by simp
  next
    case False
    with Cons same show ?thesis by simp
  qed
qed simp

text \<open>What a fresh manager with the settings of \<open>c\<close> renders for an application.\<close>

definition fragment :: "host_env \<Rightarrow> haproxy_mgr \<Rightarrow> marathon_app \<Rightarrow> string" where
  "fragment env c app = 
     (case makeConfig env (apply_reset c) app of Ret (_, _, s) \<Rightarrow> s | Panic e \<Rightarrow> [])"

lemma makeConfig_fragment:
  assumes "makeConfig env m app = Ret (m', app', s)" and "static m = static c"
  shows "s = fragment env c app"
proof -
  from assms(1) obtain l where
    p: "config_ports env (m\<lparr>hm_appLabels := l\<rparr>) app [] 0 (a_portDefs app) = Ret (m', app', s)"
    by (auto simp: makeConfig_def go_bind_eq_Ret Let_def)
  let ?c = "apply_reset c"
  have "(case hm_appLabels ?c of None \<Rightarrow> gm_make | Some _ \<Rightarrow> hm_appLabels ?c) \<noteq> None"
    by (simp add: gm_make_def split: option.split)
  from gm_put_returns [OF this] obtain k where
    k: "gm_put (case hm_appLabels ?c of None \<Rightarrow> gm_make | Some _ \<Rightarrow> hm_appLabels ?c) (a_id app) (a_labels app) = Ret k"
    by blast
  have "static (m\<lparr>hm_appLabels := l\<rparr>) = static (?c\<lparr>hm_appLabels := k\<rparr>)"
    using assms(2) by (simp add: static_hosts static_blank)
  moreover have "hosts_made (?c\<lparr>hm_appLabels := k\<rparr>)"
    by (simp add: hosts_made_def apply_reset_def clearAppStateCache_def)
  ultimately obtain n' where
    "config_ports env (?c\<lparr>hm_appLabels := k\<rparr>) app [] 0 (a_portDefs app) = Ret (n', app', s)"
    using config_ports_elsewhere [OF p] by blast
  with k show ?thesis by (simp add: fragment_def makeConfig_def Let_def)
qed

lemma config_ports_tasks:
  "sort_ok (env_sortTasks env) \<Longrightarrow> config_ports env m app r i pds = Ret (m', app', s) \<Longrightarrow>
   mset (a_tasks app') = mset (a_tasks app)"
proof (induction pds arbitrary: m app r i)
  case (Cons pd pds)
  show ?case
  proof (cases "isGroupIncluded m (pd_label pd ''lb-group'')")
    case True
    with Cons.prems(2) obtain m1 app1 s1 where 1: "makeConfigForPort env m app i = Ret (m1, app1, s1)"
      and 2: "config_ports env m1 app1 (r @ s1) (Suc i) pds = Ret (m', app', s)"
      by (auto simp: go_bind_eq_Ret)
    from 1 have "mset (a_tasks app1) = mset (a_tasks app)"
      by (auto simp: makeConfigForPort_def go_bind_eq_Ret Let_def mset_sortTasks [OF Cons.prems(1)] split: if_splits)
    with Cons.IH [OF Cons.prems(1) 2] show ?thesis by simp
  next
    case False
    with Cons show ?thesis by auto
  qed
qed simp

lemma makeConfig_tasks:
  assumes "sort_ok (env_sortTasks env)" and "makeConfig env m app = Ret (m', app', s)"
  shows "a_tasks app' = [] \<longleftrightarrow> a_tasks app = []"
proof -
  from assms(2) obtain l where "config_ports env (m\<lparr>hm_appLabels := l\<rparr>) app [] 0 (a_portDefs app) = Ret (m', app', s)"
    by (auto simp: makeConfig_def go_bind_eq_Ret Let_def)
  from config_ports_tasks [OF assms(1) this] show ?thesis by (metis mset_zero_iff)
qed

lemma makeConfig_keeps_fragments:
  "makeConfig env m app = Ret (m', app', s) \<Longrightarrow> hm_appConfigFragments m' = hm_appConfigFragments m"
  by (rule blank_vhosts_fields(1)) (rule makeConfig_step(1))

section \<open>The abstract configuration\<close>

type_synonym fragment_map = "string \<Rightarrow> string option"

definition put_fragment :: "host_env \<Rightarrow> haproxy_mgr \<Rightarrow> fragment_map \<Rightarrow> marathon_app \<Rightarrow> fragment_map" where
  "put_fragment env c V app = V(a_id app \<mapsto> fragment env c app)"

fun fragment_call :: "host_env \<Rightarrow> haproxy_mgr \<Rightarrow> fragment_map \<Rightarrow> handler_call \<Rightarrow> fragment_map" where
  "fragment_call env c V (CallApply apps) = foldl (put_fragment env c) Map.empty apps"
| "fragment_call env c V (CallUpdate app taskID) = put_fragment env c V app"
| "fragment_call env c V (CallRemove appID taskID (Some app)) =
     (if a_tasks app = [] then V(appID := None) else V(appID \<mapsto> fragment env c app))"
| "fragment_call env c V (CallRemove appID taskID None) = V(appID := None)"

abbreviation fragments :: "haproxy_mgr \<Rightarrow> fragment_map" where
  "fragments m \<equiv> gm_get (hm_appConfigFragments m)"

lemma put_config_fragments:
  assumes "put_config env m app = Ret (m', app')" and "static m = static c"
  shows "fragments m' = put_fragment env c (fragments m) app"
proof -
  from assms(1) obtain m1 s fs where 1: "makeConfig env m app = Ret (m1, app', s)"
    and 2: "gm_put (hm_appConfigFragments m1) (a_id app') s = Ret fs"
    and 3: "cacheTasks (m1\<lparr>hm_appConfigFragments := fs\<rparr>) (a_tasks app') = Ret m'"
    by (auto simp: put_config_def go_bind_eq_Ret)
  from blank_cache_fields(1) [OF cacheTasks_step [OF 3]] gm_get_put [OF 2] show ?thesis
    by (simp add: put_fragment_def makeConfig_keeps_fragments [OF 1] makeConfig_step(3) [OF 1]
        makeConfig_fragment [OF 1 assms(2)])
qed

lemma put_configs_fragments:
  "put_configs env m apps = Ret (m', apps') \<Longrightarrow> static m = static c \<Longrightarrow>
   fragments m' = foldl (put_fragment env c) (fragments m) apps"
proof (induction apps arbitrary: m apps')
  case (Cons app apps)
  from Cons.prems(1) obtain m1 app' rest where 1: "put_config env m app = Ret (m1, app')"
    and 2: "put_configs env m1 apps = Ret (m', rest)" by (auto simp: go_bind_eq_Ret)
  from Cons.IH [OF 2] static_put_config [OF 1] put_config_fragments [OF 1 Cons.prems(2)] Cons.prems(2)
  show ?case by simp
qed simp

lemma UpdateApp_put:
  "haproxy_UpdateApp env admin m app tid = Ret (m', app', sent, err) \<Longrightarrow> put_config env m app = Ret (m', app')"
  by (auto simp: haproxy_UpdateApp_def go_bind_eq_Ret Let_def split: if_split_asm prod.split_asm)

lemma RemoveApp_fragments:
  assumes "sort_ok (env_sortTasks env)" and "haproxy_RemoveApp env m aid tid appo = Ret (m', appo')"
    and "static m = static c"
  shows "fragments m' = fragment_call env c (fragments m) (CallRemove aid tid appo)"
proof (cases appo)
  case None
  with assms(2) show ?thesis
    by (auto simp: haproxy_RemoveApp_def go_bind_eq_Ret gm_get_delete dest!: remove_keeps_fragments)
next
  case (Some app)
  with assms(2) obtain m1 app1 s fs where 1: "makeConfig env m app = Ret (m1, app1, s)"
    and 2: "(if length (a_tasks app1) > 0 then gm_put (hm_appConfigFragments m1) aid s
             else Ret (gm_delete (hm_appConfigFragments m1) aid)) = Ret fs"
    and 3: "removeAppStateCacheEntry (m1\<lparr>hm_appConfigFragments := fs\<rparr>) aid tid = Ret m'"
    by (auto simp: haproxy_RemoveApp_def go_bind_eq_Ret)
  have "gm_get fs = (if a_tasks app = [] then (fragments m)(aid := None) else (fragments m)(aid \<mapsto> s))"
    using 2 makeConfig_tasks [OF assms(1) 1]
    by (auto simp: gm_get_delete makeConfig_keeps_fragments [OF 1] dest!: gm_get_put split: if_splits)
  with remove_keeps_fragments [OF 3] Some makeConfig_fragment [OF 1 assms(3)] show ?thesis by simp
qed

lemma step_fragments:
  assumes "sort_ok (env_sortTasks env)" and "static (fst s) = static c"
    and "handler_step (haproxy_Apply env) (haproxy_Update env admin) (haproxy_Remove env) s call = Ret (s', err)"
  shows "fragments (fst s') = fragment_call env c (fragments (fst s)) call"
proof (cases call)
  case (CallApply apps)
  with assms(3) obtain apps' where "put_configs env (apply_reset (fst s)) apps = Ret (fst s', apps')"
    by (auto simp: haproxy_Apply_def haproxy_ApplyApps_def go_bind_eq_Ret)
  moreover have "fragments (apply_reset (fst s)) = Map.empty"
    by (simp add: apply_reset_def clearAppStateCache_def fun_eq_iff)
  ultimately show ?thesis
    using put_configs_fragments [of env _ apps _ apps' c] assms(2) CallApply by (simp add: static_blank)
next
  case (CallUpdate app tid)
  with assms(3) obtain app' sent where
    "haproxy_UpdateApp env admin (fst s) app tid = Ret (fst s', app', sent, err)"
    by (auto simp: haproxy_Update_def go_bind_eq_Ret)
  from put_config_fragments [OF UpdateApp_put [OF this] assms(2)] CallUpdate show ?thesis by simp
next
  case (CallRemove aid tid appo)
  with assms(3) obtain appo' where "haproxy_RemoveApp env (fst s) aid tid appo = Ret (fst s', appo')"
    by (auto simp: haproxy_Remove_def go_bind_eq_Ret)
  from RemoveApp_fragments [OF assms(1) this assms(2)] CallRemove show ?thesis by simp
qed

lemma run_fragments:
  assumes "sort_ok (env_sortTasks env)"
  shows "static (fst s) = static c \<Longrightarrow>
    handler_run (haproxy_Apply env) (haproxy_Update env admin) (haproxy_Remove env) s calls = Ret s' \<Longrightarrow>
    fragments (fst s') = foldl (fragment_call env c) (fragments (fst s)) calls"
proof (induction calls arbitrary: s)
  case (Cons call calls)
  from Cons.prems(2) obtain s1 err where
    1: "handler_step (haproxy_Apply env) (haproxy_Update env admin) (haproxy_Remove env) s call = Ret (s1, err)"
    and 2: "handler_run (haproxy_Apply env) (haproxy_Update env admin) (haproxy_Remove env) s1 calls = Ret s'"
    by (auto simp: handler_run_def go_run)
  have "static (fst s1) = static c"
    using haproxy.step_config [OF 1] Cons.prems(1) by (simp add: haproxy_config_def)
  from Cons.IH [OF this 2] step_fragments [OF assms Cons.prems(1) 1] show ?case by simp
qed (simp add: handler_run_def)

text \<open>The text of a map of fragments: all of them, in the order of the application ids.\<close>

definition fragments_text :: "fragment_map \<Rightarrow> string" where
  "fragments_text V = concat (map (\<lambda>name. the (V name)) (sorted_list_of_set (dom V)))"

lemma config_text_fragments:
  assumes "gm_ok (hm_appConfigFragments m)"
  shows "config_text m = makeConfigHead m @ fragments_text (fragments m)"
proof -
  have names: "cluster_names m = sorted_list_of_set (dom (fragments m))"
    using assms by (simp add: cluster_names_def gm_ok_def sorted_list_of_set_sort_remdups
        distinct_remdups_id flip: set_gm_keys)
  moreover have "finite (dom (fragments m))" by (simp flip: set_gm_keys)
  ultimately have "set (cluster_names m) = dom (fragments m)" by simp
  then have "map (\<lambda>name. case fragments m name of Some s \<Rightarrow> s | None \<Rightarrow> []) (cluster_names m) =
      map (\<lambda>name. the (fragments m name)) (cluster_names m)"
    by (auto split: option.split)
  then show ?thesis unfolding config_text_def fragments_text_def names by (rule arg_cong)
qed

end
