(* ===== verification/Haproxy_Render.thy ===== *)
theory Haproxy_Render
  imports Haproxy_Fragments Haproxy_Process
begin

text \<open>
  The whole configuration as a function of the handler calls. To the fragments of
  \<open>Haproxy_Fragments\<close> this theory adds the tables of virtual hosts, from which the gateways in the
  head are rendered: their abstract state is two maps from services to hosts with the two default
  services, and \<open>vhosts_call\<close> is the specification of a call. \<open>rendered\<close> is the text of the settings
  and an abstract state. The last section follows it through a turn of the loop to the installed file.
\<close>

section \<open>The tables of virtual hosts\<close>

record vhost_view =
  vv_http :: "string \<Rightarrow> string list option"
  vv_httpDefault :: string
  vv_https :: "string \<Rightarrow> string list option"
  vv_httpsDefault :: string

definition vhosts_view :: "haproxy_mgr \<Rightarrow> vhost_view" where
  "vhosts_view m = \<lparr>vv_http = gm_get (hm_vhosts m), vv_httpDefault = hm_vhostDefault m,
     vv_https = gm_get (hm_vhostsHTTPS m), vv_httpsDefault = hm_vhostDefaultHTTPS m\<rparr>"

definition no_vhosts :: vhost_view where
  "no_vhosts = \<lparr>vv_http = Map.empty, vv_httpDefault = [], vv_https = Map.empty, vv_httpsDefault = []\<rparr>"

text \<open>A service with hosts is entered, and is the default if it is labelled so; one without is dropped.\<close>

definition set_hosts :: "(string \<Rightarrow> string list option) \<Rightarrow> string \<Rightarrow> string list \<Rightarrow> string \<Rightarrow> string list option" where
  "set_hosts H name hosts = H(name := (if hosts = [] then None else Some hosts))"

definition set_default :: "string \<Rightarrow> string \<Rightarrow> string list \<Rightarrow> string \<Rightarrow> string" where
  "set_default d name hosts flag =
     (if hosts = [] then (if d = name then [] else d) else if flag = ''1'' then name else d)"

definition vhost_port :: "string \<Rightarrow> port_definition \<Rightarrow> vhost_view \<Rightarrow> vhost_view" where
  "vhost_port name pd V =
     (let http = makeStringArray (pd_label pd LB_VHOST_HTTP);
          https = makeStringArray (pd_label pd LB_VHOST_HTTPS) in
      \<lparr>vv_http = set_hosts (vv_http V) name http,
       vv_httpDefault = set_default (vv_httpDefault V) name http (pd_label pd LB_VHOST_DEFAULT_HTTP),
       vv_https = set_hosts (vv_https V) name https,
       vv_httpsDefault = set_default (vv_httpsDefault V) name https (pd_label pd LB_VHOST_DEFAULT_HTTPS)\<rparr>)"

definition port_service :: "marathon_app \<Rightarrow> nat \<Rightarrow> uint \<Rightarrow> string" where
  "port_service app i port = (case PrettifyAppId (a_id app) i port of Ret name \<Rightarrow> name | Panic e \<Rightarrow> [])"

text \<open>The included TCP ports of an application, in their order.\<close>

fun vhost_ports :: "haproxy_mgr \<Rightarrow> marathon_app \<Rightarrow> vhost_view \<Rightarrow> nat \<Rightarrow> port_definition list \<Rightarrow> vhost_view" where
  "vhost_ports c app V i [] = V"
| "vhost_ports c app V i (pd # pds) =
     vhost_ports c app
       (if isGroupIncluded c (pd_label pd ''lb-group'') \<and> GetTransportProtocol app i = ''tcp''
        then vhost_port (port_service app i (pd_port pd)) pd V else V)
       (Suc i) pds"

definition vhost_app :: "haproxy_mgr \<Rightarrow> vhost_view \<Rightarrow> marathon_app \<Rightarrow> vhost_view" where
  "vhost_app c V app = vhost_ports c app V 0 (a_portDefs app)"

fun vhosts_call :: "haproxy_mgr \<Rightarrow> vhost_view \<Rightarrow> handler_call \<Rightarrow> vhost_view" where
  "vhosts_call c V (CallApply apps) = foldl (vhost_app c) no_vhosts apps"
| "vhosts_call c V (CallUpdate app taskID) = vhost_app c V app"
| "vhosts_call c V (CallRemove appID taskID (Some app)) = vhost_app c V app"
| "vhosts_call c V (CallRemove appID taskID None) = V"

lemma set_vhosts_view:
  assumes "set_vhosts v d name hosts flag = Ret (v', d')"
  shows "gm_get v' = set_hosts (gm_get v) name hosts" and "d' = set_default d name hosts flag"
  using assms by (auto simp: set_vhosts_def set_hosts_def set_default_def go_bind_eq_Ret gm_get_delete
      dest: gm_get_put split: if_splits)

lemma port_vhosts:
  assumes "makeConfigForPort env m app i = Ret (m', app', s)" and "i < length (a_portDefs app)"
  shows "vhosts_view m' = (if GetTransportProtocol app i = ''tcp''
      then vhost_port (port_service app i (pd_port (a_portDefs app ! i))) (a_portDefs app ! i) (vhosts_view m)
      else vhosts_view m)"
    and "\<exists>ts. app' = app\<lparr>a_tasks := ts\<rparr>"
proof -
  show "\<exists>ts. app' = app\<lparr>a_tasks := ts\<rparr>"
  proof (cases "GetTransportProtocol app i = ''tcp''")
    case True
    with makeConfigForPort_tcp [OF assms(1)] show ?thesis by blast
  next
    case False
    with assms(1) have "app' = app\<lparr>a_tasks := a_tasks app\<rparr>" by (simp add: makeConfigForPort_def)
    then show ?thesis ..
  qed
  show "vhosts_view m' = (if GetTransportProtocol app i = ''tcp''
      then vhost_port (port_service app i (pd_port (a_portDefs app ! i))) (a_portDefs app ! i) (vhosts_view m)
      else vhosts_view m)"
    using assms
    by (auto simp: makeConfigForPort_def go_bind_eq_Ret go_nth_eq_Ret Let_def vhosts_view_def vhost_port_def
        port_service_def set_vhosts_view split: if_splits)
qed

lemma tasks_unused [simp]:
  "GetTransportProtocol (app\<lparr>a_tasks := ts\<rparr>) i = GetTransportProtocol app i"
  "port_service (app\<lparr>a_tasks := ts\<rparr>) i p = port_service app i p"
  by (simp_all add: GetTransportProtocol_def port_service_def split: option.split)

lemma vhost_ports_tasks [simp]: "vhost_ports c (app\<lparr>a_tasks := ts\<rparr>) V i pds = vhost_ports c app V i pds"
  by (induction pds arbitrary: V i) (simp_all only: vhost_ports.simps tasks_unused)

lemma config_ports_vhosts:
  "config_ports env m app r i pds = Ret (m', app', s) \<Longrightarrow> static m = static c \<Longrightarrow>
   pds = drop i (a_portDefs app) \<Longrightarrow> vhosts_view m' = vhost_ports c app (vhosts_view m) i pds"
proof (induction pds arbitrary: m app r i)
  case (Cons pd pds)
  from Cons.prems(3) have i: "i < length (a_portDefs app)" and pd: "pd = a_portDefs app ! i"
    and pds: "pds = drop (Suc i) (a_portDefs app)"
    by (metis drop_all list.discI not_le, metis drop_all list.discI not_le nth_via_drop, metis drop_Suc list.sel(3) tl_drop)
  note same = static_settings(2) [OF Cons.prems(2)]
  show ?case
  proof (cases "isGroupIncluded m (pd_label pd ''lb-group'')")
    case True
    with Cons.prems(1) obtain m1 app1 s1 where 1: "makeConfigForPort env m app i = Ret (m1, app1, s1)"
      and 2: "config_ports env m1 app1 (r @ s1) (Suc i) pds = Ret (m', app', s)"
      by (auto simp: go_bind_eq_Ret)
    from port_vhosts(2) [OF 1 i] obtain ts where app1: "app1 = app\<lparr>a_tasks := ts\<rparr>" by blast
    have "static m1 = static c"
      using makeConfigForPort_step [OF 1] Cons.prems(2) static_blank(1) by metis
    from Cons.IH [OF 2 this] have "vhosts_view m' = vhost_ports c app (vhosts_view m1) (Suc i) pds"
      using pds by (simp add: app1)
    with port_vhosts(1) [OF 1 i] True same show ?thesis by (simp add: pd)
  next
    case False
    then have "vhosts_view m' = vhost_ports c app (vhosts_view m) (Suc i) pds"
      using Cons.IH [of m app r "Suc i"] Cons.prems(1,2) pds by simp
    with False same show ?thesis by simp
  qed
qed simp

lemma makeConfig_vhosts:
  assumes "makeConfig env m app = Ret (m', app', s)" and "static m = static c"
  shows "vhosts_view m' = vhost_app c (vhosts_view m) app"
proof -
  from assms(1) obtain l where
    p: "config_ports env (m\<lparr>hm_appLabels := l\<rparr>) app [] 0 (a_portDefs app) = Ret (m', app', s)"
    by (auto simp: makeConfig_def go_bind_eq_Ret Let_def)
  have "vhosts_view (m\<lparr>hm_appLabels := l\<rparr>) = vhosts_view m" by (simp add: vhosts_view_def)
  with config_ports_vhosts [OF p, of c] assms(2) show ?thesis by (simp add: static_hosts vhost_app_def)
qed

text \<open>The cache and the fragments do not touch the tables.\<close>

lemma vhosts_view_put: "vhosts_view (m\<lparr>hm_appConfigFragments := f\<rparr>) = vhosts_view m"
  by (simp add: vhosts_view_def)

lemma vhosts_view_cache: "blank_cache m' = blank_cache m \<Longrightarrow> vhosts_view m' = vhosts_view m"
  by (drule arg_cong [of _ _ vhosts_view]) (simp add: vhosts_view_def blank_cache_def)

lemma put_config_vhosts:
  assumes "put_config env m app = Ret (m', app')" and "static m = static c"
  shows "vhosts_view m' = vhost_app c (vhosts_view m) app"
proof -
  from assms(1) obtain m1 s fs where 1: "makeConfig env m app = Ret (m1, app', s)"
    and 3: "cacheTasks (m1\<lparr>hm_appConfigFragments := fs\<rparr>) (a_tasks app') = Ret m'"
    by (auto simp: put_config_def go_bind_eq_Ret)
  from vhosts_view_cache [OF cacheTasks_step [OF 3]] makeConfig_vhosts [OF 1 assms(2)] show ?thesis
    by (simp add: vhosts_view_put)
qed

lemma put_configs_vhosts:
  "put_configs env m apps = Ret (m', apps') \<Longrightarrow> static m = static c \<Longrightarrow>
   vhosts_view m' = foldl (vhost_app c) (vhosts_view m) apps"
proof (induction apps arbitrary: m apps')
  case (Cons app apps)
  from Cons.prems(1) obtain m1 app' rest where 1: "put_config env m app = Ret (m1, app')"
    and 2: "put_configs env m1 apps = Ret (m', rest)" by (auto simp: go_bind_eq_Ret)
  from Cons.IH [OF 2] static_put_config [OF 1] put_config_vhosts [OF 1 Cons.prems(2)] Cons.prems(2)
  show ?case by simp
qed simp

lemma RemoveApp_vhosts:
  assumes "haproxy_RemoveApp env m aid tid appo = Ret (m', appo')" and "static m = static c"
  shows "vhosts_view m' = vhosts_call c (vhosts_view m) (CallRemove aid tid appo)"
proof (cases appo)
  case None
  with assms(1) have "removeAppStateCacheEntry
      (m\<lparr>hm_appConfigFragments := gm_delete (hm_appConfigFragments m) aid\<rparr>) aid tid = Ret m'"
    by (auto simp: haproxy_RemoveApp_def go_bind_eq_Ret)
  from vhosts_view_cache [OF removeAppStateCacheEntry_step [OF this]] None show ?thesis
    by (simp add: vhosts_view_put)
next
  case (Some app)
  with assms(1) obtain m1 app1 s fs where 1: "makeConfig env m app = Ret (m1, app1, s)"
    and 3: "removeAppStateCacheEntry (m1\<lparr>hm_appConfigFragments := fs\<rparr>) aid tid = Ret m'"
    by (auto simp: haproxy_RemoveApp_def go_bind_eq_Ret)
  from vhosts_view_cache [OF removeAppStateCacheEntry_step [OF 3]] makeConfig_vhosts [OF 1 assms(2)] Some
  show ?thesis by (simp add: vhosts_view_put)
qed

lemma step_vhosts:
  assumes "static (fst s) = static c"
    and "handler_step (haproxy_Apply env) (haproxy_Update env admin) (haproxy_Remove env) s call = Ret (s', err)"
  shows "vhosts_view (fst s') = vhosts_call c (vhosts_view (fst s)) call"
proof (cases call)
  case (CallApply apps)
  with assms(2) obtain apps' where "put_configs env (apply_reset (fst s)) apps = Ret (fst s', apps')"
    by (auto simp: haproxy_Apply_def haproxy_ApplyApps_def go_bind_eq_Ret)
  moreover have "vhosts_view (apply_reset (fst s)) = no_vhosts"
    by (simp add: vhosts_view_def no_vhosts_def apply_reset_def clearAppStateCache_def fun_eq_iff)
  ultimately show ?thesis
    using put_configs_vhosts [of env _ apps _ apps' c] assms(1) CallApply by (simp add: static_blank)
next
  case (CallUpdate app tid)
  with assms(2) obtain app' sent where
    "haproxy_UpdateApp env admin (fst s) app tid = Ret (fst s', app', sent, err)"
    by (auto simp: haproxy_Update_def go_bind_eq_Ret)
  from put_config_vhosts [OF UpdateApp_put [OF this] assms(1)] CallUpdate show ?thesis by simp
next
  case (CallRemove aid tid appo)
  with assms(2) obtain appo' where "haproxy_RemoveApp env (fst s) aid tid appo = Ret (fst s', appo')"
    by (auto simp: haproxy_Remove_def go_bind_eq_Ret)
  from RemoveApp_vhosts [OF this assms(1)] CallRemove show ?thesis by simp
qed

section \<open>The text\<close>

text \<open>A table with given contents; the gateways look at the contents only.\<close>

definition table_of :: "(string \<Rightarrow> string list option) \<Rightarrow> (string, string list) gomap" where
  "table_of H = Some (map (\<lambda>k. (k, the (H k))) (sorted_list_of_set (dom H)))"

definition head_text :: "haproxy_mgr \<Rightarrow> vhost_view \<Rightarrow> string" where
  "head_text c V = makeConfigHead (c\<lparr>hm_vhosts := table_of (vv_http V), hm_vhostDefault := vv_httpDefault V,
     hm_vhostsHTTPS := table_of (vv_https V), hm_vhostDefaultHTTPS := vv_httpsDefault V\<rparr>)"

lemma table_of_ok:
  assumes "finite (dom H)"
  shows "gm_get (table_of H) = H" and "gm_ok (table_of H)"
proof -
  have "map_of (map (\<lambda>k. (k, the (H k))) (sorted_list_of_set (dom H))) k = H k" for k
    using assms by (cases "H k") (auto simp: map_of_map_restrict restrict_map_def dom_def)
  then show "gm_get (table_of H) = H" by (simp add: table_of_def gm_get_Some fun_eq_iff)
  show "gm_ok (table_of H)" by (simp add: table_of_def gm_ok_def gm_keys_def comp_def)
qed

lemma collect_vhosts_cong:
  assumes "gm_ok v" and "gm_ok v'" and "gm_get v = gm_get v'"
  shows "collect_vhosts kind sa ea d v = collect_vhosts kind sa ea d v'"
  unfolding collect_vhosts_def vhost_keys.keys_cong [OF assms] assms(3) by (rule refl)

lemma finite_dom_gm_get: "finite (dom (gm_get m))"
  by (simp flip: set_gm_keys)

lemma makeConfigHead_view:
  assumes "tables_ok m" and "static m = static c"
  shows "makeConfigHead m = head_text c (vhosts_view m)"
proof -
  let ?n = "c\<lparr>hm_vhosts := table_of (gm_get (hm_vhosts m)), hm_vhostDefault := hm_vhostDefault m,
     hm_vhostsHTTPS := table_of (gm_get (hm_vhostsHTTPS m)), hm_vhostDefaultHTTPS := hm_vhostDefaultHTTPS m\<rparr>"
  note fields = arg_cong [OF assms(2), of hm_SyslogFacility] arg_cong [OF assms(2), of hm_AdminSockPath]
    arg_cong [OF assms(2), of hm_ManagementPort] arg_cong [OF assms(2), of hm_GatewayEnabled]
    arg_cong [OF assms(2), of hm_GatewayAddr] arg_cong [OF assms(2), of hm_GatewayPortHTTP]
    arg_cong [OF assms(2), of hm_GatewayPortHTTPS]
  have ok: "gm_ok (hm_vhosts m)" "gm_ok (hm_vhostsHTTPS m)"
    using assms(1) by (simp_all add: tables_ok_def vhosts_ok_def)
  note tables = collect_vhosts_cong [OF ok(1) table_of_ok(2) [OF finite_dom_gm_get] table_of_ok(1) [OF finite_dom_gm_get, symmetric]]
    collect_vhosts_cong [OF ok(2) table_of_ok(2) [OF finite_dom_gm_get] table_of_ok(1) [OF finite_dom_gm_get, symmetric]]
  have "makeGatewayHTTP m = makeGatewayHTTP ?n"
    using fields tables(1) [of "''vhost_''" http_suffix_acl http_exact_acl "hm_vhostDefault m"]
    by (simp add: makeGatewayHTTP_def static_def)
  moreover have "makeGatewayHTTPS m = makeGatewayHTTPS ?n"
    using fields tables(2) [of "''vhost_ssl_''" https_suffix_acl https_exact_acl "hm_vhostDefaultHTTPS m"]
    by (simp add: makeGatewayHTTPS_def static_def)
  ultimately have "makeConfigHead m = makeConfigHead ?n"
    using fields by (simp add: makeConfigHead_def static_def)
  then show ?thesis by (simp add: head_text_def vhosts_view_def)
qed

text \<open>The specification: the abstract state after some calls, and its text.\<close>

definition rendered :: "host_env \<Rightarrow> haproxy_mgr \<Rightarrow> handler_call list \<Rightarrow> string" where
  "rendered env c calls =
     head_text c (foldl (vhosts_call c) (vhosts_view c) calls) @
     fragments_text (foldl (fragment_call env c) (fragments c) calls)"

lemma run_vhosts:
  "static (fst s) = static c \<Longrightarrow>
   handler_run (haproxy_Apply env) (haproxy_Update env admin) (haproxy_Remove env) s calls = Ret s' \<Longrightarrow>
   vhosts_view (fst s') = foldl (vhosts_call c) (vhosts_view (fst s)) calls"
proof (induction calls arbitrary: s)
  case (Cons call calls)
  from Cons.prems(2) obtain s1 err where
    1: "handler_step (haproxy_Apply env) (haproxy_Update env admin) (haproxy_Remove env) s call = Ret (s1, err)"
    and 2: "handler_run (haproxy_Apply env) (haproxy_Update env admin) (haproxy_Remove env) s1 calls = Ret s'"
    by (auto simp: handler_run_def go_run)
  have "static (fst s1) = static c"
    using haproxy.step_config [OF 1] Cons.prems(1) by (simp add: haproxy_config_def)
  from Cons.IH [OF this 2] step_vhosts [OF Cons.prems(1) 1] show ?case by simp
qed (simp add: handler_run_def)

lemma run_rendered:
  assumes "sort_ok (env_sortTasks env)" and "haproxy_ok (fst s)"
    and "handler_run (haproxy_Apply env) (haproxy_Update env admin) (haproxy_Remove env) s calls = Ret s'"
  shows "config_text (fst s') = rendered env (fst s) calls" and "static (fst s') = static (fst s)"
proof -
  have "haproxy_inv s" using assms(2) by (simp add: haproxy_inv_def)
  from haproxy.run_inv [OF this assms(3)] have ok: "haproxy_ok (fst s')" by (simp add: haproxy_inv_def)
  show st: "static (fst s') = static (fst s)"
    using haproxy.run_config [OF assms(3)] by (simp add: haproxy_config_def)
  from makeConfigHead_view [OF _ st] ok run_vhosts [OF refl assms(3)]
  have "makeConfigHead (fst s') = head_text (fst s) (foldl (vhosts_call (fst s)) (vhosts_view (fst s)) calls)"
    by (simp add: haproxy_ok_def)
  moreover have "config_text (fst s') = makeConfigHead (fst s') @
      fragments_text (foldl (fragment_call env (fst s)) (fragments (fst s)) calls)"
    using config_text_fragments [of "fst s'"] ok run_fragments [OF assms(1) refl assms(3)]
    by (simp add: haproxy_ok_def)
  ultimately show "config_text (fst s') = rendered env (fst s) calls" by (simp add: rendered_def)
qed

text \<open>
  C6. The rendered configuration is a function of the settings and the calls: over every sequence
  of calls that returns, its text is that of the abstract state of the same calls. In it an update
  replaces the fragment of its application and the hosts of its services, a removal does the same
  or, when no task is left, drops the fragment, a removal of a destroyed application drops the
  fragment only, an apply starts afresh; each fragment is what a manager without a history renders.
\<close>

theorem haproxy_run_renders:
  assumes "sort_ok (env_sortTasks env)" and "haproxy_ok (fst s)"
    and "handler_run (haproxy_Apply env) (haproxy_Update env admin) (haproxy_Remove env) s calls = Ret s'"
  shows "config_text (fst s') = rendered env (fst s) calls"
  by (rule run_rendered(1) [OF assms])

text \<open>
  What HAProxy runs with is current: after any sequence of calls, a turn of the loop that
  returns leaves in the configuration file exactly the specified text of these calls, followed by the
  tail file, and HAProxy has accepted a file with that text.
\<close>

theorem installed_config_current:
  assumes "sort_ok (env_sortTasks env)" and "haproxy_ok (fst s)"
    and "handler_run (haproxy_Apply env) (haproxy_Update env admin) (haproxy_Remove env) s calls = Ret s'"
    and "config_untouched pe (fst s)" and "paths_distinct (fst s)"
    and "tick pe (fst s') w = (w', Ret u)"
  shows "\<exists>tail fs1 out fs2. makeConfigTail (fst s) (w_fs w) = Inr tail \<and>
    fs_read (w_fs w') (hm_ConfigPath (fst s)) = Some (rendered env (fst s) calls @ tail) \<and>
    fs_read fs1 (temp_path (fst s)) = Some (rendered env (fst s) calls @ tail) \<and>
    pe_run pe (check_argv (fst s)) fs1 = (Exited 0 out None, fs2)"
proof -
  note run = run_rendered [OF assms(1-3)]
  note path = arg_cong [OF run(2), of hm_ConfigPath] arg_cong [OF run(2), of hm_OldConfigPath]
    arg_cong [OF run(2), of hm_ConfigTailPath] arg_cong [OF run(2), of hm_Executable] arg_cong [OF run(2), of hm_PidFile]
  have paths: "hm_ConfigPath (fst s') = hm_ConfigPath (fst s)" "check_argv (fst s') = check_argv (fst s)"
    "temp_path (fst s') = temp_path (fst s)" "config_paths (fst s') = config_paths (fst s)"
    "paths_distinct (fst s') = paths_distinct (fst s)" "makeConfigTail (fst s') = makeConfigTail (fst s)"
    using path by (simp_all add: static_def check_argv_def temp_path_def config_paths_def paths_distinct_def
        makeConfigTail_def fun_eq_iff)
  have u: "config_untouched pe (fst s')" and d: "paths_distinct (fst s')"
    using assms(4,5) by (simp_all add: config_untouched_def paths)
  from assms(6) obtain w1 r where wr: "writeConfig pe (fst s') w = (w1, Ret None)"
    and rl: "reloadConfig pe (fst s') w1 False = (w', r)"
    by (auto simp: tick_def split: prod.splits go.splits option.splits)
  obtain tail fs1 out fs2 where t: "makeConfigTail (fst s') (w_fs w) = Inr tail"
    and f: "fs_write (w_fs w) (temp_path (fst s')) (config_text (fst s') @ tail) = (True, fs1)"
    and chk: "pe_run pe (check_argv (fst s')) fs1 = (Exited 0 out None, fs2)"
    by (rule writeConfig_done [OF wr])
  from writeConfig_result(1) [OF u d wr t]
    reloadConfig_keeps [OF u _ rl, of "hm_ConfigPath (fst s')"]
  have "fs_read (w_fs w') (hm_ConfigPath (fst s')) = Some (config_text (fst s') @ tail)"
    by (simp add: config_paths_def)
  moreover have "fs_read fs1 (temp_path (fst s')) = Some (config_text (fst s') @ tail)"
    using fs_write_True [OF f] by simp
  ultimately show ?thesis using t chk unfolding run(1) paths by blast
qed

text \<open>One application is applied.\<close>

lemma api_calls: "handler_run (haproxy_Apply example_env) (haproxy_Update example_env answering)
    (haproxy_Remove example_env) haproxy_start [CallApply [api_app]] = Ret (api_applied, [])"
  using api_run by (auto simp: handler_run_def)

lemma start_ok: "haproxy_ok (fst haproxy_start)" and start_fst: "fst haproxy_start = haproxy_example"
  by (simp_all add: haproxy_start_def haproxy_example_ok)

theorem haproxy_run_renders_witness:
  "\<exists>s1. handler_run (haproxy_Apply example_env) (haproxy_Update example_env answering)
      (haproxy_Remove example_env) haproxy_start [CallApply [api_app]] = Ret s1 \<and>
    config_text (fst s1) = head_text haproxy_example (vhost_app haproxy_example no_vhosts api_app) @
      fragment example_env haproxy_example api_app"
  using haproxy_run_renders [OF example_env_sort_ok start_ok api_calls] api_calls
  by (simp add: rendered_def start_fst put_fragment_def fragments_text_def)

text \<open>A turn with a HAProxy that accepts everything returns, in any state of the example manager.\<close>

lemma quiet_tick:
  assumes "static m = static haproxy_example"
  shows "\<exists>w'. tick quiet_env m live_world = (w', Ret ())"
proof -
  note paths = arg_cong [OF assms, of hm_ConfigPath] arg_cong [OF assms, of hm_OldConfigPath]
    arg_cong [OF assms, of hm_PidFile] arg_cong [OF assms, of hm_ConfigTailPath]
    arg_cong [OF assms, of hm_BeforeCmd] arg_cong [OF assms, of hm_AfterCmd]
  have m: "hm_ConfigPath m = ''haproxy.cfg''" "hm_OldConfigPath m = ''haproxy.cfg.old''"
    "hm_PidFile m = ''haproxy.pid''" "hm_ConfigTailPath m = []" "hm_BeforeCmd m = []" "hm_AfterCmd m = []"
    using paths by (simp_all add: static_def haproxy_example_def)
  then have t: "temp_path m = ''haproxy.cfg.tmp''" "makeConfigTail m fs = Inr []" for fs
    by (simp_all add: temp_path_def makeConfigTail_def)
  obtain w1 where w1: "writeConfig quiet_env m live_world = (w1, Ret None)"
    and pid: "fs_read (w_fs w1) ''haproxy.pid'' = Some ''42''"
    using live_world_ok
    by (auto simp: writeConfig_def m t checkConfig_def quiet_exec install_config_def fs_write_def
        fs_rename_def fs_exists_def fs_read_map_of update_conv' delete_conv' Let_def)
  have "running quiet_env m (w_fs w1) 42"
    using pid by (simp add: running_def atoi_42 quiet_env_def m)
  from w1 reloadConfig_running [OF this, of False] show ?thesis
    by (cases "FileIsIdentical (w_fs w1) ''haproxy.cfg'' ''haproxy.cfg.old''")
      (auto simp: tick_def reloadProcess_def quiet_exec m Let_def)
qed

end
