(* ===== verification/Service_Calls.thy ===== *)
theory Service_Calls
  imports Service_Invariant Udp_Refines Haproxy_Render
begin

text \<open>
  What the events of the service ask of its handlers (src/main.go). \<open>service_calls\<close> is the sequence of
  calls of the interface \<open>mmsdHandler\<close> that the set-up and the events make, as a function of Marathon's
  answers alone. The DNS, the UDP and the HAProxy manager receive exactly this sequence: nothing that
  another handler does, to its own state or to the shared application objects, changes it (but for the
  order of the tasks, which the HAProxy manager permutes). With the specifications of the managers the
  served names and the served configuration are then a function of what Marathon said.
\<close>

section \<open>The calls that events make\<close>

text \<open>One request to Marathon: the number of requests after it, and the answer.\<close>

definition fetch_app :: "service_env \<Rightarrow> mmsd_config \<Rightarrow> nat \<Rightarrow> string \<Rightarrow> nat \<times> (go_error + marathon_app option)" where
  "fetch_app se cfg n appID =
     (case se_marathon se (ms_MarathonIP cfg) (ms_MarathonPort cfg) of
        Inl err \<Rightarrow> (n, Inl err)
      | Inr m \<Rightarrow> (Suc n, mc_getApp m n appID))"

text \<open>
  What an event asks of every handler, by what Marathon answers: the number of requests after it,
  and at most one call. Where the program crashes the list is empty.
\<close>

definition update_calls :: "service_env \<Rightarrow> mmsd_config \<Rightarrow> nat \<Rightarrow> string \<Rightarrow> string \<Rightarrow> nat \<times> handler_call list" where
  "update_calls se cfg n appID taskID =
     (case fetch_app se cfg n appID of
        (k, Inr (Some app)) \<Rightarrow> (k, [CallUpdate app taskID])
      | (k, _) \<Rightarrow> (k, []))"

definition status_calls :: "service_env \<Rightarrow> mmsd_config \<Rightarrow> nat \<Rightarrow> status_update \<Rightarrow> nat \<times> handler_call list" where
  "status_calls se cfg n event =
     (if su_taskStatus event = TaskRunning then
        (case fetch_app se cfg n (su_appId event) of
           (k, Inr (Some app)) \<Rightarrow>
             if a_healthChecks app = [] then update_calls se cfg k (su_appId event) (su_taskId event) else (k, [])
         | (k, _) \<Rightarrow> (k, []))
      else if su_taskStatus event \<in> {TaskFinished, TaskFailed, TaskKilling, TaskKilled, TaskLost} then
        (case fetch_app se cfg n (su_appId event) of
           (k, Inr appo) \<Rightarrow> (k, [CallRemove (su_appId event) (su_taskId event) appo])
         | (k, Inl err) \<Rightarrow> (k, []))
      else (n, []))"

definition health_calls :: "service_env \<Rightarrow> mmsd_config \<Rightarrow> nat \<Rightarrow> health_changed \<Rightarrow> nat \<times> handler_call list" where
  "health_calls se cfg n event =
     (case fetch_app se cfg n (hs_appId event) of
        (k, Inr (Some app)) \<Rightarrow>
          (case env_getTask (se_host se) app (hs_taskId event) of
             None \<Rightarrow> (k, [CallRemove (hs_appId event) (hs_taskId event) (Some app)])
           | Some task \<Rightarrow> update_calls se cfg k (hs_appId event) (hs_taskId event))
      | (k, _) \<Rightarrow> (k, []))"

definition listener_calls :: "service_env \<Rightarrow> mmsd_config \<Rightarrow> nat \<Rightarrow> callback \<Rightarrow> string \<Rightarrow> nat \<times> handler_call list" where
  "listener_calls se cfg n cb data =
     (if cb = ''status_update_event'' then
        (case se_statusUpdate se data of None \<Rightarrow> (n, []) | Some event \<Rightarrow> status_calls se cfg n event)
      else if cb = ''health_status_changed_event'' then
        (case se_healthChanged se data of None \<Rightarrow> (n, []) | Some event \<Rightarrow> health_calls se cfg n event)
      else if cb = ''app_terminated_event'' then
        (case se_appTerminated se data of None \<Rightarrow> (n, []) | Some appID \<Rightarrow> (n, [CallRemove appID [] None]))
      else (n, []))"

fun step_calls :: "service_env \<Rightarrow> mmsd_config \<Rightarrow> nat \<Rightarrow> service_step \<Rightarrow> nat \<times> handler_call list" where
  "step_calls se cfg n (SseCall (CallHandler cb data)) = listener_calls se cfg n cb data"
| "step_calls se cfg n step = (n, [])"

fun calls_from :: "service_env \<Rightarrow> mmsd_config \<Rightarrow> nat \<Rightarrow> service_step list \<Rightarrow> handler_call list" where
  "calls_from se cfg n [] = []"
| "calls_from se cfg n (step # steps) =
     snd (step_calls se cfg n step) @ calls_from se cfg (fst (step_calls se cfg n step)) steps"

text \<open>All calls: the reset of the set-up, then the events.\<close>

definition service_calls :: "service_env \<Rightarrow> mmsd_config \<Rightarrow> service_step list \<Rightarrow> handler_call list" where
  "service_calls se cfg steps =
     (case se_marathon se (ms_MarathonIP cfg) (ms_MarathonPort cfg) of
        Inl err \<Rightarrow> calls_from se cfg 0 steps
      | Inr m \<Rightarrow>
         (case mc_getApps m 0 of Inl err \<Rightarrow> [] | Inr apps \<Rightarrow> [CallApply apps]) @ calls_from se cfg 1 steps)"

section \<open>What the handlers get\<close>

fun haproxy_of :: "handler list \<Rightarrow> haproxy_state option" where
  "haproxy_of [] = None"
| "haproxy_of (HHaproxy s # hs) = Some s"
| "haproxy_of (h # hs) = haproxy_of hs"

fun udp_of :: "handler list \<Rightarrow> udp_state option" where
  "udp_of [] = None"
| "udp_of (HUdp st # hs) = Some st"
| "udp_of (h # hs) = udp_of hs"

abbreviation haproxy_does :: "service_env \<Rightarrow> haproxy_state \<Rightarrow> handler_call \<Rightarrow> haproxy_state handler_result" where
  "haproxy_does se \<equiv> handler_step (haproxy_Apply (se_host se)) (haproxy_Update (se_host se) (se_admin se))
     (haproxy_Remove (se_host se))"

abbreviation udp_does :: "service_env \<Rightarrow> udp_state \<Rightarrow> handler_call \<Rightarrow> udp_state handler_result" where
  "udp_does se \<equiv> handler_step (udp_Apply (se_udp se) (se_host se)) (udp_Update (se_udp se) (se_host se))
     (udp_Remove (se_udp se) (se_host se))"

text \<open>
  The database of the DNS manager shows a table: the addresses are those of the table, and the
  application object is the one of the table with its tasks perhaps in another order.
\<close>

definition dns_shows :: "dns_manager \<Rightarrow> app_heap \<Rightarrow> dns_manager \<Rightarrow> dns_view \<Rightarrow> bool" where
  "dns_shows d heap m V \<longleftrightarrow> m\<lparr>dm_db := gm_make\<rparr> = d \<and>
     (\<forall>name. rel_option (\<lambda>e (ips, app). ae_ipAddresses e = ips \<and> ae_app e < length heap \<and>
        same_app app (heap ! ae_app e)) (gm_get (dm_db m) name) (V name))"

lemma dns_shows_mono:
  assumes "dns_shows d heap m V" and "heap_le heap heap'"
  shows "dns_shows d heap' m V"
  unfolding dns_shows_def
proof (intro conjI allI)
  show "m\<lparr>dm_db := gm_make\<rparr> = d" using assms(1) by (simp add: dns_shows_def)
  fix name
  have "rel_option (\<lambda>e (ips, app). ae_ipAddresses e = ips \<and> ae_app e < length heap \<and>
      same_app app (heap ! ae_app e)) (gm_get (dm_db m) name) (V name)"
    using assms(1) by (simp add: dns_shows_def)
  then show "rel_option (\<lambda>e (ips, app). ae_ipAddresses e = ips \<and> ae_app e < length heap' \<and>
      same_app app (heap' ! ae_app e)) (gm_get (dm_db m) name) (V name)"
    by (rule option.rel_mono_strong) (use assms(2) in \<open>auto simp: heap_le_def intro: same_app_trans\<close>)
qed

lemma dns_shows_put:
  assumes "dns_shows d heap m V" and "updateApp env heap m ref = Ret (m', err)"
  shows "dns_shows d heap m' (fst (view_apps env V [heap ! ref])) \<and>
    err = snd (view_apps env V [heap ! ref])"
proof -
  from assms(2) have ref: "ref < length heap" by (auto simp: updateApp_def go_bind_eq_Ret go_nth_eq_Ret)
  show ?thesis
  proof (cases "resolve_tasks env (a_tasks (heap ! ref))")
    case (Inl e)
    with updateApp_Inl [OF ref] assms show ?thesis by auto
  next
    case (Inr ips)
    with assms(2) ref obtain db where db: "gm_put (dm_db m) (makeDnsNameFromAppId (a_id (heap ! ref)))
        \<lparr>ae_ipAddresses = ips, ae_app = ref\<rparr> = Ret db" and m': "m' = m\<lparr>dm_db := db\<rparr>" "err = None"
      by (auto simp: updateApp_def go_bind_eq_Ret go_nth_def)
    with gm_get_put [OF db] assms(1) Inr ref show ?thesis by (simp add: dns_shows_def)
  qed
qed

lemma dns_shows_puts:
  "dns_shows d heap m V \<Longrightarrow> updateApps env heap m refs = Ret (m', err) \<Longrightarrow>
   dns_shows d heap m' (fst (view_apps env V (map ((!) heap) refs)))"
proof (induction refs arbitrary: m V)
  case (Cons ref refs)
  from Cons.prems(2) obtain m1 e where 1: "updateApp env heap m ref = Ret (m1, e)"
    and 2: "(case e of Some e \<Rightarrow> Ret (m1, Some e) | None \<Rightarrow> updateApps env heap m1 refs) = Ret (m', err)"
    by (auto simp: go_bind_eq_Ret)
  note s = dns_shows_put [OF Cons.prems(1) 1]
  show ?case
  proof (cases "resolve_tasks env (a_tasks (heap ! ref))")
    case (Inl err)
    with s 2 show ?thesis by simp
  next
    case (Inr ips)
    with s 2 Cons.IH [of m1 "V(makeDnsNameFromAppId (a_id (heap ! ref)) \<mapsto> (ips, heap ! ref))"]
    show ?thesis by (simp del: fun_upd_apply)
  qed
qed simp

lemma dns_shows_clear: "dns_shows d heap m V \<Longrightarrow> dns_shows d heap (dns_clear m) Map.empty"
  by (auto simp: dns_shows_def dns_clear_def)

lemma dns_shows_delete:
  "dns_shows d heap m V \<Longrightarrow> dns_shows d heap (m\<lparr>dm_db := gm_delete (dm_db m) name\<rparr>) (V(name := None))"
  by (simp add: dns_shows_def gm_get_delete)

text \<open>
  A call of the service delivers a call of the interface, in a given heap: the UDP and the HAProxy
  manager do it with the applications of that heap, the DNS manager as its specification has it, and
  only the HAProxy manager changes the heap.
\<close>

definition delivers :: "service_env \<Rightarrow> (app_heap \<Rightarrow> world \<Rightarrow> handler \<Rightarrow> call_result) \<Rightarrow> app_heap \<Rightarrow> handler_call \<Rightarrow> bool" where
  "delivers se call heap c \<longleftrightarrow> (\<forall>w h heap' w' h' err. call heap w h = Ret (heap', w', h', err) \<longrightarrow>
     (case h of
        HHaproxy s \<Rightarrow> \<exists>s' e. h' = HHaproxy s' \<and> haproxy_does se s c = Ret (s', e)
      | HUdp st \<Rightarrow> heap' = heap \<and> (\<exists>st' e. h' = HUdp st' \<and> udp_does se st c = Ret (st', e))
      | HDns m \<Rightarrow> heap' = heap \<and> (\<exists>m'. h' = HDns m' \<and>
          (\<forall>d V. dns_shows d heap m V \<longrightarrow> dns_shows d heap m' (view_call (se_host se) V c)))
      | HFiles m \<Rightarrow> heap' = heap \<and> (\<exists>m'. h' = HFiles m')))"

lemma apply_delivers: "delivers se (call_Apply se refs) heap (CallApply (map ((!) heap) refs))"
  by (auto simp: delivers_def call_Apply_def haproxy_Apply_def dns_ApplyRefs_def go_bind_eq_Ret Let_def
      split: handler.splits intro: dns_shows_puts dns_shows_clear)

lemma update_delivers: "delivers se (call_Update se (Some ref) tid) heap (CallUpdate (heap ! ref) tid)"
  by (auto simp: delivers_def call_Update_def haproxy_Update_def view_update_def go_bind_eq_Ret
      simp del: view_apps.simps split: handler.splits dest: dns_shows_put)

lemma remove_delivers:
  "delivers se (call_Remove se aid tid refo) heap (CallRemove aid tid (map_option ((!) heap) refo))"
  by (cases refo)
    (auto simp: delivers_def call_Remove_def haproxy_Remove_def dns_RemoveRef_def view_update_def go_bind_eq_Ret
      Let_def simp del: view_apps.simps split: handler.splits dest: dns_shows_put intro: dns_shows_delete)

text \<open>The handlers before the HAProxy manager get the heap as it was.\<close>

fun haproxy_late :: "kind list \<Rightarrow> bool" where
  "haproxy_late [] = True"
| "haproxy_late (KHaproxy # ks) = (set ks \<subseteq> {KFiles})"
| "haproxy_late (k # ks) = haproxy_late ks"

lemma late_config: "haproxy_late (config_kinds cfg)"
  by (simp add: config_kinds_def)

definition moved :: "service_env \<Rightarrow> handler_call \<Rightarrow> handler list \<Rightarrow> handler list \<Rightarrow> bool" where
  "moved se c hs hs' \<longleftrightarrow>
     rel_option (\<lambda>s s'. \<exists>e. haproxy_does se s c = Ret (s', e)) (haproxy_of hs) (haproxy_of hs') \<and>
     rel_option (\<lambda>st st'. \<exists>e. udp_does se st c = Ret (st', e)) (udp_of hs) (udp_of hs')"

lemma no_udp: "set (map handler_kind hs) \<subseteq> {KFiles} \<Longrightarrow> udp_of hs = None"
proof (induction hs)
  case (Cons h hs)
  then show ?case by (cases h) auto
qed simp

lemma each_moved:
  assumes "\<And>heap w h heap' w' h' err. call heap w h = Ret (heap', w', h', err) \<Longrightarrow> handler_kind h' = handler_kind h"
    and "delivers se call heap c"
  shows "haproxy_late (map handler_kind hs) \<Longrightarrow> each_handler call heap w hs = Ret (heap', w', hs', errs) \<Longrightarrow>
    moved se c hs hs'"
proof (induction hs arbitrary: w hs' errs)
  case Nil
  then show ?case by (simp add: moved_def)
next
  case (Cons h hs)
  from Cons.prems(2) obtain heap1 w1 h1 err hs1 errs1 where c: "call heap w h = Ret (heap1, w1, h1, err)"
    and e: "each_handler call heap1 w1 hs = Ret (heap', w', hs1, errs1)" and hs': "hs' = h1 # hs1"
    by (auto simp: go_bind_eq_Ret)
  note d = assms(2) [unfolded delivers_def, rule_format, OF c]
  show ?case
  proof (cases h)
    case (HHaproxy s)
    with d obtain s' e' where h1: "h1 = HHaproxy s'" and s': "haproxy_does se s c = Ret (s', e')" by auto
    have "map handler_kind hs1 = map handler_kind hs"
      using e assms(1) by (induction hs arbitrary: heap1 w1 hs1 errs1) (auto simp: go_bind_eq_Ret)
    then have "udp_of hs = None" "udp_of hs1 = None"
      using Cons.prems(1) HHaproxy no_udp [of hs] no_udp [of hs1] by simp_all
    with h1 s' HHaproxy show ?thesis by (auto simp: moved_def hs')
  next
    case (HUdp st)
    with d Cons.IH [of w1 hs1 errs1] e Cons.prems(1) show ?thesis by (auto simp: moved_def hs')
  next
    case (HDns m)
    with d Cons.IH [of w1 hs1 errs1] e Cons.prems(1) show ?thesis by (auto simp: moved_def hs')
  next
    case (HFiles m)
    with d Cons.IH [of w1 hs1 errs1] e Cons.prems(1) show ?thesis by (auto simp: moved_def hs')
  qed
qed

text \<open>The DNS managers among the handlers, all showing a table. They come before the HAProxy manager.\<close>

definition dns_table :: "dns_manager \<Rightarrow> dns_view \<Rightarrow> app_heap \<Rightarrow> handler list \<Rightarrow> bool" where
  "dns_table d V heap hs \<longleftrightarrow> (\<forall>m. HDns m \<in> set hs \<longrightarrow> dns_shows d heap m V)"

lemma dns_table_Cons: "dns_table d V heap (h # hs) \<longleftrightarrow>
    (\<forall>m. h = HDns m \<longrightarrow> dns_shows d heap m V) \<and> dns_table d V heap hs"
  by (auto simp: dns_table_def)

lemma dns_table_mono: "dns_table d V heap hs \<Longrightarrow> heap_le heap heap' \<Longrightarrow> dns_table d V heap' hs"
  by (auto simp: dns_table_def intro: dns_shows_mono)

lemma no_dns: "set (map handler_kind hs) \<subseteq> {KFiles} \<Longrightarrow> dns_table d V heap hs"
  by (auto simp: dns_table_def)

lemma each_table:
  assumes "service_call (se_host se) call" and "sort_ok (env_sortTasks (se_host se))" and "delivers se call heap c"
  shows "\<forall>h\<in>set hs. handler_ok (se_host se) heap h \<Longrightarrow> haproxy_late (map handler_kind hs) \<Longrightarrow>
    each_handler call heap w hs = Ret (heap', w', hs', errs) \<Longrightarrow> dns_table d V heap hs \<Longrightarrow>
    dns_table d (view_call (se_host se) V c) heap' hs'"
proof (induction hs arbitrary: w hs' errs)
  case Nil
  then show ?case by (simp add: dns_table_def)
next
  case (Cons h hs)
  from Cons.prems(3) obtain heap1 w1 h1 err hs1 errs1 where c: "call heap w h = Ret (heap1, w1, h1, err)"
    and e: "each_handler call heap1 w1 hs = Ret (heap', w', hs1, errs1)" and hs': "hs' = h1 # hs1"
    by (auto simp: go_bind_eq_Ret)
  note k = service_call.each_kinds [OF assms(1) e]
  note d = assms(3) [unfolded delivers_def, rule_format, OF c]
  from service_call.call_ok [OF assms(1,2) _ c] Cons.prems(1) have l1: "heap_le heap heap1" by simp
  have "\<forall>h\<in>set hs. handler_ok (se_host se) heap1 h" using Cons.prems(1) handler_ok_mono [OF _ l1] by simp
  from service_call.each_ok [OF assms(1,2) this e] have l2: "heap_le heap1 heap'" by simp
  show ?case
  proof (cases h)
    case (HHaproxy s)
    with d Cons.prems(2) k no_dns [of hs1] show ?thesis by (auto simp: hs' dns_table_Cons)
  next
    case (HDns m)
    with d Cons.prems(4) l2 have "\<forall>m. h1 = HDns m \<longrightarrow> dns_shows d heap' m (view_call (se_host se) V c)"
      by (auto simp: dns_table_Cons intro: dns_shows_mono)
    with HDns d Cons.IH [of w1 hs1 errs1] Cons.prems e show ?thesis by (simp add: hs' dns_table_Cons)
  next
    case (HUdp st)
    with d Cons.IH [of w1 hs1 errs1] Cons.prems e show ?thesis by (auto simp: hs' dns_table_Cons)
  next
    case (HFiles m)
    with d Cons.IH [of w1 hs1 errs1] Cons.prems e show ?thesis by (auto simp: hs' dns_table_Cons)
  qed
qed

section \<open>What an event does\<close>

lemma getMarathonApp_fetch:
  "getMarathonApp se cfg rt aid = (rt', r) \<Longrightarrow>
   fetch_app se cfg (rt_requests rt) aid = (rt_requests rt', map_sum id (map_option ((!) (rt_heap rt'))) r) \<and>
   rt_handlers rt' = rt_handlers rt \<and> heap_le (rt_heap rt) (rt_heap rt')"
  by (auto simp: getMarathonApp_def fetch_app_def Let_def split: sum.splits option.splits)

text \<open>The state after a list of at most one call, and after a number of requests.\<close>

definition tracked :: "service_env \<Rightarrow> runtime \<Rightarrow> handler_call list \<Rightarrow> runtime \<Rightarrow> bool" where
  "tracked se rt cs rt' \<longleftrightarrow> (sort_ok (env_sortTasks (se_host se)) \<longrightarrow> service_ok (se_host se) rt \<longrightarrow>
     (\<forall>d V. dns_table d V (rt_heap rt) (rt_handlers rt) \<longrightarrow>
       dns_table d (foldl (view_call (se_host se)) V cs) (rt_heap rt') (rt_handlers rt')))"

definition made :: "service_env \<Rightarrow> runtime \<Rightarrow> nat \<times> handler_call list \<Rightarrow> runtime \<Rightarrow> bool" where
  "made se rt p rt' \<longleftrightarrow> rt_requests rt' = fst p \<and> tracked se rt (snd p) rt' \<and>
     (case snd p of [] \<Rightarrow> rt_handlers rt' = rt_handlers rt
      | c # cs \<Rightarrow> cs = [] \<and> moved se c (rt_handlers rt) (rt_handlers rt'))"

abbreviation late :: "runtime \<Rightarrow> bool" where
  "late rt \<equiv> haproxy_late (map handler_kind (rt_handlers rt))"

lemma all_made:
  assumes "service_call (se_host se) call" and "delivers se call (rt_heap rt) c" and "late rt"
    and "all_handlers call rt = Ret rt'"
  shows "made se rt (rt_requests rt, [c]) rt'"
  using assms(4) each_moved [OF service_call.call_kind [OF assms(1)] assms(2,3)]
    each_table [OF assms(1) _ assms(2) _ assms(3)]
  by (auto simp: all_handlers_def go_bind_eq_Ret made_def tracked_def service_ok_def)

lemma made_fetch:
  assumes "rt_handlers rt1 = rt_handlers rt \<and> heap_le (rt_heap rt) (rt_heap rt1)" and "made se rt1 p rt'"
  shows "made se rt p rt'"
proof -
  have "tracked se rt (snd p) rt'"
    using assms service_ok_heap [OF _ assms(1)] dns_table_mono [of _ _ "rt_heap rt" "rt_handlers rt" "rt_heap rt1"]
    unfolding made_def tracked_def by metis
  with assms show ?thesis by (simp add: made_def split: list.splits)
qed

lemma made_none:
  assumes "rt_handlers rt' = rt_handlers rt \<and> heap_le (rt_heap rt) (rt_heap rt')"
  shows "made se rt (rt_requests rt', []) rt'"
  using assms dns_table_mono by (auto simp: made_def tracked_def)

lemma Remove_made:
  "late rt \<Longrightarrow> mmsd_Remove se rt aid tid refo = Ret rt' \<Longrightarrow>
   made se rt (rt_requests rt, [CallRemove aid tid (map_option ((!) (rt_heap rt)) refo)]) rt'"
  unfolding mmsd_Remove_def
  by (rule all_made [OF remove_call.service_call_axioms remove_delivers])

lemma Update_made:
  assumes "late rt" and "mmsd_Update se cfg rt aid tid alive = Ret rt'"
  shows "made se rt (update_calls se cfg (rt_requests rt) aid tid) rt'"
proof -
  obtain rt1 r where g: "getMarathonApp se cfg rt aid = (rt1, r)" by force
  note f = getMarathonApp_fetch [OF g]
  consider (err) err where "r = Inl err" | (gone) "r = Inr None" | (app) ref where "r = Inr (Some ref)"
    by (cases r) (auto split: option.splits)
  then show ?thesis
  proof cases
    case err
    with assms(2) g f have "rt' = rt1" by (simp add: mmsd_Update_def)
    with err f made_none [OF conjunct2 [OF f]] show ?thesis by (simp add: update_calls_def)
  next
    case gone
    with assms(2) g have "all_handlers (call_Update se None tid) rt1 = Ret rt'" by (simp add: mmsd_Update_def)
    then have "rt_handlers rt1 = [] \<and> rt' = rt1"
      by (cases "rt_handlers rt1") (auto simp: all_handlers_def call_Update_def)
    with gone f made_none [OF conjunct2 [OF f]] show ?thesis by (simp add: update_calls_def)
  next
    case (app ref)
    with assms(2) g have a: "all_handlers (call_Update se (Some ref) tid) rt1 = Ret rt'" by (simp add: mmsd_Update_def)
    from all_made [OF update_call.service_call_axioms update_delivers _ a] assms(1) f
    have "made se rt1 (rt_requests rt1, [CallUpdate (rt_heap rt1 ! ref) tid]) rt'" by simp
    from made_fetch [OF conjunct2 [OF f] this] app f show ?thesis by (simp add: update_calls_def)
  qed
qed

lemma status_made:
  assumes "late rt" and "statusUpdateEvent se cfg rt event = Ret rt'"
  shows "made se rt (status_calls se cfg (rt_requests rt) event) rt'"
proof -
  let ?id = "su_appId event" and ?tid = "su_taskId event"
  obtain rt1 r where g: "getMarathonApp se cfg rt ?id = (rt1, r)" by force
  have f: "fetch_app se cfg (rt_requests rt) ?id = (rt_requests rt1, map_sum id (map_option ((!) (rt_heap rt1))) r)"
    and h: "rt_handlers rt1 = rt_handlers rt \<and> heap_le (rt_heap rt) (rt_heap rt1)" using getMarathonApp_fetch [OF g] by simp_all
  with assms(1) have l: "late rt1" by simp
  consider (run) "su_taskStatus event = TaskRunning"
    | (ended) "su_taskStatus event \<in> {TaskFinished, TaskFailed, TaskKilling, TaskKilled, TaskLost}"
        "su_taskStatus event \<noteq> TaskRunning"
    | (other) "su_taskStatus event \<notin> {TaskRunning, TaskFinished, TaskFailed, TaskKilling, TaskKilled, TaskLost}"
    by auto
  then show ?thesis
  proof cases
    case run
    show ?thesis
    proof (cases r)
      case (Inl err)
      with run assms(2) g f h made_none [OF h] show ?thesis by (simp add: statusUpdateEvent_def status_calls_def)
    next
      case (Inr refo)
      show ?thesis
      proof (cases refo)
        case None
        with run Inr assms(2) g show ?thesis by (simp add: statusUpdateEvent_def)
      next
        case (Some ref)
        show ?thesis
        proof (cases "a_healthChecks (rt_heap rt1 ! ref) = []")
          case True
          with run Inr Some assms(2) g have "mmsd_Update se cfg rt1 ?id ?tid True = Ret rt'"
            by (simp add: statusUpdateEvent_def)
          from made_fetch [OF h Update_made [OF l this]] run Inr Some True f show ?thesis
            by (simp add: status_calls_def)
        next
          case False
          with run Inr Some assms(2) g f h made_none [OF h] show ?thesis
            by (simp add: statusUpdateEvent_def status_calls_def)
        qed
      qed
    qed
  next
    case ended
    show ?thesis
    proof (cases r)
      case (Inl err)
      with ended assms(2) g f h made_none [OF h] show ?thesis by (simp add: statusUpdateEvent_def status_calls_def)
    next
      case (Inr refo)
      with ended assms(2) g have "mmsd_Remove se rt1 ?id ?tid refo = Ret rt'" by (simp add: statusUpdateEvent_def)
      from made_fetch [OF h Remove_made [OF l this]] ended Inr f show ?thesis by (simp add: status_calls_def)
    qed
  next
    case other
    with assms(2) made_none [of rt rt se] show ?thesis by (simp add: statusUpdateEvent_def status_calls_def)
  qed
qed

lemma health_made:
  assumes "late rt" and "healthStatusChangedEvent se cfg rt event = Ret rt'"
  shows "made se rt (health_calls se cfg (rt_requests rt) event) rt'"
proof -
  let ?id = "hs_appId event" and ?tid = "hs_taskId event"
  obtain rt1 r where g: "getMarathonApp se cfg rt ?id = (rt1, r)" by force
  have f: "fetch_app se cfg (rt_requests rt) ?id = (rt_requests rt1, map_sum id (map_option ((!) (rt_heap rt1))) r)"
    and h: "rt_handlers rt1 = rt_handlers rt \<and> heap_le (rt_heap rt) (rt_heap rt1)" using getMarathonApp_fetch [OF g] by simp_all
  with assms(1) have l: "late rt1" by simp
  consider (none) "(\<exists>err. r = Inl err) \<or> r = Inr None" | (app) ref where "r = Inr (Some ref)"
    by (cases r) (auto split: option.splits)
  then show ?thesis
  proof cases
    case none
    with assms(2) g f made_none [OF h] show ?thesis by (auto simp: healthStatusChangedEvent_def health_calls_def)
  next
    case (app ref)
    show ?thesis
    proof (cases "env_getTask (se_host se) (rt_heap rt1 ! ref) ?tid")
      case None
      with app assms(2) g have "mmsd_Remove se rt1 ?id ?tid (Some ref) = Ret rt'"
        by (simp add: healthStatusChangedEvent_def)
      from made_fetch [OF h Remove_made [OF l this]] None app f show ?thesis by (simp add: health_calls_def)
    next
      case (Some task)
      with app assms(2) g have "mmsd_Update se cfg rt1 ?id ?tid (hs_alive event) = Ret rt'"
        by (simp add: healthStatusChangedEvent_def)
      from made_fetch [OF h Update_made [OF l this]] Some app f show ?thesis by (simp add: health_calls_def)
    qed
  qed
qed

lemma listener_made:
  assumes "late rt" and "listener se cfg rt cb data = Ret rt'"
  shows "made se rt (listener_calls se cfg (rt_requests rt) cb data) rt'"
proof -
  have none: "made se rt (rt_requests rt, []) rt" by (rule made_none) simp
  consider "cb = ''status_update_event''" | "cb = ''health_status_changed_event''" | "cb = ''app_terminated_event''"
    | "cb \<notin> {''status_update_event'', ''health_status_changed_event'', ''app_terminated_event''}" by auto
  then show ?thesis
  proof cases
    case 1
    with assms(2) none status_made [OF assms(1)] show ?thesis
      by (cases "se_statusUpdate se data") (simp_all add: listener_def listener_calls_def)
  next
    case 2
    with assms(2) none health_made [OF assms(1)] show ?thesis
      by (cases "se_healthChanged se data") (simp_all add: listener_def listener_calls_def)
  next
    case 3
    with assms(2) none Remove_made [OF assms(1), of se _ "[]" None] show ?thesis
      by (cases "se_appTerminated se data") (simp_all add: listener_def listener_calls_def appTerminatedEvent_def)
  next
    case 4
    with assms(2) none show ?thesis by (simp add: listener_def listener_calls_def)
  qed
qed

lemma tick_made:
  "service_do se cfg rt HaproxyTick = Ret rt' \<Longrightarrow> \<exists>w. rt' = rt\<lparr>rt_world := w\<rparr>"
proof (cases "find_haproxy (rt_handlers rt)")
  case None
  then show "service_do se cfg rt HaproxyTick = Ret rt' \<Longrightarrow> ?thesis" by (auto intro: exI [of _ "rt_world rt"])
next
  case (Some m)
  obtain w r where "tick (se_proc se) m (rt_world rt) = (w, r)" by force
  with Some show "service_do se cfg rt HaproxyTick = Ret rt' \<Longrightarrow> ?thesis" by (cases r) auto
qed

lemma step_made:
  assumes "late rt" and "service_do se cfg rt step = Ret rt'"
  shows "made se rt (step_calls se cfg (rt_requests rt) step) rt'"
proof (cases step)
  case (SseCall call)
  with assms show ?thesis by (cases call) (simp_all add: listener_made made_none)
next
  case HaproxyTick
  with assms(2) tick_made obtain w where "rt' = rt\<lparr>rt_world := w\<rparr>" by blast
  with HaproxyTick made_none [of rt' rt se] show ?thesis by simp
qed

section \<open>The state after a run\<close>

text \<open>The UDP and the HAProxy manager have had some calls since they were made.\<close>

definition reached :: "service_env \<Rightarrow> handler list \<Rightarrow> handler_call list \<Rightarrow> handler list \<Rightarrow> bool" where
  "reached se hs calls hs' \<longleftrightarrow>
     rel_option (\<lambda>s s'. handler_run (haproxy_Apply (se_host se)) (haproxy_Update (se_host se) (se_admin se))
         (haproxy_Remove (se_host se)) s calls = Ret s') (haproxy_of hs) (haproxy_of hs') \<and>
     rel_option (\<lambda>st st'. handler_run (udp_Apply (se_udp se) (se_host se)) (udp_Update (se_udp se) (se_host se))
         (udp_Remove (se_udp se) (se_host se)) st calls = Ret st') (udp_of hs) (udp_of hs')"

lemma reached_start: "reached se hs [] hs"
  by (cases "haproxy_of hs"; cases "udp_of hs") (simp_all add: reached_def handler_run_def)

lemma reached_moved: "reached se hs calls hs1 \<Longrightarrow> moved se c hs1 hs2 \<Longrightarrow> reached se hs (calls @ [c]) hs2"
  unfolding reached_def moved_def
  by (auto simp: haproxy.run_snoc udp.run_snoc option_rel_Some1 option_rel_Some2 elim!: option.rel_cases)

lemma run_reached:
  assumes "late rt" and "reached se hs calls (rt_handlers rt)" and "service_run se cfg rt steps = Ret rt'"
  shows "reached se hs (calls @ calls_from se cfg (rt_requests rt) steps) (rt_handlers rt')"
  using assms
proof (induction steps arbitrary: rt calls)
  case (Cons step steps)
  from Cons.prems(3) obtain rt1 where 1: "service_do se cfg rt step = Ret rt1"
    and 2: "service_run se cfg rt1 steps = Ret rt'" by (auto simp: service_run_def go_bind_eq_Ret)
  note m = step_made [OF Cons.prems(1) 1]
  have l: "late rt1" using kinds.step [OF refl 1] Cons.prems(1) by simp
  have r: "reached se hs (calls @ snd (step_calls se cfg (rt_requests rt) step)) (rt_handlers rt1)"
  proof (cases "snd (step_calls se cfg (rt_requests rt) step)")
    case Nil
    with m Cons.prems(2) show ?thesis by (simp add: made_def)
  next
    case (Cons c cs)
    with m have "cs = []" "moved se c (rt_handlers rt) (rt_handlers rt1)" by (simp_all add: made_def)
    with Cons reached_moved [OF Cons.prems(2)] show ?thesis by simp
  qed
  from Cons.IH [OF l r 2] m show ?case by (simp add: made_def)
qed (simp add: service_run_def)


text \<open>The set-up has made its calls, and the events make the rest.\<close>

definition set_up :: "service_env \<Rightarrow> mmsd_config \<Rightarrow> handler list \<Rightarrow> handler_call list \<Rightarrow> runtime \<Rightarrow> bool" where
  "set_up se cfg hs first rt0 \<longleftrightarrow> late rt0 \<and> reached se hs first (rt_handlers rt0) \<and>
     (\<forall>steps. service_calls se cfg steps = first @ calls_from se cfg (rt_requests rt0) steps) \<and>
     (sort_ok (env_sortTasks (se_host se)) \<longrightarrow>
       dns_table ((new_dns cfg)\<lparr>dm_db := gm_make\<rparr>) (foldl (view_call (se_host se)) Map.empty first)
         (rt_heap rt0) (rt_handlers rt0))"

lemma setup_calls:
  assumes "setupHandlers se cfg w = Ret rt0"
  shows "\<exists>first. set_up se cfg (new_handlers cfg (w_fs w)) first rt0"
proof -
  let ?hs = "new_handlers cfg (w_fs w)"
  let ?rt = "\<lparr>rt_handlers = ?hs, rt_heap = [], rt_world = w, rt_requests = 0, rt_logged = []\<rparr>"
  have l: "late ?rt" by (simp add: new_handlers_kinds late_config)
  have t: "dns_table ((new_dns cfg)\<lparr>dm_db := gm_make\<rparr>) Map.empty heap ?hs" for heap
    by (auto simp: dns_table_def dns_shows_def new_handlers_def new_dns_def split: if_splits)
  show ?thesis
  proof (cases "se_marathon se (ms_MarathonIP cfg) (ms_MarathonPort cfg)")
    case (Inl err)
    with assms(1) have "rt0 = ?rt" by (simp add: setupHandlers_def MaybeResetFromTasks_def)
    with l t reached_start Inl show ?thesis
      by (intro exI [of _ "[]"]) (simp add: set_up_def service_calls_def)
  next
    case (Inr m)
    show ?thesis
    proof (cases "mc_getApps m 0")
      case (Inl err)
      with assms(1) \<open>se_marathon se _ _ = _\<close> have "rt0 = ?rt\<lparr>rt_requests := 1\<rparr>"
        by (simp add: setupHandlers_def MaybeResetFromTasks_def)
      with l t reached_start Inl Inr show ?thesis
        by (intro exI [of _ "[]"]) (simp add: set_up_def service_calls_def)
    next
      case (Inr apps)
      let ?rt1 = "?rt\<lparr>rt_requests := 1, rt_heap := apps\<rparr>"
      from assms(1) \<open>se_marathon se _ _ = _\<close> Inr have a: "all_handlers (call_Apply se [0..<length apps]) ?rt1 = Ret rt0"
        by (simp add: setupHandlers_def MaybeResetFromTasks_def Let_def go_bind_eq_Ret)
      have "map ((!) apps) [0..<length apps] = apps" by (rule map_nth)
      with all_made [OF apply_call.service_call_axioms apply_delivers _ a] l
      have made: "made se ?rt1 (1, [CallApply apps]) rt0" by simp
      then have m: "rt_requests rt0 = 1" "moved se (CallApply apps) ?hs (rt_handlers rt0)" by (simp_all add: made_def)
      have "service_ok (se_host se) ?rt1" by (auto simp: service_ok_def intro: new_handlers_ok)
      with made t [of apps] have "sort_ok (env_sortTasks (se_host se)) \<longrightarrow>
          dns_table ((new_dns cfg)\<lparr>dm_db := gm_make\<rparr>) (view_call (se_host se) Map.empty (CallApply apps))
            (rt_heap rt0) (rt_handlers rt0)"
        unfolding made_def tracked_def by fastforce
      moreover have "late rt0" using apply_call.all_kinds [OF a] l by simp
      ultimately show ?thesis
        using reached_moved [OF reached_start m(2)] Inr \<open>se_marathon se _ _ = _\<close> m(1)
        by (intro exI [of _ "[CallApply apps]"]) (simp add: set_up_def service_calls_def)
    qed
  qed
qed

lemma setup_reached:
  assumes "setupHandlers se cfg w = Ret rt0" and "service_run se cfg rt0 steps = Ret rt"
  shows "reached se (new_handlers cfg (w_fs w)) (service_calls se cfg steps) (rt_handlers rt)"
  using setup_calls [OF assms(1)] run_reached [OF _ _ assms(2)] by (auto simp: set_up_def)


lemma find_haproxy_of: "find_haproxy hs = map_option fst (haproxy_of hs)"
  by (induction hs rule: haproxy_of.induct) simp_all

lemma haproxy_of_new:
  "haproxy_of (new_handlers cfg fs) = (if ms_TCPEnabled cfg then Some (new_haproxy cfg, []) else None)"
  by (simp add: new_handlers_def)

lemma udp_of_new: "udp_of (new_handlers cfg fs) = (if ms_UDPEnabled cfg then Some (new_udp cfg) else None)"
  by (simp add: new_handlers_def)

lemma new_haproxy_ok: "haproxy_ok (new_haproxy cfg)"
  using new_handlers_ok [of "HHaproxy (new_haproxy cfg, [])" "cfg\<lparr>ms_TCPEnabled := True\<rparr>"]
  by (simp add: new_haproxy_def haproxy_ok_def tables_ok_def vhosts_ok_def refs_ok_def cache_ready_def
      getAppStateCacheEntry_def)

lemma new_udp_closed: "udp_closed (ms_BindIP cfg) (new_udp cfg)"
  and new_udp_frontends: "frontends (new_udp cfg) = Map.empty"
  by (simp_all add: udp_closed_def udp_ok_def new_udp_def NewUdpManager_def udp_manager.extend_def
      frontends_def fun_eq_iff)

text \<open>
  C3. What Marathon says is what is served: from the set-up through any sequence of events and turns
  of the HAProxy loop, a further turn leaves in the configuration file exactly the specified text of
  the calls that these events make by Marathon's answers, followed by the tail file; and the UDP
  frontends are those of the abstract table after the same calls. Errors of other handlers, the order
  in which they are called and the application objects they share make no difference.
\<close>

theorem service_publishes:
  assumes "sort_ok (env_sortTasks (se_host se))"
    and "config_untouched (se_proc se) (new_haproxy cfg)" and "paths_distinct (new_haproxy cfg)"
    and "setupHandlers se cfg w = Ret rt0" and "service_run se cfg rt0 steps = Ret rt1"
    and "service_do se cfg rt1 HaproxyTick = Ret rt"
  shows "(ms_TCPEnabled cfg \<longrightarrow> (\<exists>tail. makeConfigTail (new_haproxy cfg) (w_fs (rt_world rt1)) = Inr tail \<and>
      fs_read (w_fs (rt_world rt)) (path_join (ms_RunStateDir cfg) ''haproxy.cfg'') =
        Some (rendered (se_host se) (new_haproxy cfg) (service_calls se cfg steps) @ tail))) \<and>
    (ms_UDPEnabled cfg \<longrightarrow> (\<exists>st. udp_of (rt_handlers rt) = Some st \<and>
      go_fold (udp_call (se_udp se) (se_host se) (ms_BindIP cfg)) Map.empty (service_calls se cfg steps) =
        Ret (frontends st)))"
proof (intro conjI impI)
  note r = setup_reached [OF assms(4,5), unfolded reached_def haproxy_of_new udp_of_new]
  assume "ms_TCPEnabled cfg"
  with r obtain s where s: "haproxy_of (rt_handlers rt1) = Some s" and
    run: "handler_run (haproxy_Apply (se_host se)) (haproxy_Update (se_host se) (se_admin se))
      (haproxy_Remove (se_host se)) (new_haproxy cfg, []) (service_calls se cfg steps) = Ret s"
    by (auto simp: option_rel_Some1)
  obtain w' res where t: "tick (se_proc se) (fst s) (rt_world rt1) = (w', res)" by force
  with assms(6) s obtain u where u: "res = Ret u" "rt = rt1\<lparr>rt_world := w'\<rparr>"
    by (cases res) (simp_all add: find_haproxy_of)
  from installed_config_current [OF assms(1) _ run] new_haproxy_ok assms(2,3) t u
  show "\<exists>tail. makeConfigTail (new_haproxy cfg) (w_fs (rt_world rt1)) = Inr tail \<and>
      fs_read (w_fs (rt_world rt)) (path_join (ms_RunStateDir cfg) ''haproxy.cfg'') =
        Some (rendered (se_host se) (new_haproxy cfg) (service_calls se cfg steps) @ tail)"
    by (fastforce simp: new_haproxy_def)
next
  note r = setup_reached [OF assms(4,5), unfolded reached_def haproxy_of_new udp_of_new]
  assume "ms_UDPEnabled cfg"
  with r obtain st where s: "udp_of (rt_handlers rt1) = Some st" and
    run: "handler_run (udp_Apply (se_udp se) (se_host se)) (udp_Update (se_udp se) (se_host se))
      (udp_Remove (se_udp se) (se_host se)) (new_udp cfg) (service_calls se cfg steps) = Ret st"
    by (auto simp: option_rel_Some1)
  from tick_made [OF assms(6)] s have "udp_of (rt_handlers rt) = Some st" by auto
  with run_frontends [OF new_udp_closed, of "se_udp se" "se_host se" cfg "service_calls se cfg steps"] run
  show "\<exists>st. udp_of (rt_handlers rt) = Some st \<and>
      go_fold (udp_call (se_udp se) (se_host se) (ms_BindIP cfg)) Map.empty (service_calls se cfg steps) =
        Ret (frontends st)"
    by (simp add: new_udp_frontends)
qed

section \<open>Queries\<close>





section \<open>An example\<close>

text \<open>An application is there at the start, and is destroyed; then the HAProxy loop takes a turn.\<close>

definition api_marathon :: marathon_client where
  "api_marathon ip port = Inr \<lparr>mc_getApps = (\<lambda>n. Inr [api_app]), mc_getApp = (\<lambda>n aid. Inr None)\<rparr>"

definition api_cfg :: mmsd_config where
  "api_cfg = (main_config \<lparr>fs_files = [], fs_dirs = [], fs_deny = []\<rparr> [])
     \<lparr>ms_RunStateDir := [], ms_GatewayEnabled := True, ms_HaproxyBin := ''haproxy'', ms_HaproxyTailCfg := [],
      ms_HaproxySyslogFacility := ''local1'', ms_FilesEnabled := False, ms_UDPEnabled := False\<rparr>"

lemma api_new: "new_haproxy api_cfg = haproxy_example"
  by (simp add: new_haproxy_def api_cfg_def main_config_def haproxy_example_def go_eval
      path_join_def path_clean_def path_rooted_def Let_def)

definition api_start :: runtime where
  "api_start = \<lparr>rt_handlers = [HHaproxy (api_applied, [])], rt_heap = [api_app], rt_world = live_world,
     rt_requests = 1, rt_logged = []\<rparr>"

lemma api_setup: "setupHandlers (service_example api_marathon) api_cfg live_world = Ret api_start"
proof -
  have "new_handlers api_cfg fs = [HHaproxy (haproxy_example, [])]" for fs
    using api_new by (simp add: new_handlers_def) (simp add: api_cfg_def main_config_def)
  then show ?thesis
    by (simp add: setupHandlers_def MaybeResetFromTasks_def service_example_def api_marathon_def all_handlers_def
        call_Apply_def api_ApplyApps api_start_def)
qed

abbreviation api_steps :: "service_step list" where
  "api_steps \<equiv> [SseCall (CallHandler ''app_terminated_event'' ''/api'')]"

lemma api_calls_made: "service_calls (service_example api_marathon) api_cfg api_steps =
    [CallApply [api_app], CallRemove ''/api'' [] None]"
  by (simp add: service_calls_def listener_calls_def service_example_def api_marathon_def)

lemma api_removed:
  obtains m where "haproxy_RemoveApp example_env api_applied ''/api'' [] None = Ret (m, None)"
    and "static m = static haproxy_example"
proof -
  have total: "\<exists>m. removeAppStateCacheEntry x aid tid = Ret m" if "hm_appStateCache x = Some c" for x aid tid c
    using that by (simp add: removeAppStateCacheEntry_def Let_def gm_put_def)
  let ?x = "api_applied\<lparr>hm_appConfigFragments := gm_delete (hm_appConfigFragments api_applied) ''/api''\<rparr>"
  have "hm_appStateCache ?x = Some [(''/api'', Some [(''t1'', 0), (''t2'', 0)])]" by (simp add: api_applied_def)
  from total [OF this] obtain m where "removeAppStateCacheEntry ?x ''/api'' [] = Ret m" by blast
  then have r: "haproxy_RemoveApp example_env api_applied ''/api'' [] None = Ret (m, None)"
    by (simp add: haproxy_RemoveApp_def)
  then have "haproxy_Remove example_env (api_applied, []) ''/api'' [] None = Ret ((m, []), None)"
    by (simp add: haproxy_Remove_def)
  from haproxy.Remove_config [OF this] have "static m = static api_applied" by (simp add: haproxy_config_def)
  moreover have "static api_applied = static haproxy_example"
    by (simp add: api_applied_def static_def apply_reset_def clearAppStateCache_def)
  ultimately show thesis using r that by simp
qed

theorem service_publishes_witness:
  "\<exists>rt0 rt1 rt. setupHandlers (service_example api_marathon) api_cfg live_world = Ret rt0 \<and>
     service_run (service_example api_marathon) api_cfg rt0 api_steps = Ret rt1 \<and>
     service_do (service_example api_marathon) api_cfg rt1 HaproxyTick = Ret rt \<and>
     fs_read (w_fs (rt_world rt)) ''haproxy.cfg'' =
       Some (rendered example_env haproxy_example [CallApply [api_app], CallRemove ''/api'' [] None])"
proof -
  let ?se = "service_example api_marathon"
  obtain m where rem: "haproxy_RemoveApp example_env api_applied ''/api'' [] None = Ret (m, None)"
    and st: "static m = static haproxy_example" by (rule api_removed)
  obtain w' where t: "tick quiet_env m live_world = (w', Ret ())" using quiet_tick [OF st] by blast
  let ?rt1 = "api_start\<lparr>rt_handlers := [HHaproxy (m, [])]\<rparr>"
  have run: "service_run ?se api_cfg api_start api_steps = Ret ?rt1"
    using rem by (simp add: service_run_def listener_def service_example_def appTerminatedEvent_def
        mmsd_Remove_def all_handlers_def call_Remove_def api_start_def)
  have turn: "service_do ?se api_cfg ?rt1 HaproxyTick = Ret (?rt1\<lparr>rt_world := w'\<rparr>)"
    using t by (simp add: service_example_def api_start_def)
  have tail: "makeConfigTail haproxy_example fs = Inr []" for fs
    by (simp add: makeConfigTail_def haproxy_example_def)
  have cfg: "ms_TCPEnabled api_cfg" "path_join (ms_RunStateDir api_cfg) ''haproxy.cfg'' = ''haproxy.cfg''"
    using arg_cong [OF api_new, of hm_ConfigPath]
    by (simp_all add: new_haproxy_def haproxy_example_def) (simp add: api_cfg_def main_config_def)
  have "config_untouched (se_proc ?se) (new_haproxy api_cfg)" and "paths_distinct (new_haproxy api_cfg)"
    using quiet_untouched(1) example_paths_distinct by (simp_all add: api_new) (simp add: service_example_def)
  from service_publishes [OF service_env_ok this api_setup run turn, unfolded cfg(2) api_new tail api_calls_made] cfg(1)
  have "fs_read (w_fs (rt_world (?rt1\<lparr>rt_world := w'\<rparr>))) ''haproxy.cfg'' =
     Some (rendered example_env haproxy_example [CallApply [api_app], CallRemove ''/api'' [] None])"
    by (auto simp: service_example_def)
  with api_setup run turn show ?thesis by (intro exI conjI) assumption+
qed


end
