(* ===== verification/Command_Line.thy ===== *)
theory Command_Line
  imports Service_Invariant
begin

text \<open>
  The command line, the first part of \<open>Run\<close> in src/main.go: every flag is registered with the
  variable it sets, whose present value is its default. The package that parses the arguments is
  outside the repository; it gives the occurrences of the flags in their order, by their long names
  and with values of the registered types, or refuses the arguments and ends the program.

  A flag is a name with the variable as a pair of functions, to read and to write it. The theorem
  states that the flags are independent of each other and that the last occurrence of each wins.
\<close>

datatype flag_value = FlagBool bool | FlagUint uint | FlagString string | FlagDuration int | FlagIP string

record settings =
  st_mmsd :: mmsd_config
  st_apiPort :: uint
  st_showVersion :: bool

datatype flag = Flag (flag_name: string) (flag_get: "settings \<Rightarrow> flag_value")
  (flag_set: "flag_value \<Rightarrow> settings \<Rightarrow> settings option")

text \<open>The registration of a flag for a field of the service, by its type.\<close>

definition BoolVar :: "string \<Rightarrow> (mmsd_config \<Rightarrow> bool) \<Rightarrow> ((bool \<Rightarrow> bool) \<Rightarrow> mmsd_config \<Rightarrow> mmsd_config) \<Rightarrow> flag" where
  "BoolVar name get upd = Flag name (\<lambda>s. FlagBool (get (st_mmsd s)))
     (\<lambda>v s. case v of FlagBool b \<Rightarrow> Some (s\<lparr>st_mmsd := upd (\<lambda>_. b) (st_mmsd s)\<rparr>) | _ \<Rightarrow> None)"

definition UintVar :: "string \<Rightarrow> (mmsd_config \<Rightarrow> uint) \<Rightarrow> ((uint \<Rightarrow> uint) \<Rightarrow> mmsd_config \<Rightarrow> mmsd_config) \<Rightarrow> flag" where
  "UintVar name get upd = Flag name (\<lambda>s. FlagUint (get (st_mmsd s)))
     (\<lambda>v s. case v of FlagUint n \<Rightarrow> Some (s\<lparr>st_mmsd := upd (\<lambda>_. n) (st_mmsd s)\<rparr>) | _ \<Rightarrow> None)"

definition StringVar :: "string \<Rightarrow> (mmsd_config \<Rightarrow> string) \<Rightarrow> ((string \<Rightarrow> string) \<Rightarrow> mmsd_config \<Rightarrow> mmsd_config) \<Rightarrow> flag" where
  "StringVar name get upd = Flag name (\<lambda>s. FlagString (get (st_mmsd s)))
     (\<lambda>v s. case v of FlagString t \<Rightarrow> Some (s\<lparr>st_mmsd := upd (\<lambda>_. t) (st_mmsd s)\<rparr>) | _ \<Rightarrow> None)"

definition DurationVar :: "string \<Rightarrow> (mmsd_config \<Rightarrow> int) \<Rightarrow> ((int \<Rightarrow> int) \<Rightarrow> mmsd_config \<Rightarrow> mmsd_config) \<Rightarrow> flag" where
  "DurationVar name get upd = Flag name (\<lambda>s. FlagDuration (get (st_mmsd s)))
     (\<lambda>v s. case v of FlagDuration d \<Rightarrow> Some (s\<lparr>st_mmsd := upd (\<lambda>_. d) (st_mmsd s)\<rparr>) | _ \<Rightarrow> None)"

definition IPVar :: "string \<Rightarrow> (mmsd_config \<Rightarrow> string) \<Rightarrow> ((string \<Rightarrow> string) \<Rightarrow> mmsd_config \<Rightarrow> mmsd_config) \<Rightarrow> flag" where
  "IPVar name get upd = Flag name (\<lambda>s. FlagIP (get (st_mmsd s)))
     (\<lambda>v s. case v of FlagIP t \<Rightarrow> Some (s\<lparr>st_mmsd := upd (\<lambda>_. t) (st_mmsd s)\<rparr>) | _ \<Rightarrow> None)"

definition apiPort_flag :: flag where
  "apiPort_flag = Flag ''api-port'' (\<lambda>s. FlagUint (st_apiPort s))
     (\<lambda>v s. case v of FlagUint n \<Rightarrow> Some (s\<lparr>st_apiPort := n\<rparr>) | _ \<Rightarrow> None)"

definition version_flag :: flag where
  "version_flag = Flag ''version'' (\<lambda>s. FlagBool (st_showVersion s))
     (\<lambda>v s. case v of FlagBool b \<Rightarrow> Some (s\<lparr>st_showVersion := b\<rparr>) | _ \<Rightarrow> None)"

definition flags :: "flag list" where
  "flags =
     [BoolVar ''verbose'' ms_Verbose ms_Verbose_update,
      IPVar ''marathon-ip'' ms_MarathonIP ms_MarathonIP_update,
      UintVar ''marathon-port'' ms_MarathonPort ms_MarathonPort_update,
      DurationVar ''reconnect-delay'' ms_ReconnectDelay ms_ReconnectDelay_update,
      StringVar ''run-state-dir'' ms_RunStateDir ms_RunStateDir_update,
      StringVar ''filter-groups'' ms_FilterGroups ms_FilterGroups_update,
      IPVar ''bind-ip'' ms_BindIP ms_BindIP_update,
      apiPort_flag,
      BoolVar ''enable-gateway'' ms_GatewayEnabled ms_GatewayEnabled_update,
      IPVar ''gateway-bind'' ms_GatewayAddr ms_GatewayAddr_update,
      UintVar ''gateway-port-http'' ms_GatewayPortHTTP ms_GatewayPortHTTP_update,
      UintVar ''gateway-port-https'' ms_GatewayPortHTTPS ms_GatewayPortHTTPS_update,
      BoolVar ''enable-files'' ms_FilesEnabled ms_FilesEnabled_update,
      BoolVar ''enable-udp'' ms_UDPEnabled ms_UDPEnabled_update,
      BoolVar ''enable-tcp'' ms_TCPEnabled ms_TCPEnabled_update,
      BoolVar ''enable-health-checks'' ms_LocalHealthChecks ms_LocalHealthChecks_update,
      StringVar ''haproxy-bin'' ms_HaproxyBin ms_HaproxyBin_update,
      StringVar ''haproxy-cfgtail'' ms_HaproxyTailCfg ms_HaproxyTailCfg_update,
      UintVar ''haproxy-port'' ms_HaproxyPort ms_HaproxyPort_update,
      DurationVar ''haproxy-reload-interval'' ms_HaproxyReloadInterval ms_HaproxyReloadInterval_update,
      StringVar ''haproxy-syslog-facility'' ms_HaproxySyslogFacility ms_HaproxySyslogFacility_update,
      StringVar ''haproxy-before-cmd'' ms_HaproxyBeforeCmd ms_HaproxyBeforeCmd_update,
      StringVar ''haproxy-after-cmd'' ms_HaproxyAfterCmd ms_HaproxyAfterCmd_update,
      BoolVar ''haproxy-enable-reuse-socket'' ms_HaproxyEnableReuseSocket ms_HaproxyEnableReuseSocket_update,
      BoolVar ''enable-dns'' ms_DnsEnabled ms_DnsEnabled_update,
      UintVar ''dns-port'' ms_DnsPort ms_DnsPort_update,
      BoolVar ''dns-push-srv'' ms_DnsPushSRV ms_DnsPushSRV_update,
      StringVar ''dns-basename'' ms_DnsBaseName ms_DnsBaseName_update,
      DurationVar ''dns-ttl'' ms_DnsTTL ms_DnsTTL_update,
      version_flag]"

text \<open>
  What the registrations assign: the default of the socket reuse and of the version are literal,
  all other flags have the present value as theirs.
\<close>

definition registered :: "mmsd_config \<Rightarrow> settings" where
  "registered cfg = \<lparr>st_mmsd = cfg\<lparr>ms_HaproxyEnableReuseSocket := False\<rparr>, st_apiPort = 8082, st_showVersion = False\<rparr>"

definition find_flag :: "string \<Rightarrow> flag option" where
  "find_flag name = find (\<lambda>f. flag_name f = name) flags"

fun parse_flags :: "(string \<times> flag_value) list \<Rightarrow> settings \<Rightarrow> settings option" where
  "parse_flags [] s = Some s"
| "parse_flags ((name, v) # args) s =
     (case find_flag name of
        None \<Rightarrow> None
      | Some f \<Rightarrow> (case flag_set f v s of None \<Rightarrow> None | Some s' \<Rightarrow> parse_flags args s'))"

section \<open>The flags are independent\<close>

text \<open>What one flag writes another one does not read.\<close>

definition frames :: "flag \<Rightarrow> flag \<Rightarrow> bool" where
  "frames f g \<longleftrightarrow> (\<forall>v s s'. flag_set f v s = Some s' \<longrightarrow> flag_get g s' = flag_get g s)"

lemmas flag_defs = BoolVar_def UintVar_def StringVar_def DurationVar_def IPVar_def apiPort_flag_def version_flag_def

lemma frames_iff [simp]:
  "frames (BoolVar n get upd) g \<longleftrightarrow>
     (\<forall>b s. flag_get g (s\<lparr>st_mmsd := upd (\<lambda>_. b) (st_mmsd s)\<rparr>) = flag_get g s)"
  "frames (UintVar n get' upd') g \<longleftrightarrow>
     (\<forall>b s. flag_get g (s\<lparr>st_mmsd := upd' (\<lambda>_. b) (st_mmsd s)\<rparr>) = flag_get g s)"
  "frames (StringVar n get'' upd'') g \<longleftrightarrow>
     (\<forall>b s. flag_get g (s\<lparr>st_mmsd := upd'' (\<lambda>_. b) (st_mmsd s)\<rparr>) = flag_get g s)"
  "frames (DurationVar n get3 upd3) g \<longleftrightarrow>
     (\<forall>b s. flag_get g (s\<lparr>st_mmsd := upd3 (\<lambda>_. b) (st_mmsd s)\<rparr>) = flag_get g s)"
  "frames (IPVar n get'' upd'') g \<longleftrightarrow>
     (\<forall>b s. flag_get g (s\<lparr>st_mmsd := upd'' (\<lambda>_. b) (st_mmsd s)\<rparr>) = flag_get g s)"
  "frames apiPort_flag g \<longleftrightarrow> (\<forall>b s. flag_get g (s\<lparr>st_apiPort := b\<rparr>) = flag_get g s)"
  "frames version_flag g \<longleftrightarrow> (\<forall>b s. flag_get g (s\<lparr>st_showVersion := b\<rparr>) = flag_get g s)"
  by (auto simp: frames_def flag_defs split: flag_value.split_asm)

lemma flag_get_simps [simp]:
  "flag_get (BoolVar n get upd) s = FlagBool (get (st_mmsd s))"
  "flag_get (UintVar n get' upd') s = FlagUint (get' (st_mmsd s))"
  "flag_get (StringVar n get'' upd'') s = FlagString (get'' (st_mmsd s))"
  "flag_get (DurationVar n get3 upd3) s = FlagDuration (get3 (st_mmsd s))"
  "flag_get (IPVar n get'' upd'') s = FlagIP (get'' (st_mmsd s))"
  "flag_get apiPort_flag s = FlagUint (st_apiPort s)"
  "flag_get version_flag s = FlagBool (st_showVersion s)"
  by (simp_all add: flag_defs)

lemma flag_name_simps [simp]:
  "flag_name (BoolVar n get upd) = n" "flag_name (UintVar n get' upd') = n"
  "flag_name (StringVar n get'' upd'') = n" "flag_name (DurationVar n get3 upd3) = n"
  "flag_name (IPVar n get'' upd'') = n" "flag_name apiPort_flag = ''api-port''" "flag_name version_flag = ''version''"
  by (simp_all add: flag_defs)

lemma frames_set: "frames f g \<Longrightarrow> flag_set f v s = Some s' \<Longrightarrow> flag_get g s' = flag_get g s"
  by (simp add: frames_def)

fun pairwise :: "('a \<Rightarrow> 'a \<Rightarrow> bool) \<Rightarrow> 'a list \<Rightarrow> bool" where
  "pairwise P [] = True"
| "pairwise P (x # xs) = (list_all (\<lambda>y. P x y \<and> P y x) xs \<and> pairwise P xs)"

lemma pairwiseD: "pairwise P xs \<Longrightarrow> x \<in> set xs \<Longrightarrow> y \<in> set xs \<Longrightarrow> x \<noteq> y \<Longrightarrow> P x y"
  by (induction xs) (auto simp: list_all_iff)

lemma flags_frame: "pairwise frames flags"
  unfolding flags_def by simp

definition keeps_own :: "flag \<Rightarrow> bool" where
  "keeps_own f \<longleftrightarrow> (\<forall>v s s'. flag_set f v s = Some s' \<longrightarrow> flag_get f s' = v)"

lemma keeps_own_fields [simp]:
  "(\<And>b c. get (upd (\<lambda>_. b) c) = b) \<Longrightarrow> keeps_own (BoolVar n get upd)"
  "(\<And>b c. get' (upd' (\<lambda>_. b) c) = b) \<Longrightarrow> keeps_own (UintVar n get' upd')"
  "(\<And>b c. get'' (upd'' (\<lambda>_. b) c) = b) \<Longrightarrow> keeps_own (StringVar n get'' upd'')"
  "(\<And>b c. get3 (upd3 (\<lambda>_. b) c) = b) \<Longrightarrow> keeps_own (DurationVar n get3 upd3)"
  "(\<And>b c. get'' (upd'' (\<lambda>_. b) c) = b) \<Longrightarrow> keeps_own (IPVar n get'' upd'')"
  "keeps_own apiPort_flag" "keeps_own version_flag"
  by (auto simp: keeps_own_def flag_defs split: flag_value.split_asm)

lemma flags_own: "list_all keeps_own flags"
  unfolding flags_def by simp

lemma flags_names: "distinct (map flag_name flags)"
  by (simp add: flags_def)

lemma find_flag_iff: "find_flag name = Some f \<longleftrightarrow> f \<in> set flags \<and> flag_name f = name"
proof
  show "find_flag name = Some f \<Longrightarrow> f \<in> set flags \<and> flag_name f = name"
    by (auto simp: find_flag_def find_Some_iff)
next
  assume f: "f \<in> set flags \<and> flag_name f = name"
  then obtain g where g: "find_flag name = Some g"
    by (cases "find_flag name") (auto simp: find_flag_def find_None_iff)
  then have "g \<in> set flags" "flag_name g = name" by (auto simp: find_flag_def find_Some_iff)
  with f g flags_names show "find_flag name = Some f" by (auto simp: distinct_map dest: inj_onD)
qed

text \<open>The value a flag has after the arguments.\<close>

definition last_value :: "(string \<times> flag_value) list \<Rightarrow> string \<Rightarrow> flag_value \<Rightarrow> flag_value" where
  "last_value args name dflt = (case map_of (rev args) name of Some v \<Rightarrow> v | None \<Rightarrow> dflt)"

lemma last_value_Cons:
  "last_value ((n, v) # args) name dflt = last_value args name (if n = name then v else dflt)"
  by (auto simp: last_value_def map_add_def split: option.split)

lemma parse_flags_last:
  "parse_flags args s = Some r \<Longrightarrow> f \<in> set flags \<Longrightarrow>
   flag_get f r = last_value args (flag_name f) (flag_get f s)"
proof (induction args s rule: parse_flags.induct)
  case (2 name v args s)
  from "2.prems"(1) obtain g s1 where g: "find_flag name = Some g" and s1: "flag_set g v s = Some s1"
    and r: "parse_flags args s1 = Some r" by (auto split: option.splits)
  from g have gs: "g \<in> set flags" "flag_name g = name" by (simp_all add: find_flag_iff)
  have "flag_get f s1 = (if name = flag_name f then v else flag_get f s)"
  proof (cases "g = f")
    case True
    with flags_own "2.prems"(2) s1 gs(2) show ?thesis by (auto simp: list_all_iff keeps_own_def)
  next
    case False
    with gs "2.prems"(2) flags_names have "name \<noteq> flag_name f" by (auto simp: distinct_map dest: inj_onD)
    moreover have "flag_get f s1 = flag_get f s"
      by (rule frames_set [OF pairwiseD [OF flags_frame gs(1) "2.prems"(2) False] s1])
    ultimately show ?thesis by simp
  qed
  with "2.IH" [OF g s1 r "2.prems"(2)] show ?case by (simp add: last_value_Cons)
qed (simp add: last_value_def)

section \<open>Running with arguments\<close>

text \<open>
  The program with the settings of \<open>main\<close> as \<open>cfg\<close>: refused arguments end it, as does a request of the
  version; both are \<open>None\<close>.
\<close>

definition run_args :: "service_env \<Rightarrow> (string \<times> flag_value) list \<Rightarrow> mmsd_config \<Rightarrow> world
    \<Rightarrow> (runtime \<times> event_source \<times> api_config) option go" where
  "run_args se args cfg w =
     (case parse_flags args (registered cfg) of
        None \<Rightarrow> Ret None
      | Some s \<Rightarrow> mmsd_Run se (\<lambda>_ _. (st_mmsd s, st_apiPort s, st_showVersion s)) cfg w)"

text \<open>
  C17. The command line selects what runs: the handlers that exist after the start are exactly those
  whose flags are on, in their order, and the API listens on the port that was asked for, where the
  last occurrence of a flag counts and a flag that does not occur has the default of \<open>main\<close>; every
  setting of a flag is independent of the other flags.
\<close>

theorem command_line_selects:
  assumes "sort_ok (env_sortTasks (se_host se))" and "run_args se args cfg w = Ret (Some (rt, sse, api))"
  shows "map handler_kind (rt_handlers rt) =
      concat [if last_value args ''enable-dns'' (FlagBool (ms_DnsEnabled cfg)) = FlagBool True then [KDns] else [],
       if last_value args ''enable-udp'' (FlagBool (ms_UDPEnabled cfg)) = FlagBool True then [KUdp] else [],
       if last_value args ''enable-tcp'' (FlagBool (ms_TCPEnabled cfg)) = FlagBool True then [KHaproxy] else [],
       if last_value args ''enable-files'' (FlagBool (ms_FilesEnabled cfg)) = FlagBool True then [KFiles] else []] \<and>
    FlagUint (ac_Port api) = last_value args ''api-port'' (FlagUint 8082) \<and>
    FlagIP (ac_Addr api) = last_value args ''bind-ip'' (FlagIP (ms_BindIP cfg)) \<and>
    last_value args ''version'' (FlagBool False) = FlagBool False \<and>
    (\<exists>s. parse_flags args (registered cfg) = Some s \<and>
      (\<forall>f\<in>set flags. flag_get f s = last_value args (flag_name f) (flag_get f (registered cfg))))"
proof -
  from assms(2) obtain s where s: "parse_flags args (registered cfg) = Some s"
    and run: "mmsd_Run se (\<lambda>_ _. (st_mmsd s, st_apiPort s, st_showVersion s)) cfg w = Ret (Some (rt, sse, api))"
    by (auto simp: run_args_def split: option.splits)
  from run have v: "\<not> st_showVersion s" and h: "setupHandlers se (st_mmsd s) w = Ret rt"
    and api: "ac_Port api = st_apiPort s" "ac_Addr api = ms_BindIP (st_mmsd s)"
    by (auto simp: mmsd_Run_def NewAPI_def go_bind_eq_Ret split: if_splits)
  note last = parse_flags_last [OF s]
  have kinds: "map handler_kind (rt_handlers rt) = config_kinds (st_mmsd s)"
    using setupHandlers_ok [OF assms(1) h] by simp
  have on: "last_value args n (FlagBool (get cfg)) = FlagBool (get (st_mmsd s))"
    if "BoolVar n get upd \<in> set flags" and "get (cfg\<lparr>ms_HaproxyEnableReuseSocket := False\<rparr>) = get cfg" for n get upd
    using last [OF that(1)] that(2) by (simp add: registered_def)
  have dns: "last_value args ''enable-dns'' (FlagBool (ms_DnsEnabled cfg)) = FlagBool (ms_DnsEnabled (st_mmsd s))"
    by (rule on [where upd = ms_DnsEnabled_update]) (simp_all add: flags_def)
  have udp: "last_value args ''enable-udp'' (FlagBool (ms_UDPEnabled cfg)) = FlagBool (ms_UDPEnabled (st_mmsd s))"
    by (rule on [where upd = ms_UDPEnabled_update]) (simp_all add: flags_def)
  have tcp: "last_value args ''enable-tcp'' (FlagBool (ms_TCPEnabled cfg)) = FlagBool (ms_TCPEnabled (st_mmsd s))"
    by (rule on [where upd = ms_TCPEnabled_update]) (simp_all add: flags_def)
  have files: "last_value args ''enable-files'' (FlagBool (ms_FilesEnabled cfg)) = FlagBool (ms_FilesEnabled (st_mmsd s))"
    by (rule on [where upd = ms_FilesEnabled_update]) (simp_all add: flags_def)
  have "apiPort_flag \<in> set flags" "version_flag \<in> set flags"
    "IPVar ''bind-ip'' ms_BindIP ms_BindIP_update \<in> set flags" by (simp_all add: flags_def)
  from this [THEN last] have rest: "FlagUint (st_apiPort s) = last_value args ''api-port'' (FlagUint 8082)"
    "FlagBool (st_showVersion s) = last_value args ''version'' (FlagBool False)"
    "FlagIP (ms_BindIP (st_mmsd s)) = last_value args ''bind-ip'' (FlagIP (ms_BindIP cfg))"
    by (simp_all add: registered_def)
  show ?thesis
    using s last by (simp add: kinds config_kinds_def dns udp tcp files api v flip: rest)
qed

theorem command_line_selects_witness:
  "\<exists>rt sse api. run_args (service_example refusing) [(''enable-tcp'', FlagBool True), (''enable-tcp'', FlagBool False)]
      (main_config (w_fs empty_world) ''/usr/bin'') empty_world = Ret (Some (rt, sse, api)) \<and>
    map handler_kind (rt_handlers rt) = [KUdp, KFiles] \<and> ac_Port api = 8082"
proof -
  let ?cfg = "main_config (w_fs empty_world) ''/usr/bin''" and ?se = "service_example refusing"
  let ?args = "[(''enable-tcp'', FlagBool True), (''enable-tcp'', FlagBool False)]"
  have "find_flag ''enable-tcp'' = Some (BoolVar ''enable-tcp'' ms_TCPEnabled ms_TCPEnabled_update)"
    by (simp add: find_flag_iff flags_def)
  then obtain s where s: "parse_flags ?args (registered ?cfg) = Some s" "\<not> st_showVersion s"
    by (simp add: BoolVar_def registered_def)
  obtain rt where rt: "setupHandlers ?se (st_mmsd s) empty_world = Ret rt"
    by (simp add: setupHandlers_def MaybeResetFromTasks_def service_example_def refusing_def)
  obtain sse where sse: "setupEventBusListener (st_mmsd s) = Ret sse"
    by (rule setupEventBusListener_source)
  obtain api where run: "run_args ?se ?args ?cfg empty_world = Ret (Some (rt, sse, api))"
    using s rt sse by (simp add: run_args_def mmsd_Run_def)
  from command_line_selects [OF service_env_ok run] run show ?thesis
    by (simp add: last_value_def main_config_def)
qed

text \<open>
  The README starts the program with \<open>--marathon-host\<close>, which is not registered any more: these
  arguments are refused.
\<close>

theorem documented_start_refused:
  "run_args se ((''marathon-host'', v) # args) cfg w = Ret None"
proof -
  have "find_flag ''marathon-host'' = None" by (simp add: find_flag_def find_None_iff flags_def)
  then show ?thesis by (simp add: run_args_def)
qed

end
