(* ===== verification/Spec2Isabelle.thy ===== *)
theory Spec2Isabelle
  imports Sorted_Lists Sse_Forever Udp_Schedule Udp_Serve Service_Calls Command_Line
begin

text \<open>
  A verification library for mmsd, the Marathon/Mesos service discovery daemon (Go, src/*.go and
  src/udpproxy/udpproxy.go).

  \<^bold>\<open>The program.\<close> The daemon (src/main.go) reads all applications from Marathon once, and then
  listens to Marathon's event stream (src/sse.go). Each event makes it fetch one application and
  pass it to its handlers, in order: the DNS manager (src/dns_manager.go), the UDP manager
  (src/udp_manager.go, over src/udpproxy), the HAProxy manager (src/haproxy_manager.go) and the
  files manager (src/files_manager.go). The HAProxy manager also has a loop of its own that writes
  the configuration, has HAProxy check it, and reloads. An HTTP API (src/api.go) answers requests
  from Marathon directly. Helpers are in src/helper.go, src/sorted_*.go.

  \<^bold>\<open>The model.\<close> Functions become functions, structs become records with the source's fields
  (prefixed), effects are explicit states. A panic is a value: \<open>'a go\<close> is \<open>Ret\<close> of a result or
  \<open>Panic\<close> of its kind, and every index, nil map and nil pointer of the source that can fail does
  fail in the model. Errors that the program handles are values of \<open>go_error option\<close> or of a sum.

  \<^item> \<open>Go_Base\<close>: panics, loops that may panic (\<open>go_fold\<close>), maps that may be nil (\<open>gomap\<close>), strings,
    numbers as text (\<open>atoi\<close> with the 64-bit range), paths. Port numbers are 64-bit words.
  \<^item> \<open>Marathon\<close>: the fields of applications and tasks that are read, and the code outside the
    repository as parameters: the resolver, \<open>IsAlive\<close>, \<open>GetTaskById\<close>, \<open>sort.Sort\<close> (\<open>host_env\<close>, with
    its documented behaviour as \<open>sort_ok\<close>) and the client, whose numbered requests may be answered
    differently (\<open>marathon_service\<close>).
  \<^item> \<open>File_System\<close>: files, directories and refused paths; the contract \<open>file_store\<close>.
  \<^item> \<open>Helper\<close>, \<open>Sorted_Lists\<close>: src/helper.go, src/sorted_*.go. \<open>same_chunks\<close>, the comparison of two
    files by chunks, terminates by the length of what is left to read.
  \<^item> \<open>Sse\<close>: \<open>EventSource\<close> with its parser \<open>process_line\<close>, one connection (\<open>Run\<close>), \<open>Close\<close>. \<open>Sse_Forever\<close>:
    \<open>RunForever\<close> as a machine with one step per access of \<open>ReadyState\<close>, so that \<open>Close\<close> can come at any
    time; its steps within a connection are those of \<open>Run\<close> (\<open>Run_steps\<close>).
  \<^item> \<open>Handler\<close>: the interface \<open>mmsdHandler\<close> as the locales \<open>mmsd_handler\<close> (an invariant that every call
    keeps) and \<open>resetting_handler\<close> (\<open>Apply\<close> forgets the past), interpreted in the managers' theories.
  \<^item> \<open>Udp_Proxy\<close>, \<open>Udp_Manager\<close>: frontends and backends; the manager's table, the bound sockets and the
    goroutines that read them. \<open>Udp_Schedule\<close>: the goroutines of \<open>Serve\<close>, of its two schedulers and of
    \<open>Send\<close> up to its write, with the packets they write and the counters they race for. \<open>Udp_Serve\<close>:
    the readers and channels of \<open>Send\<close>, and of \<open>Serve\<close> and \<open>Quit\<close> of the proxy, as step relations (one
    step per communication), and the printed table. \<open>Udp_Refines\<close>: the abstract table
    (\<open>udp_call\<close>, panics included) that every sequence of calls of the manager implements.
  \<^item> \<open>Dns_Manager\<close>: database, names, queries; the interleaving of \<open>Apply\<close> with queries as a step
    relation, one step per critical section; the start of the two servers. The database points into a
    heap of applications. \<open>view_call\<close> is the abstract database that every sequence of calls implements.
  \<^item> \<open>Files_Manager\<close>: one text file per service, written under another name and renamed; \<open>files_call\<close>
    is the specification of a call on the contents of all paths.
  \<^item> \<open>Haproxy_Config\<close>: every text the manager renders, byte by byte. \<open>Haproxy_Manager\<close>: \<open>Apply\<close>,
    \<open>Update\<close>, \<open>Remove\<close>, the cache of task pointers as references to cells (locale \<open>task_cache\<close>),
    the admin commands. \<open>Haproxy_Fragments\<close> and \<open>Haproxy_Render\<close>: the abstract map of fragments
    (\<open>fragment_call\<close>) and of virtual hosts (\<open>vhosts_call\<close>) whose text (\<open>rendered\<close>) every sequence of
    calls renders, and a turn of the loop installs. \<open>Haproxy_Process\<close>: \<open>writeConfig\<close>, \<open>reloadConfig\<close>, hooks, one turn of the
    loop (\<open>tick\<close>), over a world of files and commands run; what a command does is a parameter.
  \<^item> \<open>Api\<close>: the five routes; \<open>instance_ports\<close> terminates by the distance to the last port.
  \<^item> \<open>Service\<close>: settings, set-up, event handlers, listeners, the steps of the whole service.
    \<open>Service_Invariant\<close>: the locale \<open>service_call\<close> (what a call of a handler keeps) and
    \<open>service_property\<close> (what every step keeps), with their interpretations. \<open>Service_Calls\<close>: the calls
    that events make by Marathon's answers (\<open>service_calls\<close>), and what is served after them. \<open>Command_Line\<close>: the table
    of flags, each a pair of functions on the settings, and the start with arguments.

  \<^bold>\<open>What is shown.\<close> Each manager: an invariant over all sequences of calls, what \<open>Apply\<close>, \<open>Update\<close>
  and \<open>Remove\<close> publish (DNS answers, UDP backends, instance files, HAProxy servers and routes), that
  \<open>Apply\<close> does not depend on the past, and what happens on errors. All four refine an
  abstract specification over every sequence of calls. HAProxy: only a configuration
  that was checked is installed, and when a reload happens. The UDP proxy: which packets its
  schedulers write, whatever the order of their goroutines, and that the readers deliver what the
  sequential description of \<open>Send\<close> says. The stream: events are delivered in order and once, what a
  \<open>Close\<close> does at every point of the loop, and the range of the reconnection delay. The service: its
  invariant from the set-up on, the composition of the handlers in a reset, events driving the
  handlers, from the bytes of an event to the answer of a query, from Marathon's answers to the
  answers of all DNS queries, the installed configuration and the UDP frontends, and which handlers
  the command line starts. The API: what it answers, by Marathon's answers, and when it panics.
  Several theorems describe defects as the code has them, among them: cached tasks alias the loop
  variable, destroyed applications stay routed, UDP frontends stay and are served by one more goroutine
  after every update, every forwarded datagram leaves a goroutine, the counters of the UDP proxy lose
  updates, a \<open>Close\<close> of the stream at the wrong moment is lost, instance files have other names and
  another health check protocol than the README says, a proxy cannot be quit, a failed reload is not tried again, a rejected configuration or
  a vanished application ends the daemon, a failed first fetch is never made up for.

  \<^bold>\<open>Interaction.\<close> All handlers share one application object. The HAProxy manager sorts its tasks in
  place, which the DNS manager sees through its pointer and the files manager in its turn; hence
  the heap, and the weaker invariant \<open>dns_served\<close> of the DNS database inside the service. Events
  and turns of the HAProxy loop are whole steps: a mutex orders those of the HAProxy manager, and the
  stream has one goroutine. DNS queries run beside them; they are interleaved with \<open>Apply\<close> in
  \<open>Dns_Manager\<close>, and asked between the steps in the theorems on the service.

  \<^bold>\<open>Not modelled.\<close> Logging; what the libraries' servers do (DNS, HTTP) and the router of the API; the
  decoding of JSON and the splitting of the command line into flags (parameters); partial writes of
  files; a change of the backends of a UDP frontend while a datagram is being passed on; src/test.go, a
  scratch program, and the unit tests. The resolver is a function of the name: a host keeps its
  addresses during a run, which the code does not rely on but the theorems on addresses do. \<open>mmsd_Run\<close>
  ends where the source waits for its quit channel, on which nothing is ever sent. The conversion of
  the DNS time to live follows the rounding of 64-bit floats (\<open>ttl_seconds\<close>).
\<close>

end
